(* ===== verification/Prelude.thy ===== *)
theory Prelude
  imports Main "HOL-Library.AList" "HOL-Library.Word" "HOL-Library.List_Lexorder"
    "HOL-Library.Char_ord"
begin

text \<open>
  Shared vocabulary of the development: machine integers at the width the Rust code uses, the
  outcome of code that can panic, the two map types of the standard library
  (\<open>HashMap\<close> as an association list in its unspecified iteration order, \<open>BTreeMap\<close> as a
  strictly sorted association list), the inclusive range scan used by both allocators, and the
  big-endian conversions. Arithmetic follows the release profile of the crates: \<open>+\<close>, \<open>-\<close>
  and shifts wrap at the width, indexing out of range panics.

  The locale \<open>rust_map\<close> states what the clients of either map rely on; it is interpreted on
  both representations.
\<close>

unbundle bit_operations_syntax

named_theorems map_simps \<open>lookup and key-set equations of the map models\<close>
named_theorems byte_simps \<open>lengths and slices of byte strings\<close>
named_theorems rust_defs \<open>small helper definitions that proofs unfold\<close>

section \<open>Types\<close>

type_synonym u8 = "8 word"
type_synonym u16 = "16 word"
type_synonym u32 = "32 word"
type_synonym u64 = "64 word"
type_synonym bytes = "8 word list"
type_synonym ('e, 'a) result = "'e + 'a"

text \<open>The outcome of code that may panic: an index out of range, a failed slice.\<close>

datatype 'a outcome = Done 'a | Panicked

fun is_done :: "'a outcome \<Rightarrow> bool" where
  "is_done (Done _) = True"
| "is_done Panicked = False"

text \<open>\<open>Result::ok_or\<close> and \<open>Result::ok\<close>.\<close>

definition ok_or :: "'e \<Rightarrow> 'a option \<Rightarrow> ('e, 'a) result" where
  "ok_or e x = (case x of None \<Rightarrow> Inl e | Some v \<Rightarrow> Inr v)"

definition result_ok :: "('e, 'a) result \<Rightarrow> 'a option" where
  "result_ok r = (case r of Inl _ \<Rightarrow> None | Inr v \<Rightarrow> Some v)"

text \<open>The \<open>?\<close> operator: leave with the error and the state as it is at that point.\<close>

definition try_in :: "'s \<Rightarrow> ('e, 'a) result \<Rightarrow> ('a \<Rightarrow> 's \<times> ('e, 'b) result) \<Rightarrow> 's \<times> ('e, 'b) result" where
  "try_in s r f = (case r of Inl e \<Rightarrow> (s, Inl e) | Inr v \<Rightarrow> f v)"

text \<open>The \<open>?\<close> operator after a call that itself changes the state.\<close>

definition and_then :: "'s \<times> ('e, 'a) result \<Rightarrow> ('s \<Rightarrow> 'a \<Rightarrow> 's \<times> ('e, 'b) result) \<Rightarrow> 's \<times> ('e, 'b) result" where
  "and_then m f = (case m of (s, Inl e) \<Rightarrow> (s, Inl e) | (s, Inr v) \<Rightarrow> f s v)"

section \<open>Maps\<close>

text \<open>
  \<open>HashMap\<close>: an association list with distinct keys. The list order stands for the iteration
  order, which Rust leaves unspecified: results never fix it.
\<close>

type_synonym ('k, 'v) hash_map = "('k \<times> 'v) list"

definition hm_wf :: "('k, 'v) hash_map \<Rightarrow> bool" where
  "hm_wf m = distinct (map fst m)"

definition hm_insert :: "'k \<Rightarrow> 'v \<Rightarrow> ('k, 'v) hash_map \<Rightarrow> ('k, 'v) hash_map" where
  "hm_insert k v m = AList.update k v m"

definition hm_remove :: "'k \<Rightarrow> ('k, 'v) hash_map \<Rightarrow> ('k, 'v) hash_map" where
  "hm_remove k m = AList.delete k m"

text \<open>\<open>BTreeMap\<close>: an association list strictly sorted by key, its iteration order.\<close>

type_synonym ('k, 'v) btree_map = "('k \<times> 'v) list"

definition bm_wf :: "('k::linorder, 'v) btree_map \<Rightarrow> bool" where
  "bm_wf m = sorted_wrt (<) (map fst m)"

fun bm_insert :: "'k::linorder \<Rightarrow> 'v \<Rightarrow> ('k, 'v) btree_map \<Rightarrow> ('k, 'v) btree_map" where
  "bm_insert k v [] = [(k, v)]"
| "bm_insert k v ((a, b) # m) =
     (if k < a then (k, v) # (a, b) # m
      else if k = a then (k, v) # m
      else (a, b) # bm_insert k v m)"

fun bm_remove :: "'k::linorder \<Rightarrow> ('k, 'v) btree_map \<Rightarrow> ('k, 'v) btree_map" where
  "bm_remove k [] = []"
| "bm_remove k ((a, b) # m) = (if k = a then m else (a, b) # bm_remove k m)"

text \<open>\<open>BTreeMap::extend\<close> and \<open>collect\<close>: insertion of every pair in turn.\<close>

definition bm_extend :: "('k::linorder, 'v) btree_map \<Rightarrow> ('k \<times> 'v) list \<Rightarrow> ('k, 'v) btree_map" where
  "bm_extend m kvs = fold (\<lambda>(k, v). bm_insert k v) kvs m"

section \<open>The scan of an inclusive range\<close>

text \<open>\<open>(lo..=hi).find(p)\<close>: the first value of the range that satisfies \<open>p\<close>.\<close>

function find_range :: "nat \<Rightarrow> nat \<Rightarrow> (nat \<Rightarrow> bool) \<Rightarrow> nat option" where
  "find_range lo hi p =
     (if hi < lo then None else if p lo then Some lo else find_range (Suc lo) hi p)"
  by pat_completeness auto
termination
  by (relation "measure (\<lambda>(lo, hi, p). Suc hi - lo)") auto

declare find_range.simps [simp del]

section \<open>Big-endian byte strings\<close>

definition be16 :: "u8 \<Rightarrow> u8 \<Rightarrow> u16" where
  "be16 a b = push_bit 8 (ucast a) OR ucast b"

definition be16_bytes :: "u16 \<Rightarrow> bytes" where
  "be16_bytes w = [ucast (drop_bit 8 w), ucast w]"

definition be32 :: "u8 \<Rightarrow> u8 \<Rightarrow> u8 \<Rightarrow> u8 \<Rightarrow> u32" where
  "be32 a b c d = push_bit 24 (ucast a) OR push_bit 16 (ucast b) OR push_bit 8 (ucast c) OR ucast d"

definition be32_bytes :: "u32 \<Rightarrow> bytes" where
  "be32_bytes w = [ucast (drop_bit 24 w), ucast (drop_bit 16 w), ucast (drop_bit 8 w), ucast w]"

text \<open>\<open>slice.get(a..b)\<close>: \<open>None\<close> when the range leaves the slice.\<close>

definition slice_get :: "'a list \<Rightarrow> nat \<Rightarrow> nat \<Rightarrow> 'a list option" where
  "slice_get xs a b = (if a \<le> b \<and> b \<le> length xs then Some (take (b - a) (drop a xs)) else None)"

text \<open>\<open>dst[at..at + src.len()].copy_from_slice(src)\<close>, for a range inside the slice.\<close>

definition splice :: "nat \<Rightarrow> 'a list \<Rightarrow> 'a list \<Rightarrow> 'a list" where
  "splice at src dst = take at dst @ src @ drop (at + length src) dst"

section \<open>Results and options\<close>

lemma ok_or_simps [simp]:
  "ok_or e None = Inl e" "ok_or e (Some v) = Inr v"
  by (simp_all add: ok_or_def)

lemma ok_or_eq_Inr [simp]: "(ok_or e x = Inr v) = (x = Some v)"
  by (cases x) simp_all

lemma ok_or_eq_Inl [simp]: "(ok_or e x = Inl e') = (x = None \<and> e' = e)"
  by (cases x) auto

lemma result_ok_simps [simp]:
  "result_ok (Inl e) = None" "result_ok (Inr v) = Some v"
  by (simp_all add: result_ok_def)

lemma result_ok_eq_Some [simp]: "(result_ok r = Some v) = (r = Inr v)"
  by (cases r) simp_all

lemma try_in_Inr: "try_in s r f = (s', Inr v) \<longleftrightarrow> (\<exists>x. r = Inr x \<and> f x = (s', Inr v))"
  by (auto simp: try_in_def split: sum.splits)

lemma and_then_simps [simp]: "and_then (s, Inl e) f = (s, Inl e)" "and_then (s, Inr v) f = f s v"
  by (simp_all add: and_then_def)

lemma and_then_Inr:
  "and_then m f = (s', Inr v) \<longleftrightarrow> (\<exists>s1 x. m = (s1, Inr x) \<and> f s1 x = (s', Inr v))"
  by (auto simp: and_then_def split: prod.splits sum.splits)

section \<open>The two map models\<close>

lemma hm_get_insert [simp, map_simps]:
  "map_of (hm_insert k v m) = (map_of m)(k \<mapsto> v)"
  by (simp add: hm_insert_def update_conv')

lemma hm_get_remove [simp, map_simps]:
  "map_of (hm_remove k m) = (map_of m)(k := None)"
  by (simp add: hm_remove_def delete_conv')

lemma hm_wf_empty [simp]: "hm_wf []"
  by (simp add: hm_wf_def)

lemma hm_wf_insert [simp, intro]: "hm_wf m \<Longrightarrow> hm_wf (hm_insert k v m)"
  by (simp add: hm_wf_def hm_insert_def distinct_update)

lemma hm_wf_remove [simp, intro]: "hm_wf m \<Longrightarrow> hm_wf (hm_remove k m)"
  by (simp add: hm_wf_def hm_remove_def distinct_delete)

lemma hm_mem_iff: "hm_wf m \<Longrightarrow> ((k, v) \<in> set m) = (map_of m k = Some v)"
  by (simp add: hm_wf_def)

lemma bm_wf_Nil [simp]: "bm_wf []"
  by (simp add: bm_wf_def)

lemma bm_wf_Cons [simp]: "bm_wf ((a, b) # m) = ((\<forall>k \<in> fst ` set m. a < k) \<and> bm_wf m)"
  by (auto simp add: bm_wf_def)

lemma bm_wf_distinct: "bm_wf m \<Longrightarrow> distinct (map fst m)"
  unfolding bm_wf_def by (simp add: strict_sorted_iff)

lemma bm_get_insert [simp, map_simps]:
  "map_of (bm_insert k v m) = (map_of m)(k \<mapsto> v)"
  by (induction k v m rule: bm_insert.induct) auto

lemma bm_keys_insert [simp, map_simps]:
  "fst ` set (bm_insert k v m) = insert k (fst ` set m)"
  by (induction k v m rule: bm_insert.induct) auto

lemma bm_wf_insert [simp, intro]: "bm_wf m \<Longrightarrow> bm_wf (bm_insert k v m)"
  by (induction k v m rule: bm_insert.induct) (auto simp: less_imp_neq)

lemma bm_remove_filter: "bm_wf m \<Longrightarrow> bm_remove k m = filter (\<lambda>p. fst p \<noteq> k) m"
proof (induction k m rule: bm_remove.induct)
  case (2 k a b m)
  then show ?case
    by (auto intro!: filter_True [symmetric] dest: less_imp_neq)
qed simp

lemma bm_get_remove [simp, map_simps]:
  "bm_wf m \<Longrightarrow> map_of (bm_remove k m) = (map_of m)(k := None)"
proof (induction k m rule: bm_remove.induct)
  case (2 k a b m)
  then show ?case
    by (auto simp: fun_eq_iff map_of_eq_None_iff)
qed simp

lemma bm_wf_remove [simp, intro]: "bm_wf m \<Longrightarrow> bm_wf (bm_remove k m)"
  by (simp add: bm_remove_filter bm_wf_def sorted_wrt_filter sorted_wrt_map)

lemma bm_mem_iff: "bm_wf m \<Longrightarrow> ((k, v) \<in> set m) = (map_of m k = Some v)"
  by (simp add: bm_wf_distinct)

text \<open>A sorted map is determined by its lookups.\<close>

lemma bm_ext:
  assumes "bm_wf m" "bm_wf n" "map_of m = map_of n"
  shows "m = n"
  using assms
proof (induction m arbitrary: n)
  case Nil
  then show ?case by (cases n) (auto simp: fun_eq_iff split: if_splits)
next
  case (Cons p m)
  obtain a b where p: "p = (a, b)" by (cases p)
  have "map_of n a = Some b" using Cons.prems(3) p by (metis map_of_Cons_code(2))
  then obtain c d n' where n: "n = (c, d) # n'" by (cases n) auto
  have mem: "(a, b) \<in> set n" using \<open>map_of n a = Some b\<close> by (simp add: map_of_SomeD)
  have "map_of (p # m) c = Some d" unfolding Cons.prems(3) using n by simp
  then have mem': "(c, d) \<in> set (p # m)" by (rule map_of_SomeD)
  have "\<not> a < c" using mem n Cons.prems(2) by (force dest: less_asym)
  moreover have "\<not> c < a" using mem' p Cons.prems(1) by (force dest: less_asym)
  ultimately have ac: "a = c" by simp
  then have bd: "b = d" using \<open>map_of n a = Some b\<close> n by simp
  have na: "map_of m a = None" "map_of n' a = None"
    using Cons.prems(1,2) p n ac by (auto simp: map_of_eq_None_iff)
  have "map_of m = map_of n'"
  proof
    fix k
    show "map_of m k = map_of n' k"
      using fun_cong [OF Cons.prems(3), of k] na p n ac by (cases "k = a") auto
  qed
  then have "m = n'" using Cons.IH Cons.prems(1,2) p n by simp
  then show ?case using p n ac bd by simp
qed

lemma bm_wf_extend [simp, intro]: "bm_wf m \<Longrightarrow> bm_wf (bm_extend m kvs)"
  unfolding bm_extend_def by (induction kvs arbitrary: m) auto

lemma bm_get_extend: "map_of (bm_extend m kvs) = map_of m ++ map_of (rev kvs)"
  unfolding bm_extend_def by (induction kvs arbitrary: m) (auto simp: map_add_upd_left fun_eq_iff map_add_def split: option.splits)

text \<open>What the code relies on of either map type.\<close>

locale rust_map =
  fixes wf :: "'m \<Rightarrow> bool"
    and empty :: "'m"
    and insert :: "'k \<Rightarrow> 'v \<Rightarrow> 'm \<Rightarrow> 'm"
    and remove :: "'k \<Rightarrow> 'm \<Rightarrow> 'm"
    and get :: "'m \<Rightarrow> 'k \<Rightarrow> 'v option"
  assumes wf_empty: "wf empty"
    and wf_insert: "wf m \<Longrightarrow> wf (insert k v m)"
    and wf_remove: "wf m \<Longrightarrow> wf (remove k m)"
    and get_empty: "get empty k = None"
    and get_insert: "wf m \<Longrightarrow> get (insert k v m) k' = (if k' = k then Some v else get m k')"
    and get_remove: "wf m \<Longrightarrow> get (remove k m) k' = (if k' = k then None else get m k')"
begin

lemma remove_insert_same:
  "wf m \<Longrightarrow> get (remove k (insert k v m)) k' = (if k' = k then None else get m k')"
  by (simp add: get_remove get_insert wf_insert)

lemma insert_commute:
  assumes "wf m" "k \<noteq> l"
  shows "get (insert k v (insert l w m)) x = get (insert l w (insert k v m)) x"
  using assms by (simp add: get_insert wf_insert)

lemma dom_insert: "wf m \<Longrightarrow> dom (get (insert k v m)) = Set.insert k (dom (get m))"
  by (auto simp: get_insert split: if_splits)

lemma dom_remove: "wf m \<Longrightarrow> dom (get (remove k m)) = dom (get m) - {k}"
  by (auto simp: get_remove split: if_splits)

end

interpretation hm: rust_map hm_wf "[]" hm_insert hm_remove map_of
  by unfold_locales auto

interpretation bm: rust_map bm_wf "[]" bm_insert bm_remove map_of
  by unfold_locales auto

section \<open>The range scan finds the least value\<close>

lemma find_range_Some:
  "find_range lo hi p = Some n \<longleftrightarrow> lo \<le> n \<and> n \<le> hi \<and> p n \<and> (\<forall>k. lo \<le> k \<longrightarrow> k < n \<longrightarrow> \<not> p k)"
proof (induction lo hi p rule: find_range.induct)
  case (1 lo hi p)
  show ?case
  proof (cases "hi < lo")
    case True
    then show ?thesis by (auto simp: find_range.simps)
  next
    case False
    note ge = this
    show ?thesis
    proof (cases "p lo")
      case True
      then show ?thesis using ge by (force simp: find_range.simps)
    next
      case False
      then have "find_range lo hi p = Some n \<longleftrightarrow>
          Suc lo \<le> n \<and> n \<le> hi \<and> p n \<and> (\<forall>k. Suc lo \<le> k \<longrightarrow> k < n \<longrightarrow> \<not> p k)"
        using ge "1.IH" by (simp add: find_range.simps [of lo hi p])
      also have "\<dots> \<longleftrightarrow> lo \<le> n \<and> n \<le> hi \<and> p n \<and> (\<forall>k. lo \<le> k \<longrightarrow> k < n \<longrightarrow> \<not> p k)"
        using False by (metis Suc_leI le_eq_less_or_eq Suc_leD)
      finally show ?thesis .
    qed
  qed
qed

lemma find_range_None:
  "find_range lo hi p = None \<longleftrightarrow> (\<forall>n. lo \<le> n \<longrightarrow> n \<le> hi \<longrightarrow> \<not> p n)"
proof
  assume none: "find_range lo hi p = None"
  show "\<forall>n. lo \<le> n \<longrightarrow> n \<le> hi \<longrightarrow> \<not> p n"
  proof (rule ccontr)
    assume "\<not> ?thesis"
    then obtain n where n: "lo \<le> n \<and> n \<le> hi \<and> p n" by blast
    define m where "m = (LEAST n. lo \<le> n \<and> n \<le> hi \<and> p n)"
    have m: "lo \<le> m \<and> m \<le> hi \<and> p m"
      unfolding m_def by (rule LeastI [of _ n]) (rule n)
    have "\<not> p k" if "lo \<le> k" "k < m" for k
      using that m not_less_Least [of k "\<lambda>n. lo \<le> n \<and> n \<le> hi \<and> p n"] unfolding m_def by auto
    with m have "find_range lo hi p = Some m" by (simp add: find_range_Some)
    with none show False by simp
  qed
next
  assume "\<forall>n. lo \<le> n \<longrightarrow> n \<le> hi \<longrightarrow> \<not> p n"
  then show "find_range lo hi p = None"
    by (cases "find_range lo hi p") (auto simp: find_range_Some)
qed

section \<open>Bytes\<close>

lemma length_be16_bytes [simp, byte_simps]: "length (be16_bytes w) = 2"
  by (simp add: be16_bytes_def)

lemma length_be32_bytes [simp, byte_simps]: "length (be32_bytes w) = 4"
  by (simp add: be32_bytes_def)

lemma be16_of_bytes [simp]: "be16 (ucast (drop_bit 8 w)) (ucast w) = w"
proof (rule bit_word_eqI)
  fix n assume "n < LENGTH(16)"
  then consider "n < 8" | "8 \<le> n" "n < 16" by fastforce
  then show "bit (be16 (ucast (drop_bit 8 w)) (ucast w)) n = bit w n"
    by cases (auto simp: be16_def bit_simps)
qed

lemma be32_of_bytes [simp]:
  "be32 (ucast (drop_bit 24 w)) (ucast (drop_bit 16 w)) (ucast (drop_bit 8 w)) (ucast w) = w"
proof (rule bit_word_eqI)
  fix n assume "n < LENGTH(32)"
  then consider "n < 8" | "8 \<le> n" "n < 16" | "16 \<le> n" "n < 24" | "24 \<le> n" "n < 32"
    by fastforce
  then show "bit (be32 (ucast (drop_bit 24 w)) (ucast (drop_bit 16 w)) (ucast (drop_bit 8 w))
      (ucast w)) n = bit w n"
    by cases (auto simp: be32_def bit_simps)
qed

lemma length_splice [simp, byte_simps]:
  "at + length src \<le> length dst \<Longrightarrow> length (splice at src dst) = length dst"
  by (simp add: splice_def)

end
