(* ===== verification/Json_Value.thy ===== *)
theory Json_Value
  imports Prelude
begin

text \<open>
  The JSON values the program exchanges and stores. \<open>serde_json\<close> is a third-party crate: its
  \<open>Value\<close> is a type parameter and the operations the code calls on it are the fields of a
  record that every client takes as an argument. What the clients rely on is the predicate
  \<open>json_ok\<close>: constructors and accessors agree, object literals answer with their last binding,
  and text written from a value reads back as that value. The instance \<open>tree_json\<close> shows that
  these laws can hold.
\<close>

record 'v json_api =
  jn_null :: 'v
  jn_string :: "string \<Rightarrow> 'v"
  jn_number :: "u64 \<Rightarrow> 'v"
  jn_object :: "(string \<times> 'v) list \<Rightarrow> 'v"
  jn_is_object :: "'v \<Rightarrow> bool"
  jn_get :: "'v \<Rightarrow> string \<Rightarrow> 'v option"
  jn_as_str :: "'v \<Rightarrow> string option"
  jn_as_u64 :: "'v \<Rightarrow> u64 option"
  jn_insert :: "'v \<Rightarrow> string \<Rightarrow> 'v \<Rightarrow> 'v"
  jn_to_text :: "'v \<Rightarrow> (string, string) result"
  jn_of_text :: "string \<Rightarrow> (string, 'v) result"

text \<open>\<open>json!\<close> of an optional string: \<open>null\<close> when it is absent.\<close>

definition jn_opt_string :: "'v json_api \<Rightarrow> string option \<Rightarrow> 'v" where
  "jn_opt_string J x = (case x of None \<Rightarrow> jn_null J | Some s \<Rightarrow> jn_string J s)"

definition json_ok :: "'v json_api \<Rightarrow> bool" where
  "json_ok J =
     ((\<forall>s. jn_as_str J (jn_string J s) = Some s)
      \<and> (\<forall>n. jn_as_u64 J (jn_number J n) = Some n)
      \<and> jn_as_str J (jn_null J) = None
      \<and> (\<forall>k. jn_get J (jn_null J) k = None)
      \<and> (\<forall>kvs. jn_is_object J (jn_object J kvs))
      \<and> (\<forall>kvs k. jn_get J (jn_object J kvs) k = map_of (rev kvs) k)
      \<and> (\<forall>v k w. jn_is_object J v \<longrightarrow> jn_is_object J (jn_insert J v k w)
            \<and> jn_get J (jn_insert J v k w) = (jn_get J v)(k \<mapsto> w))
      \<and> (\<forall>v t. jn_to_text J v = Inr t \<longrightarrow> jn_of_text J t = Inr v))"

lemma json_okD:
  assumes "json_ok J"
  shows "jn_as_str J (jn_string J s) = Some s" "jn_as_u64 J (jn_number J n) = Some n"
    "jn_as_str J (jn_null J) = None" "jn_get J (jn_null J) k = None"
    "jn_is_object J (jn_object J kvs)" "jn_get J (jn_object J kvs) k = map_of (rev kvs) k"
    "jn_is_object J v \<Longrightarrow> jn_is_object J (jn_insert J v k w)"
    "jn_is_object J v \<Longrightarrow> jn_get J (jn_insert J v k w) = (jn_get J v)(k \<mapsto> w)"
    "jn_to_text J v = Inr t \<Longrightarrow> jn_of_text J t = Inr v"
  using assms by (simp_all add: json_ok_def)

section \<open>An instance\<close>

text \<open>
  Values as trees. Text is a prefix code of the tree, so that reading inverts writing; it stands
  for JSON text only as far as \<open>json_ok\<close> goes.
\<close>

datatype tree_value = TNull | TStr string | TNum u64 | TObj "(string \<times> tree_value) list"

fun tree_get :: "tree_value \<Rightarrow> string \<Rightarrow> tree_value option" where
  "tree_get (TObj kvs) k = map_of kvs k"
| "tree_get _ k = None"

fun tree_insert :: "tree_value \<Rightarrow> string \<Rightarrow> tree_value \<Rightarrow> tree_value" where
  "tree_insert (TObj kvs) k w = TObj ((k, w) # kvs)"
| "tree_insert v k w = v"

text \<open>A string is written with every character marked, then a stop.\<close>

fun put_str :: "string \<Rightarrow> string" where
  "put_str [] = ''.''"
| "put_str (c # s) = CHR ''c'' # c # put_str s"

fun get_str :: "string \<Rightarrow> (string \<times> string) option" where
  "get_str (m # rest) =
     (if m = CHR ''.'' then Some ([], rest)
      else case rest of
        [] \<Rightarrow> None
      | c # rest' \<Rightarrow> map_option (\<lambda>(s, r). (c # s, r)) (get_str rest'))"
| "get_str [] = None"

definition put_u64 :: "u64 \<Rightarrow> string" where
  "put_u64 n = put_str (map (\<lambda>i. if bit n i then CHR ''1'' else CHR ''0'') [0..<64])"

definition get_u64 :: "string \<Rightarrow> u64" where
  "get_u64 s = horner_sum of_bool 2 (map (\<lambda>c. c = CHR ''1'') s)"

fun put_tree :: "tree_value \<Rightarrow> string" and put_fields :: "(string \<times> tree_value) list \<Rightarrow> string" where
  "put_tree TNull = ''n''"
| "put_tree (TStr s) = CHR ''s'' # put_str s"
| "put_tree (TNum n) = CHR ''u'' # put_u64 n"
| "put_tree (TObj kvs) = CHR ''o'' # put_fields kvs"
| "put_fields [] = '']''"
| "put_fields ((k, v) # kvs) = CHR '','' # put_str k @ put_tree v @ put_fields kvs"

text \<open>Reading with fuel: the length of the text is enough.\<close>

fun get_tree :: "nat \<Rightarrow> string \<Rightarrow> (tree_value \<times> string) option"
  and get_fields :: "nat \<Rightarrow> string \<Rightarrow> ((string \<times> tree_value) list \<times> string) option" where
  "get_tree 0 s = None"
| "get_tree (Suc f) [] = None"
| "get_tree (Suc f) (c # s) =
     (if c = CHR ''n'' then Some (TNull, s)
      else if c = CHR ''s'' then map_option (\<lambda>(t, r). (TStr t, r)) (get_str s)
      else if c = CHR ''u'' then map_option (\<lambda>(t, r). (TNum (get_u64 t), r)) (get_str s)
      else if c = CHR ''o'' then map_option (\<lambda>(kvs, r). (TObj kvs, r)) (get_fields f s)
      else None)"
| "get_fields 0 s = None"
| "get_fields (Suc f) [] = None"
| "get_fields (Suc f) (c # s) =
     (if c = CHR '']'' then Some ([], s)
      else case get_str s of
        None \<Rightarrow> None
      | Some (k, r) \<Rightarrow>
     (case get_tree f r of
        None \<Rightarrow> None
      | Some (v, r') \<Rightarrow> map_option (\<lambda>(kvs, r''). ((k, v) # kvs, r'')) (get_fields f r')))"

definition tree_of_text :: "string \<Rightarrow> (string, tree_value) result" where
  "tree_of_text s =
     (case get_tree (length s) s of Some (v, []) \<Rightarrow> Inr v | _ \<Rightarrow> Inl ''invalid value'')"

definition tree_json :: "tree_value json_api" where
  "tree_json = \<lparr>jn_null = TNull, jn_string = TStr, jn_number = TNum, jn_object = TObj \<circ> rev,
     jn_is_object = (\<lambda>v. case v of TObj _ \<Rightarrow> True | _ \<Rightarrow> False),
     jn_get = tree_get,
     jn_as_str = (\<lambda>v. case v of TStr s \<Rightarrow> Some s | _ \<Rightarrow> None),
     jn_as_u64 = (\<lambda>v. case v of TNum n \<Rightarrow> Some n | _ \<Rightarrow> None),
     jn_insert = tree_insert,
     jn_to_text = Inr \<circ> put_tree, jn_of_text = tree_of_text\<rparr>"

lemma get_put_str [simp]: "get_str (put_str s @ r) = Some (s, r)"
  by (induction s) simp_all

lemma get_put_u64 [simp]: "get_str (put_u64 n @ r) = Some (map (\<lambda>i. if bit n i then CHR ''1'' else CHR ''0'') [0..<64], r)"
  by (simp only: put_u64_def get_put_str)

lemma get_u64_bits [simp]: "get_u64 (map (\<lambda>i. if bit n i then CHR ''1'' else CHR ''0'') [0..<64]) = n"
proof -
  have "map ((\<lambda>c. c = CHR ''1'') \<circ> (\<lambda>i. if bit n i then CHR ''1'' else CHR ''0'')) [0..<64] = map (bit n) [0..<64]"
    by (rule map_cong [OF refl]) simp
  then have "get_u64 (map (\<lambda>i. if bit n i then CHR ''1'' else CHR ''0'') [0..<64])
      = horner_sum of_bool 2 (map (bit n) [0..<64])"
    by (simp only: get_u64_def map_map)
  also have "\<dots> = take_bit 64 n" by (rule horner_sum_bit_eq_take_bit)
  also have "\<dots> = n" by (simp add: take_bit_word_eq_self)
  finally show ?thesis .
qed

lemma get_put_tree:
  "length (put_tree v) \<le> f \<Longrightarrow> get_tree f (put_tree v @ r) = Some (v, r)"
  "length (put_fields kvs) \<le> f \<Longrightarrow> get_fields f (put_fields kvs @ r) = Some (kvs, r)"
proof (induction v and kvs arbitrary: f r and f r rule: put_tree_put_fields.induct)
  case (4 kvs)
  then show ?case by (cases f) simp_all
next
  case (6 k v kvs)
  then obtain f' where f: "f = Suc f'" by (cases f) simp_all
  have "length (put_tree v) \<le> f'" "length (put_fields kvs) \<le> f'" using "6.prems" f by simp_all
  then show ?case using "6.IH" f by simp
qed (case_tac [!] f, simp_all)

lemma tree_json_ok: "json_ok tree_json"
proof -
  have "tree_of_text (put_tree v) = Inr v" for v
    using get_put_tree(1) [of v "length (put_tree v)" "[]"] by (simp add: tree_of_text_def)
  moreover have "tree_get (tree_insert v k w) = (tree_get v)(k \<mapsto> w)" if "\<exists>kvs. v = TObj kvs" for v k w
    using that by (auto simp: fun_eq_iff)
  moreover have "tree_get TNull k = None" for k by simp
  ultimately show ?thesis
    by (auto simp: json_ok_def tree_json_def split: tree_value.splits)
qed

end
