(* ===== verification/Rust_Strings.thy ===== *)
theory Rust_Strings
  imports Prelude
begin

text \<open>
  The parts of the Rust standard library for \<open>str\<close>, integers and \<open>Ipv4Addr\<close> that the
  crates use. A \<open>str\<close> is the list of its UTF-8 bytes (\<open>string\<close>); splitting at an ASCII
  character and ASCII comparisons are the same on bytes and on characters, and trimming knows
  the encodings of the Unicode \<open>White_Space\<close> characters. An \<open>Ipv4Addr\<close> is the \<open>u32\<close> that
  \<open>u32::from\<close> makes of its octets.
\<close>

type_synonym ipv4 = u32

section \<open>Splitting and trimming\<close>

text \<open>\<open>s.split(c)\<close>: always at least one piece.\<close>

fun split_on :: "char \<Rightarrow> string \<Rightarrow> string list" where
  "split_on c [] = [[]]"
| "split_on c (x # xs) =
     (if x = c then [] # split_on c xs
      else (case split_on c xs of [] \<Rightarrow> [[x]] | y # ys \<Rightarrow> (x # y) # ys))"

text \<open>\<open>s.split_once(c)\<close>: at the first occurrence.\<close>

definition split_once :: "char \<Rightarrow> string \<Rightarrow> (string \<times> string) option" where
  "split_once c s =
     (case dropWhile (\<lambda>x. x \<noteq> c) s of [] \<Rightarrow> None | _ # rest \<Rightarrow> Some (takeWhile (\<lambda>x. x \<noteq> c) s, rest))"

text \<open>\<open>join\<close> of pieces with a separator.\<close>

fun join_with :: "string \<Rightarrow> string list \<Rightarrow> string" where
  "join_with sep [] = []"
| "join_with sep [x] = x"
| "join_with sep (x # y # xs) = x @ sep @ join_with sep (y # xs)"

definition byte_of :: "char \<Rightarrow> nat" where
  "byte_of c = of_char c"

definition ascii_white :: "nat \<Rightarrow> bool" where
  "ascii_white b = (9 \<le> b \<and> b \<le> 13 \<or> b = 32)"

definition white2 :: "nat \<Rightarrow> nat \<Rightarrow> bool" where
  "white2 a b = (a = 194 \<and> (b = 133 \<or> b = 160))"

definition white3 :: "nat \<Rightarrow> nat \<Rightarrow> nat \<Rightarrow> bool" where
  "white3 a b c =
     (a = 225 \<and> b = 154 \<and> c = 128
      \<or> a = 226 \<and> b = 128 \<and> (128 \<le> c \<and> c \<le> 138 \<or> c = 168 \<or> c = 169 \<or> c = 175)
      \<or> a = 226 \<and> b = 129 \<and> c = 159
      \<or> a = 227 \<and> b = 128 \<and> c = 128)"

text \<open>\<open>trim_start\<close> drops encoded white-space characters from the front.\<close>

fun trim_start :: "string \<Rightarrow> string" where
  "trim_start [] = []"
| "trim_start [a] = (if ascii_white (byte_of a) then [] else [a])"
| "trim_start [a, b] =
     (if ascii_white (byte_of a) then trim_start [b]
      else if white2 (byte_of a) (byte_of b) then [] else [a, b])"
| "trim_start (a # b # c # s) =
     (if ascii_white (byte_of a) then trim_start (b # c # s)
      else if white2 (byte_of a) (byte_of b) then trim_start (c # s)
      else if white3 (byte_of a) (byte_of b) (byte_of c) then trim_start s
      else a # b # c # s)"

text \<open>The same on the reversed bytes, for \<open>trim_end\<close>.\<close>

fun trim_rev :: "string \<Rightarrow> string" where
  "trim_rev [] = []"
| "trim_rev [a] = (if ascii_white (byte_of a) then [] else [a])"
| "trim_rev [b, a] =
     (if ascii_white (byte_of b) then trim_rev [a]
      else if white2 (byte_of a) (byte_of b) then [] else [b, a])"
| "trim_rev (c # b # a # s) =
     (if ascii_white (byte_of c) then trim_rev (b # a # s)
      else if white2 (byte_of b) (byte_of c) then trim_rev (a # s)
      else if white3 (byte_of a) (byte_of b) (byte_of c) then trim_rev s
      else c # b # a # s)"

definition trim_end :: "string \<Rightarrow> string" where
  "trim_end s = rev (trim_rev (rev s))"

definition trim :: "string \<Rightarrow> string" where
  "trim s = trim_end (trim_start s)"

section \<open>Integers\<close>

text \<open>\<open>char::to_digit(radix)\<close> on a byte.\<close>

definition to_digit :: "nat \<Rightarrow> char \<Rightarrow> nat option" where
  "to_digit radix c =
     (let b = byte_of c;
          d = (if 48 \<le> b \<and> b \<le> 57 then b - 48
               else if 97 \<le> b \<and> b \<le> 122 then b - 87
               else if 65 \<le> b \<and> b \<le> 90 then b - 55
               else 255)
      in if d < radix then Some d else None)"

fun digits_from :: "nat \<Rightarrow> nat \<Rightarrow> nat \<Rightarrow> string \<Rightarrow> nat option" where
  "digits_from radix mx acc [] = Some acc"
| "digits_from radix mx acc (c # cs) =
     (case to_digit radix c of
        None \<Rightarrow> None
      | Some d \<Rightarrow> (if mx < acc * radix + d then None else digits_from radix mx (acc * radix + d) cs))"

text \<open>
  \<open>from_str_radix\<close> of an unsigned type with maximum \<open>mx\<close>: one leading plus sign is accepted,
  a sign alone and the empty string are not, and overflow is an error.
\<close>

definition parse_uint :: "nat \<Rightarrow> nat \<Rightarrow> string \<Rightarrow> nat option" where
  "parse_uint radix mx s =
     (case s of
        [] \<Rightarrow> None
      | c # cs \<Rightarrow>
          (if c = CHR ''+'' then (if cs = [] then None else digits_from radix mx 0 cs)
           else digits_from radix mx 0 s))"

definition parse_u8 :: "string \<Rightarrow> u8 option" where
  "parse_u8 s = map_option of_nat (parse_uint 10 255 s)"

definition parse_u8_hex :: "string \<Rightarrow> u8 option" where
  "parse_u8_hex s = map_option of_nat (parse_uint 16 255 s)"

definition parse_u16 :: "string \<Rightarrow> u16 option" where
  "parse_u16 s = map_option of_nat (parse_uint 10 65535 s)"

definition digit_char :: "nat \<Rightarrow> char" where
  "digit_char d = (if d < 10 then char_of (48 + d) else char_of (87 + d))"

text \<open>Decimal \<open>Display\<close> of an unsigned integer.\<close>

fun show_nat :: "nat \<Rightarrow> string" where
  "show_nat n = (if n < 10 then [digit_char n] else show_nat (n div 10) @ [digit_char (n mod 10)])"

declare show_nat.simps [simp del]

text \<open>The format \<open>{:02x}\<close> of a byte.\<close>

definition hex2 :: "u8 \<Rightarrow> string" where
  "hex2 b = [digit_char (unat b div 16), digit_char (unat b mod 16)]"

text \<open>
  \<open>{value:?}\<close> of a string: quotes, backslashes and ASCII control characters are escaped; bytes of
  other characters are shown as they are, as \<open>Debug\<close> does for printable ones.
\<close>

definition debug_char :: "char \<Rightarrow> string" where
  "debug_char c =
     (let b = byte_of c in
      if b = 34 then [CHR 0x5C, CHR 0x22] else if b = 92 then [CHR 0x5C, CHR 0x5C]
      else if b = 9 then [CHR 0x5C, CHR ''t''] else if b = 10 then [CHR 0x5C, CHR ''n'']
      else if b = 13 then [CHR 0x5C, CHR ''r''] else if b = 0 then [CHR 0x5C, CHR ''0'']
      else if b < 16 then [CHR 0x5C] @ ''u{'' @ [digit_char b] @ ''}''
      else if b < 32 \<or> b = 127 then [CHR 0x5C] @ ''u{'' @ [digit_char (b div 16), digit_char (b mod 16)] @ ''}''
      else [c])"

definition debug_str :: "string \<Rightarrow> string" where
  "debug_str s = [CHR 0x22] @ concat (map debug_char s) @ [CHR 0x22]"

section \<open>IPv4 addresses\<close>

definition ip_octets :: "ipv4 \<Rightarrow> bytes" where
  "ip_octets ip = be32_bytes ip"

definition ip_new :: "u8 \<Rightarrow> u8 \<Rightarrow> u8 \<Rightarrow> u8 \<Rightarrow> ipv4" where
  "ip_new a b c d = be32 a b c d"

abbreviation ip_unspecified :: ipv4 where
  "ip_unspecified \<equiv> 0"

abbreviation ip_broadcast :: ipv4 where
  "ip_broadcast \<equiv> 0xFFFFFFFF"

text \<open>One octet of a textual address: one to three digits, no leading zero, at most 255.\<close>

definition parse_octet :: "string \<Rightarrow> nat option" where
  "parse_octet s =
     (if s = [] \<or> 3 < length s \<or> (hd s = CHR ''0'' \<and> 1 < length s) then None
      else digits_from 10 255 0 s)"

definition parse_ip :: "string \<Rightarrow> ipv4 option" where
  "parse_ip s =
     (case map parse_octet (split_on (CHR ''.'') s) of
        [Some a, Some b, Some c, Some d] \<Rightarrow>
          Some (ip_new (of_nat a) (of_nat b) (of_nat c) (of_nat d))
      | _ \<Rightarrow> None)"

definition show_octet :: "u8 \<Rightarrow> string" where
  "show_octet b = show_nat (unat b)"

definition show_ip :: "ipv4 \<Rightarrow> string" where
  "show_ip ip =
     show_octet (ucast (drop_bit 24 ip)) @ ''.'' @ show_octet (ucast (drop_bit 16 ip)) @ ''.''
     @ show_octet (ucast (drop_bit 8 ip)) @ ''.'' @ show_octet (ucast ip)"

section \<open>Facts about splitting\<close>

lemma split_on_nonempty [simp]: "split_on c s \<noteq> []"
  by (induction c s rule: split_on.induct) (auto split: list.splits)

lemma split_on_no_sep: "c \<notin> set s \<Longrightarrow> split_on c s = [s]"
  by (induction c s rule: split_on.induct) auto

lemma split_on_append: "c \<notin> set s \<Longrightarrow> split_on c (s @ c # t) = s # split_on c t"
  by (induction s) auto

lemma split_once_append: "c \<notin> set s \<Longrightarrow> split_once c (s @ c # t) = Some (s, t)"
proof -
  assume c: "c \<notin> set s"
  then have "dropWhile (\<lambda>x. x \<noteq> c) (s @ c # t) = c # t"
    by (subst dropWhile_append2) auto
  moreover have "takeWhile (\<lambda>x. x \<noteq> c) (s @ c # t) = s"
    using c by (subst takeWhile_append2) auto
  ultimately show ?thesis by (simp add: split_once_def)
qed

lemma split_once_Some: "split_once c s = Some (a, b) \<Longrightarrow> s = a @ c # b \<and> c \<notin> set a"
proof -
  assume h: "split_once c s = Some (a, b)"
  then obtain x where d: "dropWhile (\<lambda>x. x \<noteq> c) s = x # b" and a: "a = takeWhile (\<lambda>x. x \<noteq> c) s"
    by (auto simp: split_once_def split: list.splits)
  have "x = c" using hd_dropWhile [of "\<lambda>x. x \<noteq> c" s] d by simp
  moreover have "s = a @ x # b" using takeWhile_dropWhile_id [of "\<lambda>x. x \<noteq> c" s] d a by simp
  moreover have "c \<notin> set a" using a set_takeWhileD by fastforce
  ultimately show ?thesis by simp
qed

section \<open>Printing and parsing numbers\<close>

lemma unat_u8_less [simp]: "unat (b :: u8) < 256"
  using unsigned_less [of b] by simp

lemma byte_of_char [simp]: "n < 256 \<Longrightarrow> byte_of (char_of n) = n"
  by (simp add: byte_of_def)

lemma to_digit_char: "d < radix \<Longrightarrow> radix \<le> 16 \<Longrightarrow> to_digit radix (digit_char d) = Some d"
  by (simp add: to_digit_def digit_char_def Let_def)

lemma digits_from_append:
  "digits_from r mx acc (xs @ ys) =
     (case digits_from r mx acc xs of None \<Rightarrow> None | Some a \<Rightarrow> digits_from r mx a ys)"
  by (induction r mx acc xs rule: digits_from.induct) (auto split: option.splits)

lemma digits_from_show: "n \<le> mx \<Longrightarrow> digits_from 10 mx 0 (show_nat n) = Some n"
proof (induction n rule: show_nat.induct)
  case (1 n)
  show ?case
  proof (cases "n < 10")
    case True
    then show ?thesis using 1 by (subst show_nat.simps) (simp add: to_digit_char)
  next
    case False
    then have "digits_from 10 mx 0 (show_nat (n div 10)) = Some (n div 10)"
      using 1 by simp
    then show ?thesis using False "1.prems"
      by (subst show_nat.simps) (simp add: digits_from_append to_digit_char)
  qed
qed

lemma show_nat_chars: "set (show_nat n) \<subseteq> digit_char ` {..<10}"
proof (induction n rule: show_nat.induct)
  case (1 n)
  then show ?case by (subst show_nat.simps) auto
qed

lemma show_nat_not_sep:
  assumes "byte_of c < 48 \<or> 57 < byte_of c" shows "c \<notin> set (show_nat n)"
proof
  assume "c \<in> set (show_nat n)"
  then obtain d where "d < 10" "c = digit_char d" using show_nat_chars by fast
  then show False using assms by (simp add: digit_char_def)
qed

lemma show_nat_hd: "show_nat n \<noteq> [] \<and> (hd (show_nat n) = CHR ''0'' \<longrightarrow> n = 0)"
proof (induction n rule: show_nat.induct)
  case (1 n)
  show ?case
  proof (cases "n < 10")
    case True
    have z: "to_digit 10 (CHR ''0'') = Some 0" by (simp add: to_digit_def byte_of_def)
    have "digit_char n = CHR ''0'' \<Longrightarrow> n = 0" using z to_digit_char [of n 10] True by simp
    with True show ?thesis by (subst (1 2) show_nat.simps) auto
  next
    case False
    with 1 show ?thesis by (subst (1 2) show_nat.simps) (auto simp: hd_append)
  qed
qed

lemma length_show_nat: "n < 1000 \<Longrightarrow> length (show_nat n) \<le> 3"
  by (subst show_nat.simps, subst show_nat.simps, subst show_nat.simps) auto

lemma octet_facts:
  assumes "n < 256"
  shows "parse_octet (show_nat n) = Some n" "CHR ''.'' \<notin> set (show_nat n)"
    "CHR ''/'' \<notin> set (show_nat n)" "parse_uint 10 255 (show_nat n) = Some n"
proof -
  have d: "digits_from 10 255 0 (show_nat n) = Some n"
    using assms by (simp add: digits_from_show)
  have ne: "show_nat n \<noteq> []" using show_nat_hd by blast
  have l3: "length (show_nat n) \<le> 3" using assms by (simp add: length_show_nat)
  have hd0: "\<not> (hd (show_nat n) = CHR ''0'' \<and> 1 < length (show_nat n))"
  proof
    assume h: "hd (show_nat n) = CHR ''0'' \<and> 1 < length (show_nat n)"
    then have "n = 0" using show_nat_hd by blast
    with h show False by (simp add: show_nat.simps)
  qed
  show "parse_octet (show_nat n) = Some n"
    using d ne l3 hd0 by (simp add: parse_octet_def)
  show dot: "CHR ''.'' \<notin> set (show_nat n)" "CHR ''/'' \<notin> set (show_nat n)"
    by (simp_all add: show_nat_not_sep byte_of_def)
  have "CHR ''+'' \<notin> set (show_nat n)" by (simp add: show_nat_not_sep byte_of_def)
  then show "parse_uint 10 255 (show_nat n) = Some n"
    using d ne by (auto simp: parse_uint_def split: list.splits)
qed

lemma parse_octet_show [simp]: "parse_octet (show_octet b) = Some (unat b)"
  by (simp add: show_octet_def octet_facts)

lemma show_octet_chars [simp]:
  "CHR ''.'' \<notin> set (show_octet b)" "CHR ''/'' \<notin> set (show_octet b)"
  by (simp_all add: show_octet_def octet_facts)

lemma parse_u8_show [simp]: "parse_u8 (show_octet b) = Some b"
  by (simp add: parse_u8_def show_octet_def octet_facts)

lemma hex2_facts:
  "parse_u8_hex (hex2 b) = Some b" "CHR '':'' \<notin> set (hex2 b)"
proof -
  have q: "unat b div 16 < 16" by (simp add: div_less_iff_less_mult)
  have r: "unat b mod 16 < 16" by simp
  have le: "\<not> 255 < unat b" "\<not> 255 < unat b div 16" using unat_u8_less [of b] q by linarith+
  have ne: "digit_char (unat b div 16) \<noteq> CHR ''+''"
    using to_digit_char [OF q] by (auto simp: to_digit_def byte_of_def)
  show "parse_u8_hex (hex2 b) = Some b"
    using to_digit_char [OF q] to_digit_char [OF r] ne le unat_u8_less [of b] q
    by (simp add: parse_u8_hex_def hex2_def parse_uint_def)
  have "to_digit 16 (CHR '':'') = None" by (simp add: to_digit_def byte_of_def)
  then show "CHR '':'' \<notin> set (hex2 b)"
    using to_digit_char [OF q] to_digit_char [OF r] unfolding hex2_def by force
qed

lemma length_hex2 [simp]: "length (hex2 b) = 2"
  by (simp add: hex2_def)

text \<open>\<open>Display\<close> then \<open>FromStr\<close> gives the address back.\<close>

lemma parse_ip_show [simp]: "parse_ip (show_ip ip) = Some ip"
  by (simp add: parse_ip_def show_ip_def split_on_append split_on_no_sep ip_new_def)

lemma show_ip_inj: "show_ip a = show_ip b \<Longrightarrow> a = b"
  by (metis option.inject parse_ip_show)

lemma show_ip_no_slash [simp]: "CHR ''/'' \<notin> set (show_ip ip)"
  by (simp add: show_ip_def)

lemma length_ip_octets [simp, byte_simps]: "length (ip_octets ip) = 4"
  by (simp add: ip_octets_def)

lemma ip_new_octets [simp]:
  "ip_new (ip_octets ip ! 0) (ip_octets ip ! 1) (ip_octets ip ! 2) (ip_octets ip ! 3) = ip"
  by (simp add: ip_new_def ip_octets_def be32_bytes_def)

lemma ip_octets_inj: "ip_octets a = ip_octets b \<Longrightarrow> a = b"
  by (metis ip_new_octets)

lemmas trim_eval = trim_def trim_end_def ascii_white_def white2_def white3_def byte_of_def

end
