(* ===== verification/Rpc_Protocol.thy ===== *)
theory Rpc_Protocol
  imports Json_Value Rust_Strings
begin

text \<open>
  The JSON-RPC envelope of \<open>crates/k8netd-rpc/src/protocol.rs\<close>: requests with the version
  guard, typed errors with their wire codes, and responses. The derived deserializer of the raw
  request is generated code: it is the function \<open>raw_of_text\<close>, an argument of \<open>request_parse\<close>.
  The responses' field attributes (skip when absent, keep an explicit \<open>null\<close>) are written out
  over the JSON operations.
\<close>

section \<open>Errors\<close>

datatype rpc_error =
    ParseError
  | InvalidRequest
  | MethodNotFound
  | InvalidParams
  | NotFound
  | AlreadyExists
  | Conflict
  | Internal

fun rpc_code :: "rpc_error \<Rightarrow> string" where
  "rpc_code ParseError = ''parse_error''"
| "rpc_code InvalidRequest = ''invalid_request''"
| "rpc_code MethodNotFound = ''method_not_found''"
| "rpc_code InvalidParams = ''invalid_params''"
| "rpc_code NotFound = ''not_found''"
| "rpc_code AlreadyExists = ''already_exists''"
| "rpc_code Conflict = ''conflict''"
| "rpc_code Internal = ''internal''"

fun rpc_message :: "rpc_error \<Rightarrow> string" where
  "rpc_message ParseError = ''invalid JSON payload''"
| "rpc_message InvalidRequest = ''request is not a valid JSON-RPC request''"
| "rpc_message MethodNotFound = ''unknown method''"
| "rpc_message InvalidParams = ''invalid parameters''"
| "rpc_message NotFound = ''object not found''"
| "rpc_message AlreadyExists = ''object already exists''"
| "rpc_message Conflict = ''object exists with conflicting parameters''"
| "rpc_message Internal = ''internal server error''"

definition rpc_from_code :: "string \<Rightarrow> rpc_error option" where
  "rpc_from_code code =
     (if code = ''parse_error'' then Some ParseError
      else if code = ''invalid_request'' then Some InvalidRequest
      else if code = ''method_not_found'' then Some MethodNotFound
      else if code = ''invalid_params'' then Some InvalidParams
      else if code = ''not_found'' then Some NotFound
      else if code = ''already_exists'' then Some AlreadyExists
      else if code = ''conflict'' then Some Conflict
      else if code = ''internal'' then Some Internal
      else None)"

definition rpc_error_to_value :: "'v json_api \<Rightarrow> rpc_error \<Rightarrow> 'v" where
  "rpc_error_to_value J e =
     jn_object J [(''code'', jn_string J (rpc_code e)), (''message'', jn_string J (rpc_message e))]"

definition rpc_error_of_value :: "'v json_api \<Rightarrow> 'v \<Rightarrow> rpc_error option" where
  "rpc_error_of_value J v =
     Option.bind (Option.bind (jn_get J v ''code'') (jn_as_str J)) rpc_from_code"

section \<open>Requests\<close>

definition PROTOCOL_VERSION :: string where
  "PROTOCOL_VERSION = ''1.0''"

record 'v request =
  rq_jsonrpc :: string
  rq_version :: string
  rq_method :: string
  rq_params :: "'v option"
  rq_id :: 'v

definition request_new :: "string \<Rightarrow> 'v option \<Rightarrow> 'v \<Rightarrow> 'v request" where
  "request_new method params i =
     \<lparr>rq_jsonrpc = ''2.0'', rq_version = PROTOCOL_VERSION, rq_method = method, rq_params = params, rq_id = i\<rparr>"

text \<open>The inner struct \<open>Raw\<close>: every field optional.\<close>

record 'v raw_request =
  raw_jsonrpc :: "string option"
  raw_version :: "string option"
  raw_method :: "string option"
  raw_params :: "'v option"
  raw_id :: "'v option"

definition request_parse :: "(string \<Rightarrow> 'v raw_request option) \<Rightarrow> string \<Rightarrow> (rpc_error, 'v request) result" where
  "request_parse raw_of_text input =
     (case raw_of_text input of
        None \<Rightarrow> Inl ParseError
      | Some raw \<Rightarrow>
          if raw_jsonrpc raw \<noteq> Some ''2.0'' then Inl InvalidRequest
          else case raw_version raw of
            None \<Rightarrow> Inl InvalidRequest
          | Some version \<Rightarrow>
              if version \<noteq> PROTOCOL_VERSION then Inl InvalidParams
              else case raw_method raw of
                None \<Rightarrow> Inl InvalidRequest
              | Some method \<Rightarrow>
                  (case raw_id raw of
                     None \<Rightarrow> Inl InvalidRequest
                   | Some i \<Rightarrow> Inr \<lparr>rq_jsonrpc = ''2.0'', rq_version = version, rq_method = method,
                       rq_params = raw_params raw, rq_id = i\<rparr>))"

section \<open>Responses\<close>

record 'v response =
  rs_jsonrpc :: string
  rs_result :: "'v option"
  rs_error :: "rpc_error option"
  rs_id :: 'v

definition response_ok :: "'v \<Rightarrow> 'v \<Rightarrow> 'v response" where
  "response_ok i v = \<lparr>rs_jsonrpc = ''2.0'', rs_result = Some v, rs_error = None, rs_id = i\<rparr>"

definition response_err :: "'v \<Rightarrow> rpc_error \<Rightarrow> 'v response" where
  "response_err i e = \<lparr>rs_jsonrpc = ''2.0'', rs_result = None, rs_error = Some e, rs_id = i\<rparr>"

definition response_to_value :: "'v json_api \<Rightarrow> 'v response \<Rightarrow> 'v" where
  "response_to_value J r =
     jn_object J
       ([(''jsonrpc'', jn_string J (rs_jsonrpc r))]
        @ (case rs_result r of None \<Rightarrow> [] | Some v \<Rightarrow> [(''result'', v)])
        @ (case rs_error r of None \<Rightarrow> [] | Some e \<Rightarrow> [(''error'', rpc_error_to_value J e)])
        @ [(''id'', rs_id r)])"

text \<open>A present \<open>result\<close> is kept even when it is \<open>null\<close>; a \<open>null\<close> error is none.\<close>

definition response_of_value :: "'v json_api \<Rightarrow> 'v \<Rightarrow> 'v response option" where
  "response_of_value J v =
     (case Option.bind (jn_get J v ''jsonrpc'') (jn_as_str J) of
        None \<Rightarrow> None
      | Some jsonrpc \<Rightarrow>
     (case jn_get J v ''id'' of
        None \<Rightarrow> None
      | Some i \<Rightarrow>
     (case jn_get J v ''error'' of
        None \<Rightarrow> Some \<lparr>rs_jsonrpc = jsonrpc, rs_result = jn_get J v ''result'', rs_error = None, rs_id = i\<rparr>
      | Some ev \<Rightarrow>
          if ev = jn_null J
          then Some \<lparr>rs_jsonrpc = jsonrpc, rs_result = jn_get J v ''result'', rs_error = None, rs_id = i\<rparr>
          else map_option
            (\<lambda>e. \<lparr>rs_jsonrpc = jsonrpc, rs_result = jn_get J v ''result'', rs_error = Some e, rs_id = i\<rparr>)
            (rpc_error_of_value J ev))))"

section \<open>Properties\<close>

lemma rpc_from_code_code [simp]: "rpc_from_code (rpc_code e) = Some e"
  by (cases e) (simp_all add: rpc_from_code_def)

lemma rpc_error_value:
  assumes "json_ok J"
  shows "rpc_error_of_value J (rpc_error_to_value J e) = Some e" "rpc_error_to_value J e \<noteq> jn_null J"
proof -
  show "rpc_error_of_value J (rpc_error_to_value J e) = Some e"
    by (simp add: rpc_error_of_value_def rpc_error_to_value_def json_okD [OF assms])
  have "jn_get J (rpc_error_to_value J e) ''code'' \<noteq> None"
    by (simp add: rpc_error_to_value_def json_okD [OF assms])
  then show "rpc_error_to_value J e \<noteq> jn_null J" using json_okD(4) [OF assms] by metis
qed

lemma response_value_inverse:
  assumes "json_ok J"
  shows "response_of_value J (response_to_value J r) = Some r"
  using rpc_error_value [OF assms]
  by (cases r) (simp add: response_of_value_def response_to_value_def json_okD [OF assms] split: option.splits)

text \<open>
  Wire round trip of the envelope. Every response, with a result (an explicit \<open>null\<close> included)
  or with any of the typed errors, is read back exactly from the value it serializes to; error
  codes are pairwise distinct and every error carries a message.
\<close>

lemma response_roundtrip:
  assumes "json_ok J"
  shows "response_of_value J (response_to_value J r) = Some r
    \<and> rpc_error_of_value J (rpc_error_to_value J e) = Some e \<and> rpc_message e \<noteq> []"
proof -
  have "response_of_value J (response_to_value J r) = Some r" using assms by (rule response_value_inverse)
  moreover have "rpc_message e \<noteq> []" by (cases e) simp_all
  ultimately show ?thesis using rpc_error_value(1) [OF assms] by blast
qed

text \<open>Which requests are accepted, and how the others are classified.\<close>

lemma request_parse_Inr:
  "request_parse raw_of_text input = Inr req \<longleftrightarrow>
     (\<exists>raw m i. raw_of_text input = Some raw \<and> raw_jsonrpc raw = Some ''2.0'' \<and> raw_version raw = Some ''1.0''
        \<and> raw_method raw = Some m \<and> raw_id raw = Some i \<and> req = request_new m (raw_params raw) i)"
  by (auto simp: request_parse_def request_new_def PROTOCOL_VERSION_def split: option.splits)

lemma request_parse_Inl:
  "request_parse raw_of_text input = Inl e \<Longrightarrow> e \<in> {ParseError, InvalidRequest, InvalidParams}
     \<and> (e = ParseError \<longleftrightarrow> raw_of_text input = None)"
  by (auto simp: request_parse_def split: option.splits if_splits)

end
