(* ===== verification/Net_Model.thy ===== *)
theory Net_Model
  imports Rust_Strings
begin

text \<open>
  The domain model of \<open>crates/k8netd-core/src/model.rs\<close>: CIDR blocks, allocation pools,
  networks, MAC addresses, ports, the allocation and lease records and the publish table with
  its host-port allocator. Constructors that validate return a sum, \<open>Inl\<close> with the
  source's \<open>ModelError\<close>. The lemmas show that parsing inverts printing, that a network's pool
  lies inside its CIDR and never holds the gateway, and that the publish table hands every
  host port out at most once.

  The locale \<open>lowest_free_allocator\<close> is the contract that the two allocators of the program
  share (the publish table here, IPAM in its own theory): a key that is bound keeps its value,
  a new key gets the least free value of the pool, and exhaustion changes nothing.
\<close>

section \<open>Errors\<close>

datatype model_error =
    EmptyName
  | InvalidCidr string
  | InvalidGateway string
  | InvalidPool string
  | InvalidMac string

fun show_model_error :: "model_error \<Rightarrow> string" where
  "show_model_error EmptyName = ''name must not be empty or whitespace''"
| "show_model_error (InvalidCidr s) = ''invalid IPv4 CIDR: '' @ s"
| "show_model_error (InvalidGateway s) = ''invalid gateway address: '' @ s"
| "show_model_error (InvalidPool s) = ''invalid IP pool: '' @ s"
| "show_model_error (InvalidMac s) = ''invalid MAC address: '' @ s"

section \<open>CIDR blocks, pools and networks\<close>

record ipv4_cidr =
  cidr_addr :: ipv4
  cidr_prefix :: u8

text \<open>
  \<open>u32::MAX << (32 - self.prefix)\<close>: the subtraction wraps at eight bits and the shift amount
  is taken modulo 32, which only matters for prefixes above 32.
\<close>

definition cidr_mask :: "ipv4_cidr \<Rightarrow> u32" where
  "cidr_mask c =
     (if cidr_prefix c = 0 then 0 else push_bit (unat ((32 - cidr_prefix c) AND 31)) (- 1))"

definition cidr_netmask :: "ipv4_cidr \<Rightarrow> ipv4" where
  "cidr_netmask c = cidr_mask c"

definition parse_cidr :: "string \<Rightarrow> (model_error, ipv4_cidr) result" where
  "parse_cidr s =
     (case split_once (CHR ''/'') s of
        None \<Rightarrow> Inl (InvalidCidr s)
      | Some (addr_str, prefix_str) \<Rightarrow>
     (case parse_ip addr_str of
        None \<Rightarrow> Inl (InvalidCidr s)
      | Some addr \<Rightarrow>
     (case parse_u8 prefix_str of
        None \<Rightarrow> Inl (InvalidCidr s)
      | Some prefix \<Rightarrow>
          if 32 < prefix then Inl (InvalidCidr s)
          else let cidr = \<lparr>cidr_addr = addr, cidr_prefix = prefix\<rparr> in
            if addr AND cidr_mask cidr \<noteq> addr then Inl (InvalidCidr s) else Inr cidr)))"

definition show_cidr :: "ipv4_cidr \<Rightarrow> string" where
  "show_cidr c = show_ip (cidr_addr c) @ ''/'' @ show_octet (cidr_prefix c)"

record ip_pool =
  pool_start :: ipv4
  pool_end :: ipv4

definition ip_pool_new :: "ipv4 \<Rightarrow> ipv4 \<Rightarrow> (model_error, ip_pool) result" where
  "ip_pool_new start fin =
     (if start > fin
      then Inl (InvalidPool (''start '' @ show_ip start @ '' is after end '' @ show_ip fin))
      else Inr \<lparr>pool_start = start, pool_end = fin\<rparr>)"

record network =
  net_name :: string
  net_cidr :: ipv4_cidr
  net_gateway :: ipv4
  net_pool :: ip_pool

definition network_new :: "string \<Rightarrow> string \<Rightarrow> string \<Rightarrow> ip_pool \<Rightarrow> (model_error, network) result" where
  "network_new nm cidr_str gw_str pool =
     (if trim nm = [] then Inl EmptyName
      else case parse_cidr cidr_str of
        Inl e \<Rightarrow> Inl e
      | Inr cidr \<Rightarrow>
     (case parse_ip gw_str of
        None \<Rightarrow> Inl (InvalidGateway gw_str)
      | Some gateway \<Rightarrow>
          if gateway AND cidr_mask cidr \<noteq> cidr_addr cidr
          then Inl (InvalidGateway (show_ip gateway @ '' is outside '' @ show_cidr cidr))
          else if pool_start pool AND cidr_mask cidr \<noteq> cidr_addr cidr
            \<or> pool_end pool AND cidr_mask cidr \<noteq> cidr_addr cidr
          then Inl (InvalidPool (''pool '' @ show_ip (pool_start pool) @ ''-''
                 @ show_ip (pool_end pool) @ '' is outside '' @ show_cidr cidr))
          else if pool_start pool \<le> gateway \<and> gateway \<le> pool_end pool
          then Inl (InvalidPool (''pool '' @ show_ip (pool_start pool) @ ''-''
                 @ show_ip (pool_end pool) @ '' contains gateway '' @ show_ip gateway))
          else Inr \<lparr>net_name = nm, net_cidr = cidr, net_gateway = gateway, net_pool = pool\<rparr>))"

section \<open>MAC addresses\<close>

datatype mac_addr = MacAddr u8 u8 u8 u8 u8 u8

fun mac_octets :: "mac_addr \<Rightarrow> bytes" where
  "mac_octets (MacAddr a b c d e f) = [a, b, c, d, e, f]"

text \<open>\<open>MacAddr::from_bytes\<close>; the array type \<open>[u8; 6]\<close> makes other lengths impossible.\<close>

fun mac_from_bytes :: "bytes \<Rightarrow> mac_addr option" where
  "mac_from_bytes [a, b, c, d, e, f] = Some (MacAddr a b c d e f)"
| "mac_from_bytes _ = None"

fun parse_mac_parts :: "string list \<Rightarrow> bytes option" where
  "parse_mac_parts [] = Some []"
| "parse_mac_parts (part # parts) =
     (if length part \<noteq> 2 then None
      else case parse_u8_hex part of
        None \<Rightarrow> None
      | Some b \<Rightarrow> map_option (Cons b) (parse_mac_parts parts))"

definition parse_mac :: "string \<Rightarrow> (model_error, mac_addr) result" where
  "parse_mac s =
     (let parts = split_on (CHR '':'') s in
      if length parts \<noteq> 6 then Inl (InvalidMac s)
      else case parse_mac_parts parts of
        None \<Rightarrow> Inl (InvalidMac s)
      | Some octets \<Rightarrow> ok_or (InvalidMac s) (mac_from_bytes octets))"

fun show_mac :: "mac_addr \<Rightarrow> string" where
  "show_mac (MacAddr a b c d e f) =
     hex2 a @ '':'' @ hex2 b @ '':'' @ hex2 c @ '':'' @ hex2 d @ '':'' @ hex2 e @ '':'' @ hex2 f"

section \<open>Ports and records\<close>

record port =
  port_name :: string
  port_socket_path :: string
  port_network :: "string option"
  port_mac :: "mac_addr option"
  port_ip :: "ipv4 option"

definition port_new :: "string \<Rightarrow> string \<Rightarrow> (model_error, port) result" where
  "port_new nm path =
     (if trim nm = [] then Inl EmptyName
      else Inr \<lparr>port_name = nm, port_socket_path = path, port_network = None, port_mac = None,
                port_ip = None\<rparr>)"

definition port_attach :: "port \<Rightarrow> string \<Rightarrow> mac_addr \<Rightarrow> ipv4 \<Rightarrow> port" where
  "port_attach p net mac ip =
     p\<lparr>port_network := Some net, port_mac := Some mac, port_ip := Some ip\<rparr>"

definition port_detach :: "port \<Rightarrow> port" where
  "port_detach p = p\<lparr>port_network := None, port_mac := None, port_ip := None\<rparr>"

record allocation =
  alloc_network :: string
  alloc_mac :: mac_addr
  alloc_ip :: ipv4

record dhcp_lease =
  lease_mac :: mac_addr
  lease_ip :: ipv4
  lease_seconds :: u64

section \<open>The publish table\<close>

record publish_table =
  pt_entries :: "(string, (u16, u16) btree_map) btree_map"

definition pt_default :: publish_table where
  "pt_default = \<lparr>pt_entries = []\<rparr>"

definition pt_get :: "publish_table \<Rightarrow> string \<Rightarrow> u16 \<Rightarrow> u16 option" where
  "pt_get t prt vm = (case map_of (pt_entries t) prt of None \<Rightarrow> None | Some m \<Rightarrow> map_of m vm)"

definition pt_remove_port :: "publish_table \<Rightarrow> string \<Rightarrow> publish_table \<times> bool" where
  "pt_remove_port t prt =
     (t\<lparr>pt_entries := bm_remove prt (pt_entries t)\<rparr>, map_of (pt_entries t) prt \<noteq> None)"

definition pt_remove :: "publish_table \<Rightarrow> string \<Rightarrow> u16 \<Rightarrow> publish_table \<times> u16 option" where
  "pt_remove t prt vm =
     (case map_of (pt_entries t) prt of
        None \<Rightarrow> (t, None)
      | Some m \<Rightarrow>
     (case map_of m vm of
        None \<Rightarrow> (t, None)
      | Some host \<Rightarrow>
          let m' = bm_remove vm m in
          (if m' = [] then t\<lparr>pt_entries := bm_remove prt (pt_entries t)\<rparr>
           else t\<lparr>pt_entries := bm_insert prt m' (pt_entries t)\<rparr>, Some host)))"

definition pt_used :: "publish_table \<Rightarrow> u16 list" where
  "pt_used t = concat (map (\<lambda>(_, m). map snd m) (pt_entries t))"

definition pt_allocate :: "publish_table \<Rightarrow> string \<Rightarrow> u16 \<Rightarrow> u16 \<times> u16 \<Rightarrow> publish_table \<times> u16 option" where
  "pt_allocate t prt vm rng =
     (case pt_get t prt vm of
        Some host \<Rightarrow> (t, Some host)
      | None \<Rightarrow>
     (case find_range (unat (fst rng)) (unat (snd rng)) (\<lambda>p. of_nat p \<notin> set (pt_used t)) of
        None \<Rightarrow> (t, None)
      | Some p \<Rightarrow>
          let host = of_nat p;
              m = (case map_of (pt_entries t) prt of None \<Rightarrow> [] | Some m \<Rightarrow> m)
          in (t\<lparr>pt_entries := bm_insert prt (bm_insert vm host m) (pt_entries t)\<rparr>, Some host)))"

text \<open>The aggregate record of the model and its default.\<close>

record model_state =
  ms_networks :: "(string, network) hash_map"
  ms_ports :: "(string, port) hash_map"
  ms_allocations :: "allocation list"
  ms_leases :: "dhcp_lease list"
  ms_publish_table :: publish_table

definition model_state_default :: model_state where
  "model_state_default =
     \<lparr>ms_networks = [], ms_ports = [], ms_allocations = [], ms_leases = [],
      ms_publish_table = pt_default\<rparr>"

section \<open>Well-formedness\<close>

text \<open>What \<open>parse_cidr\<close> establishes of a CIDR block and \<open>network_new\<close> of a network.\<close>

definition cidr_ok :: "ipv4_cidr \<Rightarrow> bool" where
  "cidr_ok c = (cidr_prefix c \<le> 32 \<and> cidr_addr c AND cidr_mask c = cidr_addr c)"

definition in_cidr :: "ipv4_cidr \<Rightarrow> ipv4 \<Rightarrow> bool" where
  "in_cidr c ip = (ip AND cidr_mask c = cidr_addr c)"

definition in_pool :: "ip_pool \<Rightarrow> ipv4 \<Rightarrow> bool" where
  "in_pool p ip = (pool_start p \<le> ip \<and> ip \<le> pool_end p)"

definition network_ok :: "network \<Rightarrow> bool" where
  "network_ok n =
     (trim (net_name n) \<noteq> [] \<and> cidr_ok (net_cidr n) \<and> in_cidr (net_cidr n) (net_gateway n)
      \<and> in_cidr (net_cidr n) (pool_start (net_pool n)) \<and> in_cidr (net_cidr n) (pool_end (net_pool n))
      \<and> \<not> in_pool (net_pool n) (net_gateway n))"

text \<open>The table's nested maps are sorted and no port is kept with an empty entry.\<close>

definition pt_wf :: "publish_table \<Rightarrow> bool" where
  "pt_wf t = (bm_wf (pt_entries t) \<and> (\<forall>m \<in> snd ` set (pt_entries t). bm_wf m \<and> m \<noteq> []))"

text \<open>Every host port belongs to at most one \<open>(port, vm_port)\<close> pair.\<close>

definition pt_inj :: "publish_table \<Rightarrow> bool" where
  "pt_inj t = (\<forall>p v p' v' h. pt_get t p v = Some h \<longrightarrow> pt_get t p' v' = Some h \<longrightarrow> p = p' \<and> v = v')"

section \<open>CIDR masks\<close>

lemma unat_u32_less: "unat (x :: u32) < 4294967296"
  using unsigned_less [of x] by simp

lemma unat_u16_less: "unat (x :: u16) < 65536"
  using unsigned_less [of x] by simp

lemma unat_and_31: "unat ((x :: u8) AND 31) = unat x mod 32"
proof -
  have "x AND 31 = take_bit 5 x" by (simp add: take_bit_eq_mask mask_eq_exp_minus_1)
  then show ?thesis by (simp add: take_bit_eq_mod unat_mod_distrib)
qed

lemma cidr_mask_shift:
  assumes "cidr_prefix c \<le> 32"
  shows "cidr_mask c = push_bit (32 - unat (cidr_prefix c)) (- 1)"
proof (cases "cidr_prefix c = 0")
  case True
  have "push_bit 32 (- 1 :: u32) = 0" by (rule bit_word_eqI) (simp add: bit_simps)
  with True show ?thesis by (simp add: cidr_mask_def)
next
  case False
  have le: "unat (cidr_prefix c) \<le> 32" using assms by (simp add: word_le_nat_alt)
  have "unat (cidr_prefix c) \<noteq> 0" using False by (simp add: unat_eq_0)
  moreover have "unat (32 - cidr_prefix c) = 32 - unat (cidr_prefix c)"
    using assms by (simp add: unat_sub)
  ultimately show ?thesis using False le by (simp add: cidr_mask_def unat_and_31)
qed

lemma unat_and_mask:
  assumes "s \<le> 32"
  shows "unat ((x :: u32) AND push_bit s (- 1)) = unat x div 2 ^ s * 2 ^ s"
proof -
  have "x AND push_bit s (- 1) = push_bit s (drop_bit s x)"
    by (rule bit_word_eqI) (auto simp: bit_simps)
  moreover have "unat x div 2 ^ s * 2 ^ s < 2 ^ 32"
    using unsigned_less [of x] le_less_trans [OF div_times_less_eq_dividend [of "unat x" "2 ^ s"]] by simp
  moreover have "unat (push_bit s (drop_bit s x)) = take_bit 32 (push_bit s (drop_bit s (take_bit 32 (unat x))))"
    by (simp only: unsigned_push_bit_eq unsigned_drop_bit_eq len_num0 len_bit0 len_num1) simp
  moreover have "take_bit 32 (unat x) = unat x"
    using unat_u32_less [of x] by (simp add: take_bit_nat_eq_self)
  ultimately show ?thesis
    by (simp only: drop_bit_eq_div [of s "unat x"] push_bit_eq_mult [of s "unat x div 2 ^ s"]
        take_bit_nat_eq_self)
qed

text \<open>A CIDR block is convex: between two of its addresses lie only its addresses.\<close>

lemma in_cidr_between:
  assumes c: "cidr_prefix c \<le> 32" and a: "in_cidr c a" and b: "in_cidr c b"
    and ax: "a \<le> x" and xb: "x \<le> b"
  shows "in_cidr c x"
proof -
  define s where "s = 32 - unat (cidr_prefix c)"
  have s32: "s \<le> 32" by (simp add: s_def)
  have m: "cidr_mask c = push_bit s (- 1)" using cidr_mask_shift [OF c] by (simp add: s_def)
  have ea: "unat a div 2 ^ s * 2 ^ s = unat (cidr_addr c)"
    using a unat_and_mask [OF s32, of a] by (simp add: in_cidr_def m)
  have eb: "unat b div 2 ^ s * 2 ^ s = unat (cidr_addr c)"
    using b unat_and_mask [OF s32, of b] by (simp add: in_cidr_def m)
  have "unat a div 2 ^ s \<le> unat x div 2 ^ s" "unat x div 2 ^ s \<le> unat b div 2 ^ s"
    using ax xb by (simp_all add: div_le_mono word_le_nat_alt)
  moreover have "unat a div 2 ^ s = unat b div 2 ^ s" using ea eb by (metis mult_right_cancel power_not_zero zero_neq_numeral)
  ultimately have "unat (x AND push_bit s (- 1)) = unat (cidr_addr c)"
    using unat_and_mask [OF s32, of x] ea by simp
  then show ?thesis unfolding in_cidr_def m by (simp only: word_unat_eq_iff)
qed

lemma pool_in_cidr:
  assumes "network_ok n" "in_pool (net_pool n) ip"
  shows "in_cidr (net_cidr n) ip \<and> ip \<noteq> net_gateway n"
  using assms by (auto simp: network_ok_def cidr_ok_def in_pool_def
      intro: in_cidr_between [of _ "pool_start (net_pool n)" "pool_end (net_pool n)"])

lemma parse_cidr_ok: "parse_cidr s = Inr c \<Longrightarrow> cidr_ok c"
  by (auto simp: parse_cidr_def cidr_ok_def Let_def not_less split: option.splits if_splits)

lemma network_new_ok: "network_new nm cs gs pool = Inr n \<Longrightarrow> network_ok n \<and> net_name n = nm \<and> net_pool n = pool"
  by (auto simp: network_new_def network_ok_def in_cidr_def in_pool_def parse_cidr_ok
      split: option.splits sum.splits if_splits)

section \<open>Printing and parsing\<close>

lemma parse_show_cidr: "cidr_ok c \<Longrightarrow> parse_cidr (show_cidr c) = Inr c"
  by (cases c) (simp add: parse_cidr_def show_cidr_def split_once_append cidr_ok_def not_less)

lemma parse_show_mac [simp]: "parse_mac (show_mac m) = Inr m"
  by (cases m) (simp add: parse_mac_def split_on_append split_on_no_sep hex2_facts Let_def)

lemma show_mac_inj [simp]: "show_mac a = show_mac b \<longleftrightarrow> a = b"
  by (metis parse_show_mac sum.inject(2))

lemma length_mac_octets [simp, byte_simps]: "length (mac_octets m) = 6"
  by (cases m) simp

lemma mac_from_octets [simp]: "mac_from_bytes (mac_octets m) = Some m"
  by (cases m) simp

lemma mac_octets_inj [simp]: "mac_octets a = mac_octets b \<longleftrightarrow> a = b"
  by (metis mac_from_octets option.inject)

lemma mac_from_bytes_Some: "mac_from_bytes bs = Some m \<longleftrightarrow> bs = mac_octets m"
  by (cases m; induction bs rule: mac_from_bytes.induct) auto

section \<open>The contract of the allocators\<close>

locale lowest_free_allocator =
  fixes inv :: "'s \<Rightarrow> bool"
    and get :: "'s \<Rightarrow> 'k \<Rightarrow> 'v option"
    and alloc :: "'s \<Rightarrow> 'k \<Rightarrow> 's \<times> 'v option"
    and pool :: "'s \<Rightarrow> 'v set"
    and rank :: "'v \<Rightarrow> nat"
  assumes alloc_hit: "inv s \<Longrightarrow> get s k = Some v \<Longrightarrow> alloc s k = (s, Some v)"
    and alloc_new: "inv s \<Longrightarrow> get s k = None \<Longrightarrow> alloc s k = (s', Some v) \<Longrightarrow>
      inv s' \<and> pool s' = pool s \<and> get s' = (get s)(k \<mapsto> v) \<and> v \<in> pool s \<and> v \<notin> ran (get s)
      \<and> (\<forall>w \<in> pool s. rank w < rank v \<longrightarrow> w \<in> ran (get s))"
    and alloc_full: "inv s \<Longrightarrow> alloc s k = (s', None) \<Longrightarrow> s' = s \<and> pool s \<subseteq> ran (get s)"
begin

lemma alloc_inv: "inv s \<Longrightarrow> inv (fst (alloc s k)) \<and> pool (fst (alloc s k)) = pool s"
proof -
  assume i: "inv s"
  obtain s' r where a: "alloc s k = (s', r)" by (cases "alloc s k")
  show ?thesis
  proof (cases r)
    case None
    with alloc_full [OF i, of k s'] a show ?thesis using i by simp
  next
    case (Some v)
    show ?thesis
    proof (cases "get s k")
      case None
      with alloc_new [OF i _ a [unfolded Some]] a show ?thesis by simp
    next
      case (Some w)
      with alloc_hit [OF i Some] show ?thesis using i by simp
    qed
  qed
qed

lemma alloc_frame:
  assumes "inv s" "alloc s k = (s', Some v)"
  shows "get s' = (get s)(k \<mapsto> v)"
proof (cases "get s k")
  case None
  with alloc_new [OF assms(1) None assms(2)] show ?thesis by simp
next
  case (Some w)
  with alloc_hit [OF assms(1) Some] assms(2) show ?thesis by (simp add: fun_upd_idem)
qed

lemma alloc_idem:
  assumes "inv s" "alloc s k = (s', Some v)"
  shows "alloc s' k = (s', Some v)"
proof -
  have "inv s'" using alloc_inv [OF assms(1), of k] assms(2) by simp
  moreover have "get s' k = Some v" using alloc_frame [OF assms] by simp
  ultimately show ?thesis by (rule alloc_hit)
qed

lemma alloc_inj:
  assumes "inv s" "inj_on (get s) (dom (get s))" "alloc s k = (s', Some v)"
  shows "inj_on (get s') (dom (get s'))"
proof (cases "get s k")
  case None
  have "get s' = (get s)(k \<mapsto> v)" "v \<notin> ran (get s)" using alloc_new [OF assms(1) None assms(3)] by auto
  then show ?thesis using assms(2) by (auto simp: inj_on_def ran_def dom_def split: if_splits)
next
  case (Some w)
  with alloc_hit [OF assms(1) Some] assms(2,3) show ?thesis by simp
qed

lemma alloc_succeeds:
  assumes "inv s" "finite (dom (get s))" "finite (pool s)" "card (dom (get s)) < card (pool s)"
  shows "\<exists>s' v. alloc s k = (s', Some v)"
proof (rule ccontr)
  assume n: "\<not> ?thesis"
  obtain s' r where a: "alloc s k = (s', r)" by (cases "alloc s k")
  with n have "alloc s k = (s', None)" by (cases r) auto
  then have "pool s \<subseteq> ran (get s)" using alloc_full [OF assms(1)] by blast
  moreover have r: "ran (get s) = (the \<circ> get s) ` dom (get s)"
    by (force simp: ran_def dom_def image_iff)
  ultimately have "card (pool s) \<le> card (dom (get s))"
    using surj_card_le [OF assms(2)] by simp
  with assms(4) show False by simp
qed

end

section \<open>The publish table is such an allocator\<close>

lemma pt_wf_inner: "pt_wf t \<Longrightarrow> map_of (pt_entries t) p = Some m \<Longrightarrow> bm_wf m \<and> m \<noteq> []"
  unfolding pt_wf_def by (metis imageI map_of_SomeD snd_conv)

lemma pt_used_iff:
  assumes "pt_wf t"
  shows "h \<in> set (pt_used t) \<longleftrightarrow> (\<exists>p v. pt_get t p v = Some h)"
proof
  assume "h \<in> set (pt_used t)"
  then obtain p m v where pm: "(p, m) \<in> set (pt_entries t)" and vh: "(v, h) \<in> set m"
    by (auto simp: pt_used_def)
  have m: "map_of (pt_entries t) p = Some m" using pm assms by (simp add: pt_wf_def bm_mem_iff)
  then have "map_of m v = Some h" using vh pt_wf_inner [OF assms] by (simp add: bm_mem_iff)
  then have "pt_get t p v = Some h" using m by (simp add: pt_get_def)
  then show "\<exists>p v. pt_get t p v = Some h" by blast
next
  assume "\<exists>p v. pt_get t p v = Some h"
  then obtain p v m where "map_of (pt_entries t) p = Some m" "map_of m v = Some h"
    by (auto simp: pt_get_def split: option.splits)
  then have "(p, m) \<in> set (pt_entries t)" "(v, h) \<in> set m" by (simp_all add: map_of_SomeD)
  then have "h \<in> set (map snd m)" "map snd m \<in> set (map (\<lambda>(_, m). map snd m) (pt_entries t))"
    by (auto simp: image_iff intro: bexI [of _ "(v, h)"] bexI [of _ "(p, m)"])
  then show "h \<in> set (pt_used t)" unfolding pt_used_def set_concat by blast
qed

lemma pt_get_insert:
  assumes "pt_wf t"
  shows "pt_get (t\<lparr>pt_entries := bm_insert p m (pt_entries t)\<rparr>) q v
    = (if q = p then map_of m v else pt_get t q v)"
  using assms by (simp add: pt_get_def pt_wf_def)

lemma bm_set_insert: "set (bm_insert k v m) \<subseteq> insert (k, v) (set m)"
  by (induction k v m rule: bm_insert.induct) auto

lemma bm_set_remove: "set (bm_remove k m) \<subseteq> set m"
  by (induction k m rule: bm_remove.induct) auto

lemma bm_insert_nonempty [simp]: "bm_insert k v m \<noteq> []"
  by (cases "(k, v, m)" rule: bm_insert.cases) auto

lemma pt_wf_insert:
  "pt_wf t \<Longrightarrow> bm_wf m \<Longrightarrow> m \<noteq> [] \<Longrightarrow> pt_wf (t\<lparr>pt_entries := bm_insert p m (pt_entries t)\<rparr>)"
  using bm_set_insert [of p m "pt_entries t"] by (fastforce simp: pt_wf_def)

lemma pt_wf_drop: "pt_wf t \<Longrightarrow> pt_wf (t\<lparr>pt_entries := bm_remove p (pt_entries t)\<rparr>)"
  using bm_set_remove [of p "pt_entries t"] by (fastforce simp: pt_wf_def)

lemma pt_default_wf [simp]: "pt_wf pt_default" "pt_get pt_default p v = None"
  by (simp_all add: pt_default_def pt_wf_def pt_get_def)

lemma pt_allocate_hit: "pt_get t p v = Some h \<Longrightarrow> pt_allocate t p v rng = (t, Some h)"
  by (simp add: pt_allocate_def)

lemma pt_allocate_new:
  assumes wf: "pt_wf t" and none: "pt_get t p v = None" and a: "pt_allocate t p v rng = (t', Some h)"
  shows "pt_wf t' \<and> (\<forall>q w. pt_get t' q w = (if q = p \<and> w = v then Some h else pt_get t q w))
    \<and> fst rng \<le> h \<and> h \<le> snd rng \<and> (\<forall>q w. pt_get t q w \<noteq> Some h)
    \<and> (\<forall>k. fst rng \<le> k \<longrightarrow> k < h \<longrightarrow> (\<exists>q w. pt_get t q w = Some k))"
proof -
  define m where "m = (case map_of (pt_entries t) p of None \<Rightarrow> [] | Some m \<Rightarrow> m)"
  obtain n where n: "find_range (unat (fst rng)) (unat (snd rng)) (\<lambda>p. of_nat p \<notin> set (pt_used t)) = Some n"
    and h: "h = of_nat n" and t': "t' = t\<lparr>pt_entries := bm_insert p (bm_insert v h m) (pt_entries t)\<rparr>"
    using a none by (auto simp: pt_allocate_def m_def Let_def split: option.splits)
  have nb: "unat (fst rng) \<le> n" "n \<le> unat (snd rng)" "of_nat n \<notin> set (pt_used t)"
    and least: "\<And>k. unat (fst rng) \<le> k \<Longrightarrow> k < n \<Longrightarrow> of_nat k \<in> set (pt_used t)"
    using n by (auto simp: find_range_Some)
  have n16: "n < 65536" using nb(2) unat_u16_less [of "snd rng"] by simp
  then have uh: "unat h = n" using h by (simp add: unsigned_of_nat take_bit_nat_eq_self)
  have mwf: "bm_wf m" using pt_wf_inner [OF wf] by (auto simp: m_def split: option.splits)
  have "map_of m w = pt_get t p w" for w by (simp add: m_def pt_get_def split: option.splits)
  then have "pt_get t' q w = (if q = p \<and> w = v then Some h else pt_get t q w)" for q w
    using pt_get_insert [OF wf] by (simp add: t')
  moreover have "pt_wf t'" unfolding t' by (rule pt_wf_insert [OF wf]) (use mwf in auto)
  moreover have "pt_get t q w \<noteq> Some h" for q w using nb(3) h pt_used_iff [OF wf] by metis
  moreover have "\<exists>q w. pt_get t q w = Some k" if "fst rng \<le> k" "k < h" for k
    using least [of "unat k"] that uh pt_used_iff [OF wf] by (simp add: word_le_nat_alt word_less_nat_alt)
  ultimately show ?thesis using nb uh by (simp add: word_le_nat_alt)
qed

lemma pt_allocate_full:
  assumes wf: "pt_wf t" and a: "pt_allocate t p v rng = (t', None)"
  shows "t' = t \<and> (\<forall>k. fst rng \<le> k \<longrightarrow> k \<le> snd rng \<longrightarrow> (\<exists>q w. pt_get t q w = Some k))"
proof -
  have f: "find_range (unat (fst rng)) (unat (snd rng)) (\<lambda>p. of_nat p \<notin> set (pt_used t)) = None"
    and t': "t' = t" using a by (auto simp: pt_allocate_def Let_def split: option.splits)
  have "\<exists>q w. pt_get t q w = Some k" if "fst rng \<le> k" "k \<le> snd rng" for k
    using f [unfolded find_range_None, rule_format, of "unat k"] that pt_used_iff [OF wf]
    by (simp add: word_le_nat_alt)
  then show ?thesis using t' by simp
qed

definition pt_key_get :: "publish_table \<Rightarrow> string \<times> u16 \<Rightarrow> u16 option" where
  "pt_key_get t k = pt_get t (fst k) (snd k)"

definition pt_key_alloc :: "u16 \<times> u16 \<Rightarrow> publish_table \<Rightarrow> string \<times> u16 \<Rightarrow> publish_table \<times> u16 option" where
  "pt_key_alloc rng t k = pt_allocate t (fst k) (snd k) rng"

lemma ran_pt_key_get: "h \<in> ran (pt_key_get t) \<longleftrightarrow> (\<exists>p v. pt_get t p v = Some h)"
  by (auto simp: ran_def pt_key_get_def)

interpretation pta: lowest_free_allocator pt_wf pt_key_get "pt_key_alloc rng"
  "\<lambda>_. {h. fst rng \<le> h \<and> h \<le> snd rng}" unat for rng
proof (unfold_locales, goal_cases)
  case (1 s k v)
  then show ?case by (simp add: pt_key_get_def pt_key_alloc_def pt_allocate_hit)
next
  case (2 s k s' v)
  then have "pt_get s (fst k) (snd k) = None" "pt_allocate s (fst k) (snd k) rng = (s', Some v)"
    by (simp_all add: pt_key_get_def pt_key_alloc_def)
  note n = pt_allocate_new [OF 2(1) this]
  have "pt_key_get s' = (pt_key_get s)(k \<mapsto> v)"
    using n by (auto simp: fun_eq_iff pt_key_get_def)
  with n show ?case by (simp add: ran_pt_key_get word_less_nat_alt)
next
  case (3 s k s')
  then have "pt_allocate s (fst k) (snd k) rng = (s', None)" by (simp add: pt_key_alloc_def)
  from pt_allocate_full [OF 3(1) this] show ?case by (auto simp: ran_pt_key_get)
qed

lemma pt_inj_iff: "pt_inj t \<longleftrightarrow> inj_on (pt_key_get t) (dom (pt_key_get t))"
  unfolding pt_inj_def inj_on_def dom_def pt_key_get_def by (auto, metis+)

lemma pt_allocate_inv:
  assumes "pt_wf t" "pt_inj t"
  shows "pt_wf (fst (pt_allocate t p v rng)) \<and> pt_inj (fst (pt_allocate t p v rng))"
proof -
  obtain t' r where a: "pt_key_alloc rng t (p, v) = (t', r)" by (cases "pt_key_alloc rng t (p, v)")
  have "pt_inj t'"
  proof (cases r)
    case None
    then show ?thesis using pta.alloc_full [OF assms(1), of rng "(p, v)" t'] a assms(2) by simp
  next
    case (Some h)
    then show ?thesis using pta.alloc_inj [OF assms(1) _ a [unfolded Some]] assms(2) by (simp add: pt_inj_iff)
  qed
  then show ?thesis using pta.alloc_inv [OF assms(1), of rng "(p, v)"] a by (simp add: pt_key_alloc_def)
qed

lemma pt_remove_port_spec:
  assumes "pt_wf t"
  shows "pt_get (fst (pt_remove_port t p)) q v = (if q = p then None else pt_get t q v)"
    and "pt_wf (fst (pt_remove_port t p))"
  using assms pt_wf_drop [OF assms, of p] by (simp_all add: pt_remove_port_def pt_get_def pt_wf_def)

lemma pt_remove_spec:
  assumes wf: "pt_wf t"
  shows "pt_get (fst (pt_remove t p v)) q w = (if q = p \<and> w = v then None else pt_get t q w)"
    and "pt_wf (fst (pt_remove t p v))"
    and "snd (pt_remove t p v) = pt_get t p v"
proof -
  show "snd (pt_remove t p v) = pt_get t p v"
    by (simp add: pt_remove_def pt_get_def Let_def split: option.splits)
  show "pt_wf (fst (pt_remove t p v))"
    using pt_wf_drop [OF wf, of p] pt_wf_insert [OF wf] wf
    by (auto simp: pt_remove_def Let_def dest: pt_wf_inner split: option.splits)
  show "pt_get (fst (pt_remove t p v)) q w = (if q = p \<and> w = v then None else pt_get t q w)"
  proof (cases "\<exists>m. map_of (pt_entries t) p = Some m \<and> map_of m v \<noteq> None")
    case False
    then show ?thesis by (auto simp: pt_remove_def pt_get_def split: option.splits)
  next
    case True
    then obtain m h where m: "map_of (pt_entries t) p = Some m" "map_of m v = Some h" by auto
    have g: "map_of (bm_remove v m) = (map_of m)(v := None)"
      using pt_wf_inner [OF wf m(1)] by simp
    have ow: "bm_wf (pt_entries t)" using wf by (simp add: pt_wf_def)
    show ?thesis
    proof (cases "bm_remove v m = []")
      case True
      then have "\<forall>w. w \<noteq> v \<longrightarrow> map_of m w = None" using g by (auto simp: fun_eq_iff split: if_splits)
      then show ?thesis using m True ow by (auto simp: pt_remove_def pt_get_def Let_def)
    next
      case False
      then show ?thesis using m g ow by (auto simp: pt_remove_def pt_get_def Let_def)
    qed
  qed
qed

lemma pt_inj_subset:
  assumes "pt_inj t" "\<And>q w h. pt_get t' q w = Some h \<Longrightarrow> pt_get t q w = Some h"
  shows "pt_inj t'"
  using assms unfolding pt_inj_def by blast

lemma pt_remove_inv:
  assumes "pt_wf t" "pt_inj t"
  shows "pt_wf (fst (pt_remove t p v)) \<and> pt_inj (fst (pt_remove t p v))"
    and "pt_wf (fst (pt_remove_port t p)) \<and> pt_inj (fst (pt_remove_port t p))"
proof -
  show "pt_wf (fst (pt_remove t p v)) \<and> pt_inj (fst (pt_remove t p v))"
    using pt_remove_spec [OF assms(1), of p v]
    by (auto intro!: pt_inj_subset [OF assms(2)] split: if_splits)
  show "pt_wf (fst (pt_remove_port t p)) \<and> pt_inj (fst (pt_remove_port t p))"
    using pt_remove_port_spec [OF assms(1), of p]
    by (auto intro!: pt_inj_subset [OF assms(2)] split: if_splits)
qed

section \<open>Properties\<close>

text \<open>
  C39: A network that \<open>Network::new\<close> accepts is sound: its name is not blank, its address has no
  host bits, and every address between the pool bounds (not only the two bounds the code tests)
  lies inside the CIDR block and differs from the gateway.
\<close>

theorem network_new_sound:
  assumes "network_new nm cidr_str gw_str pool = Inr n"
  shows "net_name n = nm \<and> net_pool n = pool \<and> trim nm \<noteq> []
    \<and> cidr_prefix (net_cidr n) \<le> 32 \<and> cidr_addr (net_cidr n) AND cidr_mask (net_cidr n) = cidr_addr (net_cidr n)
    \<and> (\<forall>ip. pool_start pool \<le> ip \<and> ip \<le> pool_end pool \<longrightarrow>
         ip AND cidr_mask (net_cidr n) = cidr_addr (net_cidr n) \<and> ip \<noteq> net_gateway n)"
proof -
  have ok: "network_ok n" "net_name n = nm" "net_pool n = pool" using network_new_ok [OF assms] by auto
  then show ?thesis
    using pool_in_cidr [OF ok(1)] by (auto simp: network_ok_def cidr_ok_def in_pool_def in_cidr_def)
qed

text \<open>
  Text round trips of the address types: a MAC address parses back from its printed form, and
  so does a CIDR block that satisfies what the parser itself checks.
\<close>

lemma address_text_roundtrip:
  assumes "parse_cidr s = Inr c"
  shows "parse_cidr (show_cidr c) = Inr c \<and> parse_mac (show_mac m) = Inr m"
  using parse_show_cidr [OF parse_cidr_ok [OF assms]] by simp

text \<open>
  C26: The publish allocator. On a table in which no host port is shared, \<open>allocate\<close> keeps that
  property and every existing entry; a pair that is already published keeps its host port; a
  new pair gets the least host port of the range that no pair holds; and when it fails, the
  table is unchanged and every port of the range is taken.
\<close>

theorem publish_allocate_contract:
  assumes "pt_wf t" "pt_inj t" "pt_allocate t p v rng = (t', r)"
  shows "pt_wf t' \<and> pt_inj t'
    \<and> (case r of
         None \<Rightarrow> t' = t \<and> (\<forall>k. fst rng \<le> k \<and> k \<le> snd rng \<longrightarrow> (\<exists>q w. pt_get t q w = Some k))
       | Some h \<Rightarrow>
           (\<forall>q w. pt_get t' q w = (if q = p \<and> w = v then Some h else pt_get t q w))
           \<and> (pt_get t p v = None \<longrightarrow> fst rng \<le> h \<and> h \<le> snd rng
               \<and> (\<forall>k. fst rng \<le> k \<and> k < h \<longrightarrow> (\<exists>q w. pt_get t q w = Some k)))
           \<and> (\<forall>h'. pt_get t p v = Some h' \<longrightarrow> h = h' \<and> t' = t))"
proof -
  have inv: "pt_wf t' \<and> pt_inj t'" using pt_allocate_inv [OF assms(1,2), of p v rng] assms(3) by simp
  show ?thesis
  proof (cases r)
    case None
    then show ?thesis using inv pt_allocate_full [OF assms(1)] assms(3) by simp
  next
    case (Some h)
    show ?thesis
    proof (cases "pt_get t p v")
      case None
      then show ?thesis
        using inv Some pt_allocate_new [OF assms(1) None assms(3) [unfolded Some]] by simp
    next
      case (Some h')
      then show ?thesis using inv \<open>r = Some h\<close> assms(3) pt_allocate_hit [OF Some, of rng] by auto
    qed
  qed
qed

text \<open>Witnesses.\<close>

lemma cidr_mask_24: "cidr_mask \<lparr>cidr_addr = a, cidr_prefix = 24\<rparr> = 0xFFFFFF00"
  by (simp add: cidr_mask_def mask_eq_exp_minus_1)

lemma lab_net_parses:
  "network_new ''lab'' (show_cidr \<lparr>cidr_addr = 0xC0A87C00, cidr_prefix = 24\<rparr>) (show_ip 0xC0A87C01)
     \<lparr>pool_start = 0xC0A87C0A, pool_end = 0xC0A87CC8\<rparr>
   = Inr \<lparr>net_name = ''lab'', net_cidr = \<lparr>cidr_addr = 0xC0A87C00, cidr_prefix = 24\<rparr>,
       net_gateway = 0xC0A87C01, net_pool = \<lparr>pool_start = 0xC0A87C0A, pool_end = 0xC0A87CC8\<rparr>\<rparr>"
proof -
  have p: "parse_cidr (show_cidr \<lparr>cidr_addr = 0xC0A87C00, cidr_prefix = 24\<rparr>)
      = Inr \<lparr>cidr_addr = 0xC0A87C00, cidr_prefix = 24\<rparr>"
    by (rule parse_show_cidr) (simp add: cidr_ok_def cidr_mask_24)
  show ?thesis
    unfolding network_new_def p by (simp add: trim_eval cidr_mask_24)
qed

theorem network_new_sound_witness:
  "(0xC0A87C64 :: ipv4) AND cidr_mask \<lparr>cidr_addr = 0xC0A87C00, cidr_prefix = 24\<rparr> = 0xC0A87C00"
  using network_new_sound [OF lab_net_parses] by simp

theorem publish_allocate_contract_witness:
  "snd (pt_allocate pt_default ''node-a'' 22 (20000, 29999)) = Some 20000"
proof -
  obtain t r where a: "pt_allocate pt_default ''node-a'' 22 (20000, 29999) = (t, r)" by fastforce
  have i: "pt_inj pt_default" by (simp add: pt_inj_def)
  note c = publish_allocate_contract [OF pt_default_wf(1) i a]
  have "r \<noteq> None"
  proof
    assume "r = None"
    with c have "\<forall>k :: u16. 20000 \<le> k \<and> k \<le> 29999 \<longrightarrow> (\<exists>q w. pt_get pt_default q w = Some k)" by simp
    then have "\<exists>q w. pt_get pt_default q w = Some 20000" by (rule allE [of _ 20000]) simp
    then show False by simp
  qed
  then obtain h where r: "r = Some h" by blast
  have b: "20000 \<le> h \<and> (\<forall>k. \<not> (20000 \<le> k \<and> k < h))" using c r by auto
  then have "\<not> 20000 < h" by blast
  then show ?thesis using b a r by simp
qed

end
