(* ===== verification/State_Store.thy ===== *)
theory State_Store
  imports Net_Model Json_Value
begin

text \<open>
  The persisted state of \<open>crates/k8netd-core/src/state.rs\<close>: the snapshot and its in-memory
  store, the version guard with the migration of version 1, and the save path (temporary file,
  sync, rename, directory sync) on a model of the file system. Every system call of the save
  path can fail; \<open>save_step\<close> is the same path as a step relation, in which the process may
  stop anywhere, also in the middle of the write. The two sync calls succeed or fail and have no
  effect on contents: what is shown of crashes is for a process that stops, on a file system that
  keeps what was written, not for a loss of power.

  The derived (de)serializers are generated code of the \<open>serde\<close> crates and enter as the record
  \<open>snap_codec\<close>; \<open>snap_codec_ok\<close> says what they document: a snapshot that was written is read
  back, and its \<open>version\<close> is a field of the written object.
\<close>

section \<open>Data\<close>

definition STATE_FORMAT_VERSION :: u32 where
  "STATE_FORMAT_VERSION = 2"

definition STATE_FILE_NAME :: string where
  "STATE_FILE_NAME = ''state.json''"

datatype state_error =
    MissingParent string
  | StateIo string string
  | VersionMismatch u32 u32
  | Corrupt string
  | StateNotFound string

fun show_state_error :: "state_error \<Rightarrow> string" where
  "show_state_error (MissingParent path) = ''missing parent directory for '' @ debug_str path"
| "show_state_error (StateIo source path) = ''io error: '' @ source"
| "show_state_error (VersionMismatch expected found) =
     ''invalid state format version: expected '' @ show_nat (unat expected) @ '', found '' @ show_nat (unat found)"
| "show_state_error (Corrupt source) = ''corrupt state file: '' @ source"
| "show_state_error (StateNotFound path) = ''state file not found: '' @ debug_str path"

record 'v network_state =
  nst_cidr :: string
  nst_gateway :: string
  nst_dns :: "string list"
  nst_mtu :: u16
  nst_params :: 'v
  nst_pool_start :: "string option"
  nst_pool_end :: "string option"

record ipam_snap =
  ips_free_ranges :: "string list"
  ips_allocations :: "(string, string) btree_map"

record port_state =
  pst_vm_ip :: "string option"
  pst_mac :: "string option"
  pst_ipam :: ipam_snap

record dhcp_lease_state =
  dls_chaddr :: string
  dls_ip_address :: string
  dls_lease_time :: u32
  dls_dns :: "string list"

record 'v state_store =
  st_networks :: "(string, 'v network_state) btree_map"
  st_ports :: "(string, port_state) btree_map"
  st_ipam_records :: "(string, string) btree_map"
  st_dhcp_leases :: "(string, dhcp_lease_state) btree_map"
  st_publish_table :: publish_table

definition store_default :: "'v state_store" where
  "store_default = \<lparr>st_networks = [], st_ports = [], st_ipam_records = [], st_dhcp_leases = [],
     st_publish_table = pt_default\<rparr>"

record 'v state_snapshot =
  snap_version :: u32
  snap_networks :: "(string, 'v network_state) btree_map"
  snap_ports :: "(string, port_state) btree_map"
  snap_ipam_records :: "(string, string) btree_map"
  snap_dhcp_leases :: "(string, dhcp_lease_state) btree_map"
  snap_publish_table :: publish_table

definition snapshot_from_store :: "'v state_store \<Rightarrow> 'v state_snapshot" where
  "snapshot_from_store s =
     \<lparr>snap_version = STATE_FORMAT_VERSION, snap_networks = st_networks s, snap_ports = st_ports s,
      snap_ipam_records = st_ipam_records s, snap_dhcp_leases = st_dhcp_leases s,
      snap_publish_table = st_publish_table s\<rparr>"

definition store_from_snapshot :: "'v state_snapshot \<Rightarrow> 'v state_store" where
  "store_from_snapshot s =
     \<lparr>st_networks = snap_networks s, st_ports = snap_ports s, st_ipam_records = snap_ipam_records s,
      st_dhcp_leases = snap_dhcp_leases s, st_publish_table = snap_publish_table s\<rparr>"

section \<open>Reading and writing snapshots\<close>

record 'v snap_codec =
  sc_encode :: "'v state_snapshot \<Rightarrow> (string, string) result"
  sc_decode :: "'v \<Rightarrow> (string, 'v state_snapshot) result"

text \<open>The error of parsing an empty JSON text, used where there is no error at hand.\<close>

definition corrupt_state_error :: "'v json_api \<Rightarrow> state_error" where
  "corrupt_state_error J = Corrupt (case jn_of_text J [] of Inl e \<Rightarrow> e | Inr _ \<Rightarrow> [])"

definition deserialize_snapshot ::
  "'v json_api \<Rightarrow> 'v snap_codec \<Rightarrow> string \<Rightarrow> (state_error, 'v state_snapshot) result" where
  "deserialize_snapshot J C data =
     (case jn_of_text J data of
        Inl e \<Rightarrow> Inl (Corrupt e)
      | Inr value \<Rightarrow>
          if \<not> jn_is_object J value then Inl (corrupt_state_error J)
          else case Option.bind (jn_get J value ''version'') (jn_as_u64 J) of
            None \<Rightarrow> Inl (corrupt_state_error J)
          | Some n \<Rightarrow>
              let version = (ucast n :: u32);
                  decode = (\<lambda>v. case sc_decode C v of Inl e \<Rightarrow> Inl (Corrupt e) | Inr s \<Rightarrow> Inr s)
              in if version = 1
                 then decode (jn_insert J value ''version'' (jn_number J (ucast STATE_FORMAT_VERSION)))
                 else if version = STATE_FORMAT_VERSION then decode value
                 else Inl (VersionMismatch STATE_FORMAT_VERSION version))"

definition parse_snapshot ::
  "'v json_api \<Rightarrow> 'v snap_codec \<Rightarrow> string \<Rightarrow> (state_error, 'v state_snapshot) result" where
  "parse_snapshot J C data = deserialize_snapshot J C data"

definition serialize_snapshot :: "'v snap_codec \<Rightarrow> 'v state_snapshot \<Rightarrow> (state_error, string) result" where
  "serialize_snapshot C snapshot =
     (case sc_encode C snapshot of Inl e \<Rightarrow> Inl (StateIo e ''inline'') | Inr t \<Rightarrow> Inr t)"

section \<open>Files\<close>

type_synonym file_system = "string \<Rightarrow> string option"

text \<open>\<open>Path::join\<close>: an absolute second part replaces the first.\<close>

definition path_join :: "string \<Rightarrow> string \<Rightarrow> string" where
  "path_join p n =
     (if n \<noteq> [] \<and> hd n = CHR ''/'' then n
      else if p = [] \<or> last p = CHR ''/'' then p @ n
      else p @ ''/'' @ n)"

text \<open>What the system calls of one save or load do: \<open>fs::write\<close> may fail to open the file or
  stop after some bytes; the others succeed or fail.\<close>

datatype write_result = WriteOk | OpenFails | WriteStops nat

record state_io =
  io_write :: write_result
  io_sync_ok :: bool
  io_rename_ok :: bool
  io_dirsync_ok :: bool
  io_read_ok :: bool
  io_error :: string

definition io_all_ok :: state_io where
  "io_all_ok = \<lparr>io_write = WriteOk, io_sync_ok = True, io_rename_ok = True, io_dirsync_ok = True,
     io_read_ok = True, io_error = []\<rparr>"

definition state_tmp_path :: "string \<Rightarrow> string" where
  "state_tmp_path path = path_join path ''.state.json.tmp''"

definition state_file_path :: "string \<Rightarrow> string" where
  "state_file_path path = path_join path STATE_FILE_NAME"

definition save_to_disk ::
  "'v snap_codec \<Rightarrow> state_io \<Rightarrow> 'v state_store \<Rightarrow> string \<Rightarrow> file_system \<Rightarrow>
     file_system \<times> (state_error, unit) result" where
  "save_to_disk C io store path fs =
     (let state_path = state_file_path path;
          tmp_path = state_tmp_path path
      in case sc_encode C (snapshot_from_store store) of
        Inl e \<Rightarrow> (fs, Inl (StateIo e tmp_path))
      | Inr content \<Rightarrow>
     (case io_write io of
        OpenFails \<Rightarrow> (fs, Inl (StateIo (io_error io) tmp_path))
      | WriteStops n \<Rightarrow> (fs(tmp_path \<mapsto> take n content), Inl (StateIo (io_error io) tmp_path))
      | WriteOk \<Rightarrow>
          let fs1 = fs(tmp_path \<mapsto> content) in
          if \<not> io_sync_ok io then (fs1, Inl (StateIo (io_error io) tmp_path))
          else if \<not> io_rename_ok io then (fs1, Inl (StateIo (io_error io) state_path))
          else let fs2 = fs1(tmp_path := None, state_path \<mapsto> content) in
            if \<not> io_dirsync_ok io then (fs2, Inl (StateIo (io_error io) path))
            else (fs2, Inr ())))"

definition load_from_disk ::
  "'v json_api \<Rightarrow> 'v snap_codec \<Rightarrow> state_io \<Rightarrow> string \<Rightarrow> file_system \<Rightarrow>
     file_system \<times> (state_error, 'v state_store) result" where
  "load_from_disk J C io path fs =
     (let state_path = state_file_path path in
      case fs state_path of
        None \<Rightarrow> (fs, Inr store_default)
      | Some content \<Rightarrow>
          if \<not> io_read_ok io then (fs, Inl (StateIo (io_error io) state_path))
          else case jn_of_text J content of
            Inl e \<Rightarrow> (fs, Inl (Corrupt e))
          | Inr raw \<Rightarrow>
              let was_v1 = (Option.bind (jn_get J raw ''version'') (jn_as_u64 J) = Some 1) in
              case deserialize_snapshot J C content of
                Inl e \<Rightarrow> (fs, Inl e)
              | Inr snap \<Rightarrow>
                  let store = store_from_snapshot snap in
                  if was_v1
                  then (case save_to_disk C io store path fs of
                          (fs', Inl e) \<Rightarrow> (fs', Inl e)
                        | (fs', Inr _) \<Rightarrow> (fs', Inr store))
                  else (fs, Inr store))"

section \<open>The store's maps\<close>

definition insert_network :: "'v state_store \<Rightarrow> string \<Rightarrow> 'v network_state \<Rightarrow> 'v state_store" where
  "insert_network s nm v = s\<lparr>st_networks := bm_insert nm v (st_networks s)\<rparr>"

definition remove_network :: "'v state_store \<Rightarrow> string \<Rightarrow> 'v state_store \<times> 'v network_state option" where
  "remove_network s nm = (s\<lparr>st_networks := bm_remove nm (st_networks s)\<rparr>, map_of (st_networks s) nm)"

definition get_network :: "'v state_store \<Rightarrow> string \<Rightarrow> 'v network_state option" where
  "get_network s nm = map_of (st_networks s) nm"

definition insert_port :: "'v state_store \<Rightarrow> string \<Rightarrow> port_state \<Rightarrow> 'v state_store" where
  "insert_port s nm v = s\<lparr>st_ports := bm_insert nm v (st_ports s)\<rparr>"

definition remove_port :: "'v state_store \<Rightarrow> string \<Rightarrow> 'v state_store \<times> port_state option" where
  "remove_port s nm = (s\<lparr>st_ports := bm_remove nm (st_ports s)\<rparr>, map_of (st_ports s) nm)"

definition get_port :: "'v state_store \<Rightarrow> string \<Rightarrow> port_state option" where
  "get_port s nm = map_of (st_ports s) nm"

definition insert_ipam :: "'v state_store \<Rightarrow> string \<Rightarrow> string \<Rightarrow> 'v state_store" where
  "insert_ipam s chaddr cidr = s\<lparr>st_ipam_records := bm_insert chaddr cidr (st_ipam_records s)\<rparr>"

definition remove_ipam :: "'v state_store \<Rightarrow> string \<Rightarrow> 'v state_store \<times> string option" where
  "remove_ipam s chaddr =
     (s\<lparr>st_ipam_records := bm_remove chaddr (st_ipam_records s)\<rparr>, map_of (st_ipam_records s) chaddr)"

definition get_ipam :: "'v state_store \<Rightarrow> string \<Rightarrow> string option" where
  "get_ipam s chaddr = map_of (st_ipam_records s) chaddr"

definition insert_dhcp_lease :: "'v state_store \<Rightarrow> string \<Rightarrow> dhcp_lease_state \<Rightarrow> 'v state_store" where
  "insert_dhcp_lease s chaddr lease = s\<lparr>st_dhcp_leases := bm_insert chaddr lease (st_dhcp_leases s)\<rparr>"

definition remove_dhcp_lease :: "'v state_store \<Rightarrow> string \<Rightarrow> 'v state_store \<times> dhcp_lease_state option" where
  "remove_dhcp_lease s chaddr =
     (s\<lparr>st_dhcp_leases := bm_remove chaddr (st_dhcp_leases s)\<rparr>, map_of (st_dhcp_leases s) chaddr)"

definition get_dhcp_lease :: "'v state_store \<Rightarrow> string \<Rightarrow> dhcp_lease_state option" where
  "get_dhcp_lease s chaddr = map_of (st_dhcp_leases s) chaddr"

definition network_count :: "'v state_store \<Rightarrow> nat" where
  "network_count s = length (st_networks s)"

definition port_count :: "'v state_store \<Rightarrow> nat" where
  "port_count s = length (st_ports s)"

definition ipam_count :: "'v state_store \<Rightarrow> nat" where
  "ipam_count s = length (st_ipam_records s)"

definition dhcp_lease_count :: "'v state_store \<Rightarrow> nat" where
  "dhcp_lease_count s = length (st_dhcp_leases s)"

section \<open>The save path as steps\<close>

datatype save_pc = Opening | Writing nat | Written | Synced | Renamed | Finished bool

text \<open>
  One system call, or one chunk of the write, at a time. A failed call ends the save with
  \<open>Finished False\<close>.
\<close>

inductive save_step :: "string \<Rightarrow> string \<Rightarrow> string \<Rightarrow> save_pc \<times> file_system \<Rightarrow> save_pc \<times> file_system \<Rightarrow> bool"
  for tmp state content where
  open_tmp: "save_step tmp state content (Opening, fs) (Writing 0, fs(tmp \<mapsto> []))"
| write_chunk: "0 < k \<Longrightarrow> n + k \<le> length content \<Longrightarrow>
     save_step tmp state content (Writing n, fs) (Writing (n + k), fs(tmp \<mapsto> take (n + k) content))"
| write_done: "save_step tmp state content (Writing (length content), fs) (Written, fs)"
| sync_tmp: "save_step tmp state content (Written, fs) (Synced, fs)"
| rename_tmp: "fs tmp = Some c \<Longrightarrow>
     save_step tmp state content (Synced, fs) (Renamed, fs(tmp := None, state \<mapsto> c))"
| sync_dir: "save_step tmp state content (Renamed, fs) (Finished True, fs)"
| call_fails: "pc \<in> {Opening, Written, Synced, Renamed} \<or> (\<exists>n. pc = Writing n) \<Longrightarrow>
     save_step tmp state content (pc, fs) (Finished False, fs)"

inductive_cases save_stepE: "save_step tmp state content (pc, fs) (pc', fs')"

section \<open>Well-formedness\<close>

definition store_wf :: "'v state_store \<Rightarrow> bool" where
  "store_wf s = (bm_wf (st_networks s) \<and> bm_wf (st_ports s) \<and> bm_wf (st_ipam_records s)
     \<and> bm_wf (st_dhcp_leases s))"

text \<open>All maps of a store are sorted, the nested ones included: what the types guarantee.\<close>

definition store_sorted :: "'v state_store \<Rightarrow> bool" where
  "store_sorted s = (store_wf s \<and> (\<forall>p \<in> snd ` set (st_ports s). bm_wf (ips_allocations (pst_ipam p)))
     \<and> bm_wf (pt_entries (st_publish_table s))
     \<and> (\<forall>m \<in> snd ` set (pt_entries (st_publish_table s)). bm_wf m))"

text \<open>What the derived serializers document.\<close>

definition snap_codec_ok :: "'v json_api \<Rightarrow> 'v snap_codec \<Rightarrow> bool" where
  "snap_codec_ok J C =
     (\<forall>s. store_sorted (store_from_snapshot s) \<longrightarrow> (\<exists>t v. sc_encode C s = Inr t \<and> jn_of_text J t = Inr v \<and> jn_is_object J v
        \<and> jn_get J v ''version'' = Some (jn_number J (ucast (snap_version s)))
        \<and> sc_decode C v = Inr s))"

section \<open>The four maps\<close>

lemma store_default_wf [simp]: "store_wf store_default"
  by (simp add: store_wf_def store_default_def)

interpretation st_nets: rust_map store_wf store_default "\<lambda>k v s. insert_network s k v"
  "\<lambda>k s. fst (remove_network s k)" get_network
  by unfold_locales (auto simp: store_wf_def store_default_def insert_network_def remove_network_def get_network_def)

interpretation st_prts: rust_map store_wf store_default "\<lambda>k v s. insert_port s k v"
  "\<lambda>k s. fst (remove_port s k)" get_port
  by unfold_locales (auto simp: store_wf_def store_default_def insert_port_def remove_port_def get_port_def)

interpretation st_ips: rust_map store_wf store_default "\<lambda>k v s. insert_ipam s k v"
  "\<lambda>k s. fst (remove_ipam s k)" get_ipam
  by unfold_locales (auto simp: store_wf_def store_default_def insert_ipam_def remove_ipam_def get_ipam_def)

interpretation st_leases: rust_map store_wf store_default "\<lambda>k v s. insert_dhcp_lease s k v"
  "\<lambda>k s. fst (remove_dhcp_lease s k)" get_dhcp_lease
  by unfold_locales (auto simp: store_wf_def store_default_def insert_dhcp_lease_def remove_dhcp_lease_def get_dhcp_lease_def)

section \<open>Loading and saving\<close>

lemma tmp_neq_state [simp]: "state_tmp_path p \<noteq> state_file_path p" "state_file_path p \<noteq> state_tmp_path p"
  by (auto simp: state_tmp_path_def state_file_path_def path_join_def STATE_FILE_NAME_def)

lemma store_snapshot_inverse [simp]: "store_from_snapshot (snapshot_from_store s) = s"
  by (simp add: store_from_snapshot_def snapshot_from_store_def)

lemma snap_version_from_store [simp]: "snap_version (snapshot_from_store s) = STATE_FORMAT_VERSION"
  by (simp add: snapshot_from_store_def)

text \<open>The result of a load depends on the state file alone.\<close>

lemma save_result_fs: "snd (save_to_disk C io store p fs) = snd (save_to_disk C io store p fs')"
  by (simp add: save_to_disk_def Let_def split: sum.splits write_result.splits)

lemma load_result_cong:
  assumes "fs (state_file_path p) = fs' (state_file_path p)"
  shows "snd (load_from_disk J C io p fs) = snd (load_from_disk J C io p fs')"
proof -
  have "snd (case save_to_disk C io store p fs of (fs', Inl e) \<Rightarrow> (fs', Inl e) | (fs', Inr _) \<Rightarrow> (fs', Inr store))
      = (case snd (save_to_disk C io store p fs') of Inl e \<Rightarrow> Inl e | Inr _ \<Rightarrow> Inr store)" for store fs'
    unfolding save_result_fs [of C io store p fs' fs] by (simp split: prod.splits sum.splits)
  note s = this
  have s': "snd (case save_to_disk C io store p fs' of (fs', Inl e) \<Rightarrow> (fs', Inl e) | (fs', Inr _) \<Rightarrow> (fs', Inr store))
      = (case snd (save_to_disk C io store p fs') of Inl e \<Rightarrow> Inl e | Inr _ \<Rightarrow> Inr store)" for store
    by (simp split: prod.splits sum.splits)
  show ?thesis
    using assms by (simp add: load_from_disk_def Let_def s [of _ fs'] s' split: option.splits sum.splits)
qed

lemma codec_content:
  assumes "snap_codec_ok J C" "store_sorted store" "sc_encode C (snapshot_from_store store) = Inr content"
  obtains v where "jn_of_text J content = Inr v" "jn_is_object J v"
    "jn_get J v ''version'' = Some (jn_number J 2)" "sc_decode C v = Inr (snapshot_from_store store)"
proof -
  obtain t v where "sc_encode C (snapshot_from_store store) = Inr t" "jn_of_text J t = Inr v" "jn_is_object J v"
      "jn_get J v ''version'' = Some (jn_number J (ucast (snap_version (snapshot_from_store store))))"
      "sc_decode C v = Inr (snapshot_from_store store)"
    using assms(1,2) unfolding snap_codec_ok_def by (metis store_snapshot_inverse)
  then show thesis using assms(3) that by (simp add: STATE_FORMAT_VERSION_def)
qed

lemma load_written:
  assumes "json_ok J" "snap_codec_ok J C" "store_sorted store"
    "sc_encode C (snapshot_from_store store) = Inr content" "fs (state_file_path p) = Some content" "io_read_ok io"
  shows "load_from_disk J C io p fs = (fs, Inr store)"
proof -
  obtain v where v: "jn_of_text J content = Inr v" "jn_is_object J v"
    "jn_get J v ''version'' = Some (jn_number J 2)" "sc_decode C v = Inr (snapshot_from_store store)"
    using codec_content [OF assms(2-4)] by blast
  have "deserialize_snapshot J C content = Inr (snapshot_from_store store)"
    using v by (simp add: deserialize_snapshot_def json_okD [OF assms(1)] STATE_FORMAT_VERSION_def)
  then show ?thesis
    using v assms(5,6) by (simp add: load_from_disk_def json_okD [OF assms(1)])
qed

lemma save_written:
  assumes "save_to_disk C io store p fs = (fs', Inr ())"
  obtains content where "sc_encode C (snapshot_from_store store) = Inr content"
    "fs' (state_file_path p) = Some content" "fs' (state_tmp_path p) = None"
    "\<forall>q. q \<noteq> state_file_path p \<longrightarrow> q \<noteq> state_tmp_path p \<longrightarrow> fs' q = fs q"
  using assms by (auto simp: save_to_disk_def Let_def split: sum.splits write_result.splits if_splits)

section \<open>Crash safety\<close>

abbreviation save_reaches where
  "save_reaches tmp state content \<equiv> (save_step tmp state content)\<^sup>*\<^sup>*"

text \<open>What holds of the file system at each point of the save.\<close>

fun save_point :: "string \<Rightarrow> string \<Rightarrow> string \<Rightarrow> file_system \<Rightarrow> save_pc \<times> file_system \<Rightarrow> bool" where
  "save_point tmp state content fs0 (pc, fs) =
     ((\<forall>q. q \<noteq> tmp \<longrightarrow> q \<noteq> state \<longrightarrow> fs q = fs0 q)
      \<and> (case pc of
           Opening \<Rightarrow> fs state = fs0 state
         | Writing n \<Rightarrow> fs state = fs0 state \<and> fs tmp = Some (take n content)
         | Written \<Rightarrow> fs state = fs0 state \<and> fs tmp = Some content
         | Synced \<Rightarrow> fs state = fs0 state \<and> fs tmp = Some content
         | Renamed \<Rightarrow> fs state = Some content \<and> fs tmp = None
         | Finished True \<Rightarrow> fs state = Some content \<and> fs tmp = None
         | Finished False \<Rightarrow> fs state = fs0 state \<or> fs state = Some content))"

lemma save_point_step:
  assumes "save_step tmp state content s s'" "save_point tmp state content fs0 s" "tmp \<noteq> state"
  shows "save_point tmp state content fs0 s'"
  using assms by (induction rule: save_step.induct) (auto split: save_pc.splits bool.splits)

lemma save_point_reaches:
  assumes "save_reaches tmp state content s s'" "save_point tmp state content fs0 s" "tmp \<noteq> state"
  shows "save_point tmp state content fs0 s'"
  using assms by (induction rule: rtranclp_induct) (blast intro: save_point_step)+

lemma write_reaches:
  assumes "n \<le> length content"
  shows "save_reaches tmp state content (Opening, fs) (Writing n, fs(tmp \<mapsto> take n content))"
proof (cases "n = 0")
  case True
  then show ?thesis using save_step.open_tmp by fastforce
next
  case False
  have "save_step tmp state content (Writing 0, fs(tmp \<mapsto> [])) (Writing (0 + n), fs(tmp \<mapsto> [], tmp \<mapsto> take (0 + n) content))"
    by (rule save_step.write_chunk) (use False assms in auto)
  then have "save_step tmp state content (Writing 0, fs(tmp \<mapsto> [])) (Writing n, fs(tmp \<mapsto> take n content))" by simp
  with save_step.open_tmp [of tmp state content fs] show ?thesis
    by (meson converse_rtranclp_into_rtranclp r_into_rtranclp)
qed

lemma fail_reaches:
  assumes "save_reaches tmp state content s (pc, fs)" "\<And>b. pc \<noteq> Finished b"
  shows "save_reaches tmp state content s (Finished False, fs)"
  using assms by (cases pc) (auto intro: rtranclp.rtrancl_into_rtrancl save_step.call_fails)

text \<open>The executable save ends in a state that the step relation reaches.\<close>

lemma save_to_disk_reaches:
  assumes "sc_encode C (snapshot_from_store store) = Inr content"
  shows "\<exists>ok. save_reaches (state_tmp_path p) (state_file_path p) content (Opening, fs)
      (Finished ok, fst (save_to_disk C io store p fs)) \<and> (ok \<longleftrightarrow> snd (save_to_disk C io store p fs) = Inr ())"
proof -
  let ?R = "save_reaches (state_tmp_path p) (state_file_path p) content"
  let ?fs1 = "fs(state_tmp_path p \<mapsto> content)"
  let ?fs2 = "?fs1(state_tmp_path p := None, state_file_path p \<mapsto> content)"
  have w: "?R (Opening, fs) (Writing n, fs(state_tmp_path p \<mapsto> take n content))" if "n \<le> length content" for n
    using that by (rule write_reaches)
  have wr: "?R (Opening, fs) (Written, ?fs1)"
    using w [of "length content"] save_step.write_done [of "state_tmp_path p" "state_file_path p" content ?fs1]
    by (simp add: rtranclp.rtrancl_into_rtrancl)
  have sy: "?R (Opening, fs) (Synced, ?fs1)" using wr save_step.sync_tmp by (rule rtranclp.rtrancl_into_rtrancl)
  have rn: "?R (Opening, fs) (Renamed, ?fs2)"
    using sy by (rule rtranclp.rtrancl_into_rtrancl) (rule save_step.rename_tmp, simp)
  have fin: "?R (Opening, fs) (Finished True, ?fs2)" using rn save_step.sync_dir by (rule rtranclp.rtrancl_into_rtrancl)
  have st: "?R (Opening, fs) (Finished False, fs(state_tmp_path p \<mapsto> take n content))" for n
  proof -
    have "take (min n (length content)) content = take n content" by (simp add: min_def)
    then show ?thesis using fail_reaches [OF w [of "min n (length content)"]] by simp
  qed
  have op: "?R (Opening, fs) (Finished False, fs)" by (rule fail_reaches) auto
  show ?thesis
    using assms op st fin fail_reaches [OF wr] fail_reaches [OF sy] fail_reaches [OF rn]
    by (auto simp: save_to_disk_def Let_def split: write_result.splits)
qed

section \<open>Properties\<close>

text \<open>
  C28: Durable round trip. After a save that reports success, a load that can read the file gives
  back exactly the store that was saved and leaves the file system as it is; the temporary file
  is gone and no other file was touched.
\<close>

theorem save_load_roundtrip:
  assumes "json_ok J" "snap_codec_ok J C" "store_sorted store"
    and "save_to_disk C io store p fs = (fs', Inr ())" "io_read_ok io'"
  shows "load_from_disk J C io' p fs' = (fs', Inr store) \<and> fs' (state_tmp_path p) = None
    \<and> (\<forall>q. q \<noteq> state_file_path p \<and> q \<noteq> state_tmp_path p \<longrightarrow> fs' q = fs q)"
proof -
  obtain content where c: "sc_encode C (snapshot_from_store store) = Inr content"
    "fs' (state_file_path p) = Some content" "fs' (state_tmp_path p) = None"
    "\<forall>q. q \<noteq> state_file_path p \<longrightarrow> q \<noteq> state_tmp_path p \<longrightarrow> fs' q = fs q"
    using save_written [OF assms(4)] by blast
  then show ?thesis using load_written [where fs = fs' and p = p, OF assms(1-3) c(1,2) assms(5)] by blast
qed

text \<open>
  C27: Crash safety of the save. Stop it after any sequence of its steps, in the middle of the write
  or after any failed system call: a later load sees either exactly what it saw before the save
  began or the complete new store, and the new store once all steps succeeded. The executable
  save path ends in such a state whatever its system calls return.
\<close>

theorem save_crash_safe:
  assumes "json_ok J" "snap_codec_ok J C" "store_sorted store"
    and "sc_encode C (snapshot_from_store store) = Inr content" "io_read_ok io"
    and "save_reaches (state_tmp_path p) (state_file_path p) content (Opening, fs) (pc, fs')
      \<or> fs' = fst (save_to_disk C io' store p fs) \<and> pc = Finished (snd (save_to_disk C io' store p fs) = Inr ())"
  shows "(snd (load_from_disk J C io p fs') = snd (load_from_disk J C io p fs)
      \<or> snd (load_from_disk J C io p fs') = Inr store)
    \<and> (pc = Finished True \<longrightarrow> snd (load_from_disk J C io p fs') = Inr store)"
proof -
  have r: "save_reaches (state_tmp_path p) (state_file_path p) content (Opening, fs) (pc, fs')"
    using assms(6) save_to_disk_reaches [OF assms(4), of p fs io'] by auto
  have "save_point (state_tmp_path p) (state_file_path p) content fs (Opening, fs)" by simp
  note pt = save_point_reaches [OF r this tmp_neq_state(1)]
  have new: "snd (load_from_disk J C io p fs') = Inr store" if "fs' (state_file_path p) = Some content"
    using load_written [where fs = fs' and p = p, OF assms(1-4) that assms(5)] by simp
  have old: "snd (load_from_disk J C io p fs') = snd (load_from_disk J C io p fs)"
    if "fs' (state_file_path p) = fs (state_file_path p)"
    using that by (rule load_result_cong)
  show ?thesis using pt new old by (auto split: save_pc.splits bool.splits)
qed

text \<open>
  The version guard. A state file whose version, read as 32 bits, is neither 1 nor 2 is
  refused with the version found, and no file is changed; a file of version 1 that decodes is
  loaded and rewritten, so that the next load gives the same store without writing again.
\<close>

lemma load_version_guard:
  assumes "json_ok J" "snap_codec_ok J C" "io_read_ok io"
    and "fs (state_file_path p) = Some content" "jn_of_text J content = Inr v" "jn_is_object J v"
    and "jn_get J v ''version'' = Some (jn_number J n)"
  shows "((ucast n :: u32) \<notin> {1, 2} \<longrightarrow>
        load_from_disk J C io p fs = (fs, Inl (VersionMismatch 2 (ucast n))))
    \<and> (n = 1 \<and> load_from_disk J C io p fs = (fs', Inr store) \<and> store_sorted store \<longrightarrow>
        load_from_disk J C io p fs' = (fs', Inr store))"
proof -
  have ver: "Option.bind (jn_get J v ''version'') (jn_as_u64 J) = Some n"
    using assms(7) json_okD(2) [OF assms(1)] by simp
  have "load_from_disk J C io p fs' = (fs', Inr store)"
    if one: "n = 1" and l: "load_from_disk J C io p fs = (fs', Inr store)" and s: "store_sorted store"
  proof -
    have "save_to_disk C io store p fs = (fs', Inr ())"
      using l one assms(3-5) ver by (auto simp: load_from_disk_def Let_def split: sum.splits prod.splits)
    from save_written [OF this] load_written [OF assms(1,2) s _ _ assms(3)] show ?thesis by metis
  qed
  moreover have "load_from_disk J C io p fs = (fs, Inl (VersionMismatch 2 (ucast n)))"
    if "(ucast n :: u32) \<notin> {1, 2}"
    using that assms(3-6) ver by (auto simp: load_from_disk_def deserialize_snapshot_def Let_def STATE_FORMAT_VERSION_def)
  ultimately show ?thesis by blast
qed

text \<open>
  The version field is truncated to 32 bits before the guard looks at it: a file that declares
  version 4294967297 is migrated like version 1, and it is not rewritten because the rewrite
  test reads all 64 bits.
\<close>

lemma load_truncates_version:
  assumes "json_ok J" "io_read_ok io"
    and "fs (state_file_path p) = Some content" "jn_of_text J content = Inr v" "jn_is_object J v"
    and "jn_get J v ''version'' = Some (jn_number J 0x100000001)"
    and "sc_decode C (jn_insert J v ''version'' (jn_number J 2)) = Inr snap"
  shows "load_from_disk J C io p fs = (fs, Inr (store_from_snapshot snap))"
  using assms(2-7) json_okD(2) [OF assms(1)]
  by (simp add: load_from_disk_def deserialize_snapshot_def STATE_FORMAT_VERSION_def)

section \<open>A serializer on the tree values\<close>

text \<open>An instance of the laws above, for the witnesses.\<close>

definition enc_strs :: "string list \<Rightarrow> tree_value" where
  "enc_strs xs = TObj (map (\<lambda>s. (s, TNull)) xs)"

fun dec_strs :: "tree_value \<Rightarrow> string list" where
  "dec_strs (TObj kvs) = map fst kvs"
| "dec_strs _ = []"

fun enc_opt :: "string option \<Rightarrow> tree_value" where
  "enc_opt None = TNull"
| "enc_opt (Some s) = TStr s"

fun dec_opt :: "tree_value \<Rightarrow> string option" where
  "dec_opt (TStr s) = Some s"
| "dec_opt _ = None"

fun dec_str :: "tree_value \<Rightarrow> string" where
  "dec_str (TStr s) = s"
| "dec_str _ = []"

fun dec_num :: "tree_value \<Rightarrow> u64" where
  "dec_num (TNum n) = n"
| "dec_num _ = 0"

definition enc_map :: "('a \<Rightarrow> tree_value) \<Rightarrow> (string \<times> 'a) list \<Rightarrow> tree_value" where
  "enc_map f m = TObj (map (\<lambda>(k, v). (k, f v)) m)"

fun dec_map :: "(tree_value \<Rightarrow> 'a) \<Rightarrow> tree_value \<Rightarrow> (string \<times> 'a) list" where
  "dec_map g (TObj kvs) = map (\<lambda>(k, v). (k, g v)) kvs"
| "dec_map g _ = []"

text \<open>Records as objects whose fields are read by name.\<close>

definition fld :: "tree_value \<Rightarrow> string \<Rightarrow> tree_value" where
  "fld v k = (case tree_get v k of None \<Rightarrow> TNull | Some w \<Rightarrow> w)"

definition enc_net :: "tree_value network_state \<Rightarrow> tree_value" where
  "enc_net n = TObj [(''cidr'', TStr (nst_cidr n)), (''gateway'', TStr (nst_gateway n)), (''dns'', enc_strs (nst_dns n)),
     (''mtu'', TNum (ucast (nst_mtu n))), (''params'', nst_params n),
     (''pool_start'', enc_opt (nst_pool_start n)), (''pool_end'', enc_opt (nst_pool_end n))]"

definition dec_net :: "tree_value \<Rightarrow> tree_value network_state" where
  "dec_net v = \<lparr>nst_cidr = dec_str (fld v ''cidr''), nst_gateway = dec_str (fld v ''gateway''),
     nst_dns = dec_strs (fld v ''dns''), nst_mtu = ucast (dec_num (fld v ''mtu'')), nst_params = fld v ''params'',
     nst_pool_start = dec_opt (fld v ''pool_start''), nst_pool_end = dec_opt (fld v ''pool_end'')\<rparr>"

definition enc_port :: "port_state \<Rightarrow> tree_value" where
  "enc_port p = TObj [(''vm_ip'', enc_opt (pst_vm_ip p)), (''mac'', enc_opt (pst_mac p)),
     (''free'', enc_strs (ips_free_ranges (pst_ipam p))), (''allocations'', enc_map TStr (ips_allocations (pst_ipam p)))]"

definition dec_port :: "tree_value \<Rightarrow> port_state" where
  "dec_port v = \<lparr>pst_vm_ip = dec_opt (fld v ''vm_ip''), pst_mac = dec_opt (fld v ''mac''),
     pst_ipam = \<lparr>ips_free_ranges = dec_strs (fld v ''free''), ips_allocations = dec_map dec_str (fld v ''allocations'')\<rparr>\<rparr>"

definition enc_lease :: "dhcp_lease_state \<Rightarrow> tree_value" where
  "enc_lease l = TObj [(''chaddr'', TStr (dls_chaddr l)), (''ip'', TStr (dls_ip_address l)),
     (''time'', TNum (ucast (dls_lease_time l))), (''dns'', enc_strs (dls_dns l))]"

definition dec_lease :: "tree_value \<Rightarrow> dhcp_lease_state" where
  "dec_lease v = \<lparr>dls_chaddr = dec_str (fld v ''chaddr''), dls_ip_address = dec_str (fld v ''ip''),
     dls_lease_time = ucast (dec_num (fld v ''time'')), dls_dns = dec_strs (fld v ''dns'')\<rparr>"

definition enc_ports :: "(u16 \<times> u16) list \<Rightarrow> tree_value" where
  "enc_ports m = TObj (map (\<lambda>(a, b). ([], TObj [(''vm'', TNum (ucast a)), (''host'', TNum (ucast b))])) m)"

fun dec_ports :: "tree_value \<Rightarrow> (u16 \<times> u16) list" where
  "dec_ports (TObj kvs) = map (\<lambda>(_, v). (ucast (dec_num (fld v ''vm'')), ucast (dec_num (fld v ''host'')))) kvs"
| "dec_ports _ = []"

definition enc_snap :: "tree_value state_snapshot \<Rightarrow> tree_value" where
  "enc_snap s = TObj [(''version'', TNum (ucast (snap_version s))), (''networks'', enc_map enc_net (snap_networks s)),
     (''ports'', enc_map enc_port (snap_ports s)), (''ipam'', enc_map TStr (snap_ipam_records s)),
     (''leases'', enc_map enc_lease (snap_dhcp_leases s)), (''publish'', enc_map enc_ports (pt_entries (snap_publish_table s)))]"

definition dec_snap :: "tree_value \<Rightarrow> tree_value state_snapshot" where
  "dec_snap v = \<lparr>snap_version = ucast (dec_num (fld v ''version'')), snap_networks = dec_map dec_net (fld v ''networks''),
     snap_ports = dec_map dec_port (fld v ''ports''), snap_ipam_records = dec_map dec_str (fld v ''ipam''),
     snap_dhcp_leases = dec_map dec_lease (fld v ''leases''),
     snap_publish_table = \<lparr>pt_entries = dec_map dec_ports (fld v ''publish'')\<rparr>\<rparr>"

definition tree_codec :: "tree_value snap_codec" where
  "tree_codec = \<lparr>sc_encode = Inr \<circ> put_tree \<circ> enc_snap, sc_decode = Inr \<circ> dec_snap\<rparr>"

lemma dec_enc_map: "(\<And>v. g (f v) = v) \<Longrightarrow> dec_map g (enc_map f m) = m"
  by (induction m) (auto simp: enc_map_def)

lemma dec_enc_basic [simp]: "dec_strs (enc_strs xs) = xs" "dec_opt (enc_opt x) = x"
  "dec_map dec_str (enc_map TStr m) = m"
  by (simp_all add: enc_strs_def dec_enc_map comp_def) (cases x; simp)

lemma ucast_up_down: "(ucast (ucast (x :: u16) :: u64) :: u16) = x" "(ucast (ucast (y :: u32) :: u64) :: u32) = y"
  by (rule bit_word_eqI, auto simp: bit_simps)+

lemma dec_enc_records: "dec_net (enc_net n) = n" "dec_port (enc_port p) = p" "dec_lease (enc_lease l) = l"
  "dec_ports (enc_ports m) = m"
  by (simp_all add: dec_net_def enc_net_def dec_port_def enc_port_def dec_lease_def enc_lease_def
      enc_ports_def fld_def ucast_up_down comp_def case_prod_unfold)

lemma dec_enc_snap [simp]: "dec_snap (enc_snap s) = s"
  by (simp add: dec_snap_def enc_snap_def fld_def dec_enc_map dec_enc_records ucast_up_down)

lemma enc_snap_object:
  "jn_is_object tree_json (enc_snap s)"
  "jn_get tree_json (enc_snap s) ''version'' = Some (jn_number tree_json (ucast (snap_version s)))"
  by (simp_all add: tree_json_def enc_snap_def)

lemma tree_codec_ok: "snap_codec_ok tree_json tree_codec"
  unfolding snap_codec_ok_def
proof (intro allI impI exI conjI)
  fix s
  show "sc_encode tree_codec s = Inr (put_tree (enc_snap s))" by (simp add: tree_codec_def)
  show "jn_of_text tree_json (put_tree (enc_snap s)) = Inr (enc_snap s)"
    using json_okD(9) [OF tree_json_ok, of "enc_snap s"] by (simp add: tree_json_def)
  show "sc_decode tree_codec (enc_snap s) = Inr s" by (simp add: tree_codec_def)
qed (simp_all add: enc_snap_object)

theorem save_load_roundtrip_witness:
  "load_from_disk tree_json tree_codec io_all_ok ''run''
     (fst (save_to_disk tree_codec io_all_ok (store_default :: tree_value state_store) ''run'' (\<lambda>_. None)))
   = (fst (save_to_disk tree_codec io_all_ok (store_default :: tree_value state_store) ''run'' (\<lambda>_. None)), Inr store_default)"
proof -
  have s: "store_sorted (store_default :: tree_value state_store)"
    by (simp add: store_sorted_def) (simp add: store_default_def pt_default_def)
  obtain fs where w: "save_to_disk tree_codec io_all_ok (store_default :: tree_value state_store) ''run'' (\<lambda>_. None) = (fs, Inr ())"
    by (simp add: save_to_disk_def tree_codec_def io_all_ok_def)
  from save_load_roundtrip [OF tree_json_ok tree_codec_ok s w, of io_all_ok] w show ?thesis
    by (simp add: io_all_ok_def)
qed

lemma default_sorted: "store_sorted (store_default :: 'v state_store)"
  by (simp add: store_sorted_def) (simp add: store_default_def pt_default_def)

theorem save_crash_safe_witness:
  "let c = put_tree (enc_snap (snapshot_from_store store_default));
       fs = ((\<lambda>_. None)(state_tmp_path ''run'' \<mapsto> take 5 c))
   in snd (load_from_disk tree_json tree_codec io_all_ok ''run'' fs)
        = snd (load_from_disk tree_json tree_codec io_all_ok ''run'' (\<lambda>_. None))
      \<or> snd (load_from_disk tree_json tree_codec io_all_ok ''run'' fs) = Inr store_default"
proof -
  let ?c = "put_tree (enc_snap (snapshot_from_store store_default))"
  let ?fs = "(\<lambda>_. None)(state_tmp_path ''run'' \<mapsto> take 5 ?c) :: file_system"
  have e: "sc_encode tree_codec (snapshot_from_store store_default) = Inr ?c" by (simp add: tree_codec_def)
  have "5 \<le> length ?c" by (simp add: enc_snap_def)
  from write_reaches [OF this]
  have r: "save_reaches (state_tmp_path ''run'') (state_file_path ''run'') ?c (Opening, \<lambda>_. None) (Writing 5, ?fs)
      \<or> ?fs = fst (save_to_disk tree_codec io_all_ok store_default ''run'' (\<lambda>_. None))
        \<and> Writing 5 = Finished (snd (save_to_disk tree_codec io_all_ok store_default ''run'' (\<lambda>_. None)) = Inr ())" by blast
  show ?thesis
    unfolding Let_def
    by (rule save_crash_safe [OF tree_json_ok tree_codec_ok default_sorted e _ r, THEN conjunct1])
      (simp add: io_all_ok_def)
qed

end
