(* ===== verification/Ipam_Alloc.thy ===== *)
theory Ipam_Alloc
  imports Net_Model
begin

text \<open>
  The IPAM allocator of \<open>crates/k8netd-core/src/ipam.rs\<close>: one network and the bindings of MAC
  addresses to pool addresses. The lemmas show the reservation contract (a bound MAC keeps its
  address, a new one gets the lowest free address, the gateway is never handed out), the
  exhaustion condition, and that a snapshot restores exactly the bindings it was taken from.
\<close>

section \<open>The allocator\<close>

datatype ipam_error = PoolExhausted | UnknownMac

fun show_ipam_error :: "ipam_error \<Rightarrow> string" where
  "show_ipam_error PoolExhausted = ''IP pool exhausted''"
| "show_ipam_error UnknownMac = ''no allocation for the given MAC''"

record ipam =
  ipam_network :: network
  ipam_allocations :: "(mac_addr, ipv4) hash_map"

definition ipam_new :: "network \<Rightarrow> ipam" where
  "ipam_new n = \<lparr>ipam_network = n, ipam_allocations = []\<rparr>"

definition ipam_snapshot :: "ipam \<Rightarrow> (string, string) btree_map" where
  "ipam_snapshot s = bm_extend [] (map (\<lambda>(mac, ip). (show_mac mac, show_ip ip)) (ipam_allocations s))"

text \<open>The error text of \<open>AddrParseError\<close> for IPv4.\<close>

definition addr_parse_error :: string where
  "addr_parse_error = ''invalid IPv4 address syntax''"

text \<open>The loop of \<open>from_snapshot\<close> over the entries in key order.\<close>

fun restore_loop :: "network \<Rightarrow> (mac_addr, ipv4) hash_map \<Rightarrow> (string \<times> string) list \<Rightarrow>
    (string, (mac_addr, ipv4) hash_map) result" where
  "restore_loop n allocs [] = Inr allocs"
| "restore_loop n allocs ((mac_text, ip_text) # rest) =
     (case parse_mac mac_text of
        Inl e \<Rightarrow> Inl (''invalid MAC '' @ mac_text @ '': '' @ show_model_error e)
      | Inr mac \<Rightarrow>
     (case parse_ip ip_text of
        None \<Rightarrow> Inl (''invalid IP '' @ ip_text @ '': '' @ addr_parse_error)
      | Some ip \<Rightarrow>
          if ip < pool_start (net_pool n) \<or> ip > pool_end (net_pool n)
          then Inl (''IP '' @ show_ip ip @ '' for '' @ show_mac mac @ '' is outside the allocation pool'')
          else if ip \<in> snd ` set allocs then Inl (''duplicate IP allocation '' @ show_ip ip)
          else restore_loop n (hm_insert mac ip allocs) rest))"

definition ipam_from_snapshot :: "network \<Rightarrow> (string, string) btree_map \<Rightarrow> (string, ipam) result" where
  "ipam_from_snapshot n snap =
     (case restore_loop n [] snap of
        Inl e \<Rightarrow> Inl e
      | Inr allocs \<Rightarrow> Inr \<lparr>ipam_network = n, ipam_allocations = allocs\<rparr>)"

definition ipam_lookup :: "ipam \<Rightarrow> mac_addr \<Rightarrow> ipv4 option" where
  "ipam_lookup s mac = map_of (ipam_allocations s) mac"

definition ipam_allocate :: "ipam \<Rightarrow> mac_addr \<Rightarrow> ipam \<times> (ipam_error, ipv4) result" where
  "ipam_allocate s mac =
     (case map_of (ipam_allocations s) mac of
        Some ip \<Rightarrow> (s, Inr ip)
      | None \<Rightarrow>
     (case find_range (unat (pool_start (net_pool (ipam_network s))))
             (unat (pool_end (net_pool (ipam_network s))))
             (\<lambda>c. of_nat c \<notin> snd ` set (ipam_allocations s)) of
        Some c \<Rightarrow> (s\<lparr>ipam_allocations := hm_insert mac (of_nat c) (ipam_allocations s)\<rparr>, Inr (of_nat c))
      | None \<Rightarrow> (s, Inl PoolExhausted)))"

definition ipam_release :: "ipam \<Rightarrow> mac_addr \<Rightarrow> ipam \<times> (ipam_error, unit) result" where
  "ipam_release s mac =
     (let s' = s\<lparr>ipam_allocations := hm_remove mac (ipam_allocations s)\<rparr> in
      if map_of (ipam_allocations s) mac = None then (s', Inl UnknownMac) else (s', Inr ()))"

section \<open>The invariant\<close>

text \<open>
  Bindings are a map, every bound address lies in the pool, and no two MACs share one.
\<close>

definition ipam_inv :: "ipam \<Rightarrow> bool" where
  "ipam_inv s =
     (hm_wf (ipam_allocations s)
      \<and> (\<forall>(mac, ip) \<in> set (ipam_allocations s). in_pool (net_pool (ipam_network s)) ip)
      \<and> distinct (map snd (ipam_allocations s)))"

definition ipam_opt_alloc :: "ipam \<Rightarrow> mac_addr \<Rightarrow> ipam \<times> ipv4 option" where
  "ipam_opt_alloc s mac = (case ipam_allocate s mac of (s', r) \<Rightarrow> (s', result_ok r))"

section \<open>Allocation\<close>

lemma ipam_bound_iff:
  "hm_wf (ipam_allocations s) \<Longrightarrow> ip \<in> snd ` set (ipam_allocations s) \<longleftrightarrow> ip \<in> ran (ipam_lookup s)"
  by (force simp: ipam_lookup_def ran_def hm_mem_iff [symmetric] image_iff)

lemma hm_update_set:
  assumes "k \<notin> fst ` set m"
  shows "hm_insert k v m = m @ [(k, v)]"
  using assms unfolding hm_insert_def by (induction m) auto

lemma hm_remove_filter: "hm_remove k m = filter (\<lambda>p. fst p \<noteq> k) m"
  unfolding hm_remove_def by (auto simp: AList.delete_eq case_prod_unfold intro: filter_cong)

lemma ipam_allocate_hit: "ipam_lookup s mac = Some ip \<Longrightarrow> ipam_allocate s mac = (s, Inr ip)"
  by (simp add: ipam_allocate_def ipam_lookup_def)

lemma ipam_allocate_new:
  assumes i: "ipam_inv s" and none: "ipam_lookup s mac = None" and a: "ipam_allocate s mac = (s', Inr ip)"
  shows "ipam_inv s' \<and> ipam_network s' = ipam_network s \<and> ipam_lookup s' = (ipam_lookup s)(mac \<mapsto> ip)
    \<and> in_pool (net_pool (ipam_network s)) ip \<and> ip \<notin> ran (ipam_lookup s)
    \<and> (\<forall>w. in_pool (net_pool (ipam_network s)) w \<longrightarrow> w < ip \<longrightarrow> w \<in> ran (ipam_lookup s))"
proof -
  let ?p = "net_pool (ipam_network s)" and ?m = "ipam_allocations s"
  have wf: "hm_wf ?m" using i by (simp add: ipam_inv_def)
  obtain n where n: "find_range (unat (pool_start ?p)) (unat (pool_end ?p)) (\<lambda>c. of_nat c \<notin> snd ` set ?m) = Some n"
    and ip: "ip = of_nat n" and s': "s' = s\<lparr>ipam_allocations := hm_insert mac ip ?m\<rparr>"
    using a none by (auto simp: ipam_allocate_def ipam_lookup_def split: option.splits)
  have nb: "unat (pool_start ?p) \<le> n" "n \<le> unat (pool_end ?p)" "ip \<notin> snd ` set ?m"
    and least: "\<And>k. unat (pool_start ?p) \<le> k \<Longrightarrow> k < n \<Longrightarrow> of_nat k \<in> snd ` set ?m"
    using n ip by (auto simp: find_range_Some)
  have "n < 4294967296" using nb(2) unat_u32_less [of "pool_end ?p"] by simp
  then have uip: "unat ip = n" using ip by (simp add: unsigned_of_nat take_bit_nat_eq_self)
  have pool: "in_pool ?p ip" using nb uip by (simp add: in_pool_def word_le_nat_alt)
  have fresh: "mac \<notin> fst ` set ?m" using none by (simp add: ipam_lookup_def map_of_eq_None_iff)
  have al: "ipam_allocations s' = ?m @ [(mac, ip)]" using s' hm_update_set [OF fresh] by simp
  have "ipam_inv s'"
    unfolding ipam_inv_def al using i pool nb(3) fresh s' by (auto simp: ipam_inv_def hm_wf_def)
  moreover have "ipam_lookup s' = (ipam_lookup s)(mac \<mapsto> ip)"
    using s' by (simp add: ipam_lookup_def fun_eq_iff)
  moreover have "w \<in> ran (ipam_lookup s)" if "in_pool ?p w" "w < ip" for w
    using least [of "unat w"] that uip ipam_bound_iff [OF wf]
    by (simp add: in_pool_def word_le_nat_alt word_less_nat_alt)
  ultimately show ?thesis using pool nb(3) ipam_bound_iff [OF wf] s' by simp
qed

lemma ipam_allocate_full:
  assumes i: "ipam_inv s" and a: "ipam_allocate s mac = (s', Inl e)"
  shows "s' = s \<and> e = PoolExhausted \<and> (\<forall>w. in_pool (net_pool (ipam_network s)) w \<longrightarrow> w \<in> ran (ipam_lookup s))"
proof -
  let ?p = "net_pool (ipam_network s)" and ?m = "ipam_allocations s"
  have f: "find_range (unat (pool_start ?p)) (unat (pool_end ?p)) (\<lambda>c. of_nat c \<notin> snd ` set ?m) = None"
    and se: "s' = s" "e = PoolExhausted" using a by (auto simp: ipam_allocate_def split: option.splits)
  have "w \<in> ran (ipam_lookup s)" if "in_pool ?p w" for w
    using f [unfolded find_range_None, rule_format, of "unat w"] that ipam_bound_iff i
    by (simp add: in_pool_def word_le_nat_alt ipam_inv_def)
  then show ?thesis using se by simp
qed

interpretation ipa: lowest_free_allocator ipam_inv ipam_lookup ipam_opt_alloc
  "\<lambda>s. {ip. in_pool (net_pool (ipam_network s)) ip}" unat
proof (unfold_locales, goal_cases)
  case (1 s k v)
  then show ?case by (simp add: ipam_opt_alloc_def ipam_allocate_hit)
next
  case (2 s k s' v)
  then have "ipam_allocate s k = (s', Inr v)" by (auto simp: ipam_opt_alloc_def split: prod.splits)
  from ipam_allocate_new [OF 2(1,2) this] show ?case by (simp add: word_less_nat_alt)
next
  case (3 s k s')
  then obtain e where "ipam_allocate s k = (s', Inl e)"
    by (auto simp: ipam_opt_alloc_def result_ok_def split: prod.splits sum.splits)
  from ipam_allocate_full [OF 3(1) this] show ?case by auto
qed

lemma ipam_opt_alloc_iff: "ipam_opt_alloc s mac = (s', Some ip) \<longleftrightarrow> ipam_allocate s mac = (s', Inr ip)"
  by (auto simp: ipam_opt_alloc_def split: prod.splits)

lemma ipam_new_inv [simp]: "ipam_inv (ipam_new n)" "ipam_lookup (ipam_new n) mac = None"
  "ipam_network (ipam_new n) = n"
  by (simp_all add: ipam_inv_def ipam_new_def ipam_lookup_def hm_wf_def)

lemma ipam_allocate_inv:
  "ipam_inv s \<Longrightarrow> ipam_inv (fst (ipam_allocate s mac)) \<and> ipam_network (fst (ipam_allocate s mac)) = ipam_network s"
proof -
  assume i: "ipam_inv s"
  have f: "fst (ipam_opt_alloc s mac) = fst (ipam_allocate s mac)"
    by (simp add: ipam_opt_alloc_def split: prod.splits)
  moreover have "ipam_network (fst (ipam_allocate s mac)) = ipam_network s"
    by (simp add: ipam_allocate_def split: option.splits)
  ultimately show ?thesis using ipa.alloc_inv [OF i, of mac] by simp
qed

lemma ipam_allocate_lookup:
  "ipam_inv s \<Longrightarrow> ipam_allocate s mac = (s', Inr ip) \<Longrightarrow> ipam_lookup s' = (ipam_lookup s)(mac \<mapsto> ip)"
  by (rule ipa.alloc_frame) (simp_all add: ipam_opt_alloc_iff)

lemma ipam_lookup_pool:
  "ipam_inv s \<Longrightarrow> ipam_lookup s mac = Some ip \<Longrightarrow> in_pool (net_pool (ipam_network s)) ip"
  unfolding ipam_inv_def ipam_lookup_def by (auto dest!: map_of_SomeD)

lemma ipam_lookup_inj:
  assumes "ipam_inv s" "ipam_lookup s a = Some ip" "ipam_lookup s b = Some ip"
  shows "a = b"
proof -
  have m: "(a, ip) \<in> set (ipam_allocations s)" "(b, ip) \<in> set (ipam_allocations s)"
    using assms(2,3) by (simp_all add: ipam_lookup_def map_of_SomeD)
  have "inj_on snd (set (ipam_allocations s))" using assms(1) by (simp add: ipam_inv_def distinct_map)
  from inj_onD [OF this _ m] show ?thesis by simp
qed

section \<open>Release\<close>

lemma ipam_release_spec:
  "ipam_lookup (fst (ipam_release s mac)) = (ipam_lookup s)(mac := None)"
  "ipam_network (fst (ipam_release s mac)) = ipam_network s"
  "snd (ipam_release s mac) = (if ipam_lookup s mac = None then Inl UnknownMac else Inr ())"
  by (simp_all add: ipam_release_def ipam_lookup_def Let_def fun_eq_iff)

lemma ipam_release_inv: "ipam_inv s \<Longrightarrow> ipam_inv (fst (ipam_release s mac))"
proof -
  assume i: "ipam_inv s"
  have "ipam_allocations (fst (ipam_release s mac)) = filter (\<lambda>p. fst p \<noteq> mac) (ipam_allocations s)"
    by (simp add: ipam_release_def Let_def hm_remove_filter)
  moreover have "distinct (map snd (filter (\<lambda>p. fst p \<noteq> mac) (ipam_allocations s)))"
    using i unfolding ipam_inv_def by (simp add: distinct_map_filter)
  ultimately show ?thesis
    using i hm_wf_remove [of "ipam_allocations s" mac]
    by (auto simp: ipam_inv_def ipam_release_spec hm_remove_filter)
qed

section \<open>Snapshot and restore\<close>

text \<open>
  Restoring a list of printed bindings with distinct MACs and distinct pool addresses appends
  exactly these bindings.
\<close>

lemma restore_loop_printed:
  assumes "distinct (map fst (acc @ l))" "distinct (map snd (acc @ l))"
    "\<forall>(mac, ip) \<in> set l. in_pool (net_pool n) ip"
  shows "restore_loop n acc (map (\<lambda>(mac, ip). (show_mac mac, show_ip ip)) l) = Inr (acc @ l)"
  using assms
proof (induction l arbitrary: acc)
  case Nil
  then show ?case by simp
next
  case (Cons p l)
  obtain mac ip where p: "p = (mac, ip)" by (cases p)
  have "hm_insert mac ip acc = acc @ [(mac, ip)]"
    using Cons.prems(1) p by (intro hm_update_set) auto
  moreover have "\<not> (ip < pool_start (net_pool n) \<or> ip > pool_end (net_pool n))"
    using Cons.prems(3) p by (simp add: in_pool_def not_less)
  moreover have "ip \<notin> snd ` set acc" using Cons.prems(2) p by auto
  ultimately show ?case using Cons.IH [of "acc @ [(mac, ip)]"] Cons.prems p by simp
qed

lemma bm_extend_wf_set:
  assumes "distinct (map fst l)"
  shows "set (bm_extend [] l) = set l"
proof -
  have wf: "bm_wf (bm_extend [] l)" by (rule bm_wf_extend) simp
  have "map_of (rev l) = map_of l"
    using assms by (subst map_of_inject_set) (simp_all add: rev_map [symmetric])
  then have "map_of (bm_extend [] l) = map_of l" by (simp add: bm_get_extend)
  then show ?thesis using map_of_inject_set [OF bm_wf_distinct [OF wf] assms] by simp
qed

definition unprint :: "string \<times> string \<Rightarrow> mac_addr \<times> ipv4" where
  "unprint e = (case parse_mac (fst e) of Inr m \<Rightarrow> m | Inl _ \<Rightarrow> MacAddr 0 0 0 0 0 0, the (parse_ip (snd e)))"

lemma unprint_print [simp]: "unprint (show_mac m, show_ip i) = (m, i)"
  by (simp add: unprint_def)

text \<open>A snapshot has exactly the printed bindings.\<close>

lemma ipam_snapshot_get:
  assumes "ipam_inv s"
  shows "map_of (rev (ipam_snapshot s)) k = Some v \<longleftrightarrow>
    (\<exists>mac ip. k = show_mac mac \<and> v = show_ip ip \<and> ipam_lookup s mac = Some ip)"
proof -
  let ?pr = "\<lambda>(mac, ip). (show_mac mac, show_ip ip)"
  have d: "distinct (map fst (ipam_allocations s))" using assms by (simp add: ipam_inv_def hm_wf_def)
  then have "distinct (map fst (map ?pr (ipam_allocations s)))"
    by (simp add: distinct_map inj_on_def comp_def case_prod_unfold)
  then have st: "set (ipam_snapshot s) = ?pr ` set (ipam_allocations s)"
    unfolding ipam_snapshot_def using bm_extend_wf_set by fastforce
  have "bm_wf (ipam_snapshot s)" unfolding ipam_snapshot_def by (rule bm_wf_extend) simp
  then have "distinct (map fst (rev (ipam_snapshot s)))" using bm_wf_distinct by (simp add: rev_map [symmetric])
  then have "map_of (rev (ipam_snapshot s)) k = Some v \<longleftrightarrow> (k, v) \<in> set (ipam_snapshot s)" by simp
  moreover have "ipam_lookup s mac = Some ip \<longleftrightarrow> (mac, ip) \<in> set (ipam_allocations s)" for mac ip
    using d by (simp add: ipam_lookup_def)
  ultimately show ?thesis using st by auto
qed

lemma ipam_restore:
  assumes "ipam_inv s"
  shows "\<exists>s'. ipam_from_snapshot (ipam_network s) (ipam_snapshot s) = Inr s' \<and> ipam_inv s'
    \<and> ipam_network s' = ipam_network s \<and> ipam_lookup s' = ipam_lookup s"
proof -
  let ?pr = "\<lambda>(mac, ip). (show_mac mac, show_ip ip)"
  let ?l = "ipam_allocations s"
  define l where "l = map unprint (ipam_snapshot s)"
  have d: "distinct (map fst ?l)" "distinct (map snd ?l)"
    using assms by (simp_all add: ipam_inv_def hm_wf_def)
  have "distinct (map fst (map ?pr ?l))"
    using d(1) by (simp add: distinct_map inj_on_def comp_def case_prod_unfold)
  then have st: "set (ipam_snapshot s) = ?pr ` set ?l"
    unfolding ipam_snapshot_def using bm_extend_wf_set by fastforce
  have pl: "map ?pr l = ipam_snapshot s"
    unfolding l_def map_map by (rule map_idI) (use st in auto)
  have sl: "set l = set ?l" unfolding l_def set_map st by force
  have "bm_wf (ipam_snapshot s)" unfolding ipam_snapshot_def by (rule bm_wf_extend) simp
  then have "distinct (ipam_snapshot s)" using bm_wf_distinct distinct_map by blast
  then have dl: "distinct l" using pl distinct_map by metis
  have df: "distinct (map fst l)" using d(1) dl sl by (metis distinct_map)
  have ds: "distinct (map snd l)" using d(2) dl sl by (metis distinct_map)
  have pool: "\<forall>(mac, ip) \<in> set l. in_pool (net_pool (ipam_network s)) ip"
    using assms sl by (simp add: ipam_inv_def)
  have r: "restore_loop (ipam_network s) [] (ipam_snapshot s) = Inr l"
    using restore_loop_printed [of "[]" l "ipam_network s"] df ds pool pl by simp
  have "map_of l = map_of ?l" using sl df d(1) by (simp add: map_of_inject_set)
  then show ?thesis
    using r df ds pool by (simp add: ipam_from_snapshot_def ipam_lookup_def ipam_inv_def hm_wf_def fun_eq_iff)
qed

text \<open>Every snapshot that restores gives a state that satisfies the invariant, or is refused.\<close>

lemma restore_loop_inv:
  assumes "restore_loop n acc snap = Inr allocs" "hm_wf acc" "\<forall>(mac, ip) \<in> set acc. in_pool (net_pool n) ip"
  shows "hm_wf allocs \<and> (\<forall>(mac, ip) \<in> set allocs. in_pool (net_pool n) ip)"
  using assms
proof (induction n acc snap rule: restore_loop.induct)
  case (2 n acc mt it rest)
  then obtain mac ip where m: "parse_mac mt = Inr mac" "parse_ip it = Some ip"
    and p: "\<not> (ip < pool_start (net_pool n) \<or> ip > pool_end (net_pool n))" "ip \<notin> snd ` set acc"
    and r: "restore_loop n (hm_insert mac ip acc) rest = Inr allocs"
    by (auto split: sum.splits option.splits if_splits)
  have "set (hm_insert mac ip acc) \<subseteq> insert (mac, ip) (set acc)"
    unfolding hm_insert_def by (induction acc) auto
  then have "\<forall>(mac, ip) \<in> set (hm_insert mac ip acc). in_pool (net_pool n) ip"
    using "2.prems"(3) p by (fastforce simp: in_pool_def not_less)
  then show ?case using "2.IH" [OF m(1,2) p r] "2.prems"(2) by blast
qed simp

section \<open>Properties\<close>

text \<open>
  C25: The reservation contract of \<open>Ipam::allocate\<close> over a valid network: the bindings stay
  injective and inside the pool, so no two MACs ever share an address and the gateway is never
  handed out; a bound MAC gets the address it has and nothing changes; a new MAC gets the lowest free
  pool address and every other binding is unchanged; and failure means that the MAC is new and the
  whole pool is bound.
\<close>

theorem ipam_allocate_contract:
  assumes "ipam_inv s" "network_ok (ipam_network s)" "ipam_allocate s mac = (s', r)"
  shows "ipam_inv s' \<and> (case r of
      Inl e \<Rightarrow> e = PoolExhausted \<and> s' = s \<and> ipam_lookup s mac = None
        \<and> (\<forall>w. in_pool (net_pool (ipam_network s)) w \<longrightarrow> w \<in> ran (ipam_lookup s))
    | Inr ip \<Rightarrow> ipam_lookup s' = (ipam_lookup s)(mac \<mapsto> ip)
        \<and> in_cidr (net_cidr (ipam_network s)) ip \<and> ip \<noteq> net_gateway (ipam_network s)
        \<and> (\<forall>bound. ipam_lookup s mac = Some bound \<longrightarrow> ip = bound \<and> s' = s)
        \<and> (ipam_lookup s mac = None \<longrightarrow> ip \<notin> ran (ipam_lookup s)
            \<and> (\<forall>w. in_pool (net_pool (ipam_network s)) w \<and> w < ip \<longrightarrow> w \<in> ran (ipam_lookup s))))"
proof -
  have i': "ipam_inv s'" using ipam_allocate_inv [OF assms(1), of mac] assms(3) by simp
  show ?thesis
  proof (cases r)
    case (Inl e)
    have "ipam_lookup s mac = None" using ipam_allocate_hit [of s mac] assms(3) Inl by (cases "ipam_lookup s mac") auto
    then show ?thesis using Inl i' ipam_allocate_full [OF assms(1)] assms(3) by simp
  next
    case (Inr ip)
    have pool: "in_pool (net_pool (ipam_network s)) ip" if "ipam_lookup s mac = Some ip \<or> in_pool (net_pool (ipam_network s)) ip"
      using that ipam_lookup_pool [OF assms(1)] by blast
    show ?thesis
    proof (cases "ipam_lookup s mac")
      case None
      from ipam_allocate_new [OF assms(1) None assms(3) [unfolded Inr]] show ?thesis
        using None Inr i' pool_in_cidr [OF assms(2)] by auto
    next
      case (Some w)
      then have "s' = s" "ip = w" using ipam_allocate_hit [OF Some] assms(3) Inr by auto
      then show ?thesis
        using Inr i' Some pool pool_in_cidr [OF assms(2), of ip] by (simp add: fun_upd_idem)
    qed
  qed
qed

text \<open>
  Reservations survive a restart. Taking a snapshot and restoring it on the same network
  succeeds and gives back exactly the same bindings, whatever order the hash map iterates in.
\<close>

lemma ipam_snapshot_roundtrip:
  assumes "ipam_inv s"
  shows "\<exists>s'. ipam_from_snapshot (ipam_network s) (ipam_snapshot s) = Inr s'
    \<and> ipam_inv s' \<and> ipam_network s' = ipam_network s \<and> (\<forall>mac. ipam_lookup s' mac = ipam_lookup s mac)"
  using ipam_restore [OF assms] by auto

text \<open>Witnesses: one allocator on a pool of two addresses.\<close>

definition tiny_network :: network where
  "tiny_network = \<lparr>net_name = ''lab'', net_cidr = \<lparr>cidr_addr = 0xC0A87C00, cidr_prefix = 24\<rparr>,
     net_gateway = 0xC0A87C01, net_pool = \<lparr>pool_start = 0xC0A87C0A, pool_end = 0xC0A87C0B\<rparr>\<rparr>"

lemma tiny_network_ok: "network_ok tiny_network"
  by (simp add: tiny_network_def network_ok_def cidr_ok_def in_cidr_def in_pool_def cidr_mask_24
      trim_eval)

theorem ipam_allocate_contract_witness:
  "snd (ipam_allocate (ipam_new tiny_network) (MacAddr 2 0 0 0 0 1)) = Inr 0xC0A87C0A
   \<and> ipam_inv (fst (ipam_allocate (ipam_new tiny_network) (MacAddr 2 0 0 0 0 1)))"
proof -
  have a: "ipam_allocate (ipam_new tiny_network) (MacAddr 2 0 0 0 0 1)
      = (ipam_new tiny_network\<lparr>ipam_allocations := [(MacAddr 2 0 0 0 0 1, 0xC0A87C0A)]\<rparr>, Inr 0xC0A87C0A)"
    by (simp add: ipam_allocate_def ipam_new_def tiny_network_def find_range.simps hm_insert_def)
  have "network_ok (ipam_network (ipam_new tiny_network))" using tiny_network_ok by simp
  from ipam_allocate_contract [OF ipam_new_inv(1) this a] a show ?thesis by simp
qed

end
