(* ===== verification/Rpc_Server.thy ===== *)
theory Rpc_Server
  imports Rpc_Protocol State_Store Ipam_Alloc
begin

text \<open>
  The control-plane server of \<open>crates/k8netd-rpc/src/server.rs\<close>: the trait of the twelve
  operations as a record of functions, the router that dispatches a request to them, the
  in-memory implementation, and the transport that answers one request line per connection.

  The locale \<open>control_plane_impl\<close> is the contract between the router and an implementation: the
  operations keep the implementation's invariant. What the router and the transport do with any
  such implementation is proved there once; the in-memory control plane and the dataplane are
  its instances.
\<close>

section \<open>The trait and the router\<close>

type_synonym ('s, 'v) cp_op = "'s \<Rightarrow> 'v \<Rightarrow> 's \<times> (rpc_error, 'v) result"

record ('s, 'v) control_plane =
  cp_create_network :: "('s, 'v) cp_op"
  cp_delete_network :: "('s, 'v) cp_op"
  cp_get_network :: "('s, 'v) cp_op"
  cp_create_port :: "('s, 'v) cp_op"
  cp_delete_port :: "('s, 'v) cp_op"
  cp_get_port :: "('s, 'v) cp_op"
  cp_attach_port :: "('s, 'v) cp_op"
  cp_detach_port :: "('s, 'v) cp_op"
  cp_allocate_ip :: "('s, 'v) cp_op"
  cp_release_ip :: "('s, 'v) cp_op"
  cp_publish_port :: "('s, 'v) cp_op"
  cp_unpublish_port :: "('s, 'v) cp_op"

definition DEFAULT_PUBLISH_RANGE :: "u16 \<times> u16" where
  "DEFAULT_PUBLISH_RANGE = (20000, 21000)"

definition router_dispatch ::
  "'v json_api \<Rightarrow> ('s, 'v) control_plane \<Rightarrow> 's \<Rightarrow> 'v request \<Rightarrow> 's \<times> 'v response" where
  "router_dispatch J cp s req =
     (let params = (case rq_params req of None \<Rightarrow> jn_null J | Some p \<Rightarrow> p);
          m = rq_method req;
          (s', r) =
            (if m = ''CreateNetwork'' then cp_create_network cp s params
             else if m = ''DeleteNetwork'' then cp_delete_network cp s params
             else if m = ''GetNetwork'' then cp_get_network cp s params
             else if m = ''CreatePort'' then cp_create_port cp s params
             else if m = ''DeletePort'' then cp_delete_port cp s params
             else if m = ''GetPort'' then cp_get_port cp s params
             else if m = ''AttachPort'' then cp_attach_port cp s params
             else if m = ''DetachPort'' then cp_detach_port cp s params
             else if m = ''AllocateIP'' then cp_allocate_ip cp s params
             else if m = ''ReleaseIP'' then cp_release_ip cp s params
             else if m = ''PublishPort'' then cp_publish_port cp s params
             else if m = ''UnpublishPort'' then cp_unpublish_port cp s params
             else (s, Inl MethodNotFound))
      in (s', case r of Inr v \<Rightarrow> response_ok (rq_id req) v | Inl e \<Rightarrow> response_err (rq_id req) e))"

section \<open>Parameters\<close>

definition str_param :: "'v json_api \<Rightarrow> 'v \<Rightarrow> string \<Rightarrow> (rpc_error, string) result" where
  "str_param J params key = ok_or InvalidParams (Option.bind (jn_get J params key) (jn_as_str J))"

definition u16_param :: "'v json_api \<Rightarrow> 'v \<Rightarrow> string \<Rightarrow> (rpc_error, u16) result" where
  "u16_param J params key =
     ok_or InvalidParams
       (Option.bind (Option.bind (jn_get J params key) (jn_as_u64 J))
          (\<lambda>v. if v \<le> 65535 then Some (ucast v) else None))"

definition ipam_error_rpc :: "ipam_error \<Rightarrow> rpc_error" where
  "ipam_error_rpc e = (case e of PoolExhausted \<Rightarrow> Conflict | _ \<Rightarrow> Internal)"

definition mac_param :: "'v json_api \<Rightarrow> 'v \<Rightarrow> string \<Rightarrow> (rpc_error, mac_addr) result" where
  "mac_param J params key =
     (case str_param J params key of
        Inl e \<Rightarrow> Inl e
      | Inr s \<Rightarrow> (case parse_mac s of Inl _ \<Rightarrow> Inl InvalidParams | Inr m \<Rightarrow> Inr m))"

section \<open>The in-memory control plane\<close>

record 'v mem_network =
  mn_network :: network
  mn_ipam :: ipam
  mn_created_with :: 'v

record 'v mem_plane =
  mp_networks :: "(string, 'v mem_network) btree_map"
  mp_ports :: "(string, port) btree_map"
  mp_publish_range :: "u16 \<times> u16"
  mp_publish_table :: publish_table

definition mem_default :: "'v mem_plane" where
  "mem_default = \<lparr>mp_networks = [], mp_ports = [], mp_publish_range = DEFAULT_PUBLISH_RANGE,
     mp_publish_table = pt_default\<rparr>"

definition mem_with_publish_range :: "u16 \<Rightarrow> u16 \<Rightarrow> 'v mem_plane" where
  "mem_with_publish_range start fin = mem_default\<lparr>mp_publish_range := (start, fin)\<rparr>"

definition mem_from_store :: "'v state_store \<Rightarrow> 'v mem_plane" where
  "mem_from_store store = mem_default\<lparr>mp_publish_table := st_publish_table store\<rparr>"

text \<open>The pool and network construction shared by both implementations of \<open>create_network\<close>.\<close>

definition build_network :: "string \<Rightarrow> string \<Rightarrow> string \<Rightarrow> string \<Rightarrow> string \<Rightarrow> (rpc_error, network) result" where
  "build_network nm cidr gateway pool_start_str pool_end_str =
     (case parse_ip pool_start_str of None \<Rightarrow> Inl InvalidParams | Some a \<Rightarrow>
     (case parse_ip pool_end_str of None \<Rightarrow> Inl InvalidParams | Some b \<Rightarrow>
     (case ip_pool_new a b of Inl _ \<Rightarrow> Inl InvalidParams | Inr pool \<Rightarrow>
     (case network_new nm cidr gateway pool of Inl _ \<Rightarrow> Inl InvalidParams | Inr n \<Rightarrow> Inr n))))"

definition mem_create_network :: "'v json_api \<Rightarrow> ('v mem_plane, 'v) cp_op" where
  "mem_create_network J s params =
     try_in s (str_param J params ''name'') (\<lambda>nm.
     try_in s (str_param J params ''cidr'') (\<lambda>cidr.
     try_in s (str_param J params ''gateway'') (\<lambda>gateway.
     try_in s (str_param J params ''poolStart'') (\<lambda>ps.
     try_in s (str_param J params ''poolEnd'') (\<lambda>pe.
       case map_of (mp_networks s) nm of
         Some entry \<Rightarrow> if mn_created_with entry = params then (s, Inr (jn_null J)) else (s, Inl Conflict)
       | None \<Rightarrow>
           try_in s (build_network nm cidr gateway ps pe) (\<lambda>net.
             (s\<lparr>mp_networks := bm_insert nm
                  \<lparr>mn_network = net, mn_ipam = ipam_new net, mn_created_with = params\<rparr> (mp_networks s)\<rparr>,
              Inr (jn_null J))))))))"

definition mem_delete_network :: "'v json_api \<Rightarrow> ('v mem_plane, 'v) cp_op" where
  "mem_delete_network J s params =
     try_in s (str_param J params ''name'') (\<lambda>nm.
       (s\<lparr>mp_networks := bm_remove nm (mp_networks s)\<rparr>,
        ok_or NotFound (map_option (\<lambda>_. jn_null J) (map_of (mp_networks s) nm))))"

definition mem_get_network :: "'v json_api \<Rightarrow> ('v mem_plane, 'v) cp_op" where
  "mem_get_network J s params =
     try_in s (str_param J params ''name'') (\<lambda>nm.
     try_in s (ok_or NotFound (map_of (mp_networks s) nm)) (\<lambda>e.
       (s, Inr (jn_object J [(''name'', jn_string J (net_name (mn_network e))),
                  (''cidr'', jn_string J (show_cidr (net_cidr (mn_network e)))),
                  (''gateway'', jn_string J (show_ip (net_gateway (mn_network e))))]))))"

definition mem_create_port :: "'v json_api \<Rightarrow> ('v mem_plane, 'v) cp_op" where
  "mem_create_port J s params =
     try_in s (str_param J params ''name'') (\<lambda>nm.
       if map_of (mp_ports s) nm \<noteq> None then (s, Inr (jn_null J))
       else case port_new nm (''/run/user/1000/k8snet/'' @ nm @ ''.sock'') of
         Inl _ \<Rightarrow> (s, Inl InvalidParams)
       | Inr p \<Rightarrow> (s\<lparr>mp_ports := bm_insert nm p (mp_ports s)\<rparr>, Inr (jn_null J)))"

definition mem_delete_port :: "'v json_api \<Rightarrow> ('v mem_plane, 'v) cp_op" where
  "mem_delete_port J s params =
     try_in s (str_param J params ''name'') (\<lambda>nm.
       (s\<lparr>mp_publish_table := fst (pt_remove_port (mp_publish_table s) nm),
          mp_ports := bm_remove nm (mp_ports s)\<rparr>,
        ok_or NotFound (map_option (\<lambda>_. jn_null J) (map_of (mp_ports s) nm))))"

definition mem_get_port :: "'v json_api \<Rightarrow> ('v mem_plane, 'v) cp_op" where
  "mem_get_port J s params =
     try_in s (str_param J params ''name'') (\<lambda>nm.
     try_in s (ok_or NotFound (map_of (mp_ports s) nm)) (\<lambda>p.
       (s, Inr (jn_object J [(''name'', jn_string J (port_name p)),
                  (''network'', jn_opt_string J (port_network p)),
                  (''mac'', jn_opt_string J (map_option show_mac (port_mac p))),
                  (''ip'', jn_opt_string J (map_option show_ip (port_ip p)))]))))"

definition mem_attach_port :: "'v json_api \<Rightarrow> ('v mem_plane, 'v) cp_op" where
  "mem_attach_port J s params =
     try_in s (str_param J params ''port'') (\<lambda>port_nm.
     try_in s (str_param J params ''network'') (\<lambda>net_nm.
     try_in s (mac_param J params ''mac'') (\<lambda>mac.
       case map_of (mp_ports s) port_nm of
         None \<Rightarrow> (s, Inl NotFound)
       | Some p \<Rightarrow>
           try_in s (ok_or NotFound (map_of (mp_networks s) net_nm)) (\<lambda>entry.
             case ipam_allocate (mn_ipam entry) mac of
               (i', Inl e) \<Rightarrow>
                 (s\<lparr>mp_networks := bm_insert net_nm (entry\<lparr>mn_ipam := i'\<rparr>) (mp_networks s)\<rparr>, Inl (ipam_error_rpc e))
             | (i', Inr ip) \<Rightarrow>
                 let s' = s\<lparr>mp_networks := bm_insert net_nm (entry\<lparr>mn_ipam := i'\<rparr>) (mp_networks s)\<rparr> in
                 if port_network p = Some net_nm \<and> port_mac p = Some mac then (s', Inr (jn_null J))
                 else if port_network p \<noteq> None then (s', Inl Conflict)
                 else (s'\<lparr>mp_ports := bm_insert port_nm (port_attach p net_nm mac ip) (mp_ports s')\<rparr>,
                       Inr (jn_null J))))))"

definition mem_detach_port :: "'v json_api \<Rightarrow> ('v mem_plane, 'v) cp_op" where
  "mem_detach_port J s params =
     try_in s (str_param J params ''name'') (\<lambda>nm.
     try_in s (ok_or NotFound (map_of (mp_ports s) nm)) (\<lambda>p.
       (s\<lparr>mp_ports := bm_insert nm (port_detach p) (mp_ports s),
          mp_publish_table := fst (pt_remove_port (mp_publish_table s) nm)\<rparr>,
        Inr (jn_null J))))"

definition mem_allocate_ip :: "'v json_api \<Rightarrow> ('v mem_plane, 'v) cp_op" where
  "mem_allocate_ip J s params =
     try_in s (str_param J params ''network'') (\<lambda>net.
     try_in s (mac_param J params ''mac'') (\<lambda>mac.
     try_in s (ok_or NotFound (map_of (mp_networks s) net)) (\<lambda>entry.
       case ipam_allocate (mn_ipam entry) mac of
         (i', r) \<Rightarrow>
           (s\<lparr>mp_networks := bm_insert net (entry\<lparr>mn_ipam := i'\<rparr>) (mp_networks s)\<rparr>,
            case r of Inl e \<Rightarrow> Inl (ipam_error_rpc e) | Inr ip \<Rightarrow> Inr (jn_string J (show_ip ip))))))"

definition mem_release_ip :: "'v json_api \<Rightarrow> ('v mem_plane, 'v) cp_op" where
  "mem_release_ip J s params =
     try_in s (str_param J params ''network'') (\<lambda>net.
     try_in s (mac_param J params ''mac'') (\<lambda>mac.
     try_in s (ok_or NotFound (map_of (mp_networks s) net)) (\<lambda>entry.
       case ipam_release (mn_ipam entry) mac of
         (i', r) \<Rightarrow>
           (s\<lparr>mp_networks := bm_insert net (entry\<lparr>mn_ipam := i'\<rparr>) (mp_networks s)\<rparr>,
            case r of Inl UnknownMac \<Rightarrow> Inl NotFound | Inl e \<Rightarrow> Inl (ipam_error_rpc e)
            | Inr _ \<Rightarrow> Inr (jn_null J)))))"

definition mem_publish_port :: "'v json_api \<Rightarrow> ('v mem_plane, 'v) cp_op" where
  "mem_publish_port J s params =
     try_in s (str_param J params ''port'') (\<lambda>port_nm.
     try_in s (u16_param J params ''vm_port'') (\<lambda>vm_port.
     try_in s (ok_or NotFound (map_of (mp_ports s) port_nm)) (\<lambda>p.
       if port_network p = None then (s, Inl NotFound)
       else case pt_get (mp_publish_table s) port_nm vm_port of
         Some host \<Rightarrow> (s, Inr (jn_object J [(''host_port'', jn_number J (ucast host))]))
       | None \<Rightarrow>
           (case pt_allocate (mp_publish_table s) port_nm vm_port (mp_publish_range s) of
              (t', None) \<Rightarrow> (s\<lparr>mp_publish_table := t'\<rparr>, Inl Conflict)
            | (t', Some host) \<Rightarrow>
                (s\<lparr>mp_publish_table := t'\<rparr>, Inr (jn_object J [(''host_port'', jn_number J (ucast host))]))))))"

definition mem_unpublish_port :: "'v json_api \<Rightarrow> ('v mem_plane, 'v) cp_op" where
  "mem_unpublish_port J s params =
     try_in s (str_param J params ''port'') (\<lambda>port_nm.
     try_in s (u16_param J params ''vm_port'') (\<lambda>vm_port.
       case pt_remove (mp_publish_table s) port_nm vm_port of
         (t', None) \<Rightarrow> (s\<lparr>mp_publish_table := t'\<rparr>, Inl NotFound)
       | (t', Some _) \<Rightarrow> (s\<lparr>mp_publish_table := t'\<rparr>, Inr (jn_null J))))"

definition mem_control_plane :: "'v json_api \<Rightarrow> ('v mem_plane, 'v) control_plane" where
  "mem_control_plane J =
     \<lparr>cp_create_network = mem_create_network J, cp_delete_network = mem_delete_network J,
      cp_get_network = mem_get_network J, cp_create_port = mem_create_port J,
      cp_delete_port = mem_delete_port J, cp_get_port = mem_get_port J,
      cp_attach_port = mem_attach_port J, cp_detach_port = mem_detach_port J,
      cp_allocate_ip = mem_allocate_ip J, cp_release_ip = mem_release_ip J,
      cp_publish_port = mem_publish_port J, cp_unpublish_port = mem_unpublish_port J\<rparr>"

section \<open>Transport\<close>

text \<open>
  One accepted connection: what arrives on it until the peer closes, whether reading a line of
  text succeeds (an I/O error and bytes that are not UTF-8 fail alike), and whether writing the
  answer succeeds.
\<close>

record connection =
  cn_input :: string
  cn_read_ok :: bool
  cn_write_ok :: bool

text \<open>\<open>read_line\<close>: up to and including the first newline, or to the end.\<close>

definition read_line :: "string \<Rightarrow> string" where
  "read_line s = takeWhile (\<lambda>c. c \<noteq> CHR 0x0A) s @ take 1 (dropWhile (\<lambda>c. c \<noteq> CHR 0x0A) s)"

text \<open>
  The result is the number of requests handled, with what was written; \<open>Inl\<close> is an I/O error.
\<close>

definition handle_connection ::
  "'v json_api \<Rightarrow> (string \<Rightarrow> 'v raw_request option) \<Rightarrow> ('s, 'v) control_plane \<Rightarrow> connection \<Rightarrow> 's \<Rightarrow>
     's \<times> (string, nat \<times> string) result" where
  "handle_connection J raw_of_text cp conn s =
     (if \<not> cn_read_ok conn then (s, Inl ''read'')
      else let line = read_line (cn_input conn) in
        if line = [] then (s, Inr (0, []))
        else let (s', response) =
               (case request_parse raw_of_text (trim_end line) of
                  Inr req \<Rightarrow> router_dispatch J cp s req
                | Inl e \<Rightarrow> (s, response_err (jn_null J) e))
             in case jn_to_text J (response_to_value J response) of
                  Inl e \<Rightarrow> (s', Inl e)
                | Inr body \<Rightarrow>
                    if cn_write_ok conn then (s', Inr (1, body @ [CHR 0x0A])) else (s', Inl ''write''))"

text \<open>
  The accept loop over the connections that arrive: an I/O error on one connection is skipped,
  a failed accept ends the server. The answers are collected per connection.
\<close>

fun serve_loop ::
  "'v json_api \<Rightarrow> (string \<Rightarrow> 'v raw_request option) \<Rightarrow> ('s, 'v) control_plane \<Rightarrow>
     (string, connection) result list \<Rightarrow> 's \<Rightarrow> 's \<times> string option list \<times> (string, unit) result" where
  "serve_loop J raw_of_text cp [] s = (s, [], Inr ())"
| "serve_loop J raw_of_text cp (Inl e # incoming) s = (s, [], Inl e)"
| "serve_loop J raw_of_text cp (Inr conn # incoming) s =
     (case handle_connection J raw_of_text cp conn s of
        (s', r) \<Rightarrow>
          (case serve_loop J raw_of_text cp incoming s' of
             (s'', outs, fin) \<Rightarrow>
               (s'', (case r of Inl _ \<Rightarrow> None | Inr (n, out) \<Rightarrow> Some out) # outs, fin)))"

text \<open>\<open>serve\<close> makes the directory, unlinks a stale socket, binds, and runs the loop.\<close>

definition serve ::
  "'v json_api \<Rightarrow> (string \<Rightarrow> 'v raw_request option) \<Rightarrow> ('s, 'v) control_plane \<Rightarrow>
     (string, unit) result \<Rightarrow> (string, unit) result \<Rightarrow> (string, connection) result list \<Rightarrow> 's \<Rightarrow>
     's \<times> string option list \<times> (string, unit) result" where
  "serve J raw_of_text cp mkdir bind incoming s =
     (case mkdir of
        Inl e \<Rightarrow> (s, [], Inl e)
      | Inr _ \<Rightarrow> (case bind of Inl e \<Rightarrow> (s, [], Inl e) | Inr _ \<Rightarrow> serve_loop J raw_of_text cp incoming s))"

section \<open>Invariant of the in-memory control plane\<close>

definition mem_network_ok :: "string \<Rightarrow> 'v mem_network \<Rightarrow> bool" where
  "mem_network_ok nm e =
     (network_ok (mn_network e) \<and> net_name (mn_network e) = nm \<and> ipam_network (mn_ipam e) = mn_network e
      \<and> ipam_inv (mn_ipam e))"

definition mem_port_ok :: "string \<Rightarrow> port \<Rightarrow> bool" where
  "mem_port_ok nm p =
     (port_name p = nm \<and> (port_network p = None \<longleftrightarrow> port_mac p = None) \<and> (port_mac p = None \<longleftrightarrow> port_ip p = None))"

text \<open>
  Networks are sound and their allocators in order; ports are attached completely or not at all;
  host ports are unique, and only attached ports have published entries.
\<close>

definition mem_inv :: "'v mem_plane \<Rightarrow> bool" where
  "mem_inv s =
     (bm_wf (mp_networks s) \<and> bm_wf (mp_ports s) \<and> pt_wf (mp_publish_table s) \<and> pt_inj (mp_publish_table s)
      \<and> (\<forall>nm e. map_of (mp_networks s) nm = Some e \<longrightarrow> mem_network_ok nm e)
      \<and> (\<forall>nm p. map_of (mp_ports s) nm = Some p \<longrightarrow> mem_port_ok nm p)
      \<and> (\<forall>nm v h. pt_get (mp_publish_table s) nm v = Some h \<longrightarrow>
            (\<exists>p. map_of (mp_ports s) nm = Some p \<and> port_network p \<noteq> None)))"

text \<open>The method table the router walks through.\<close>

definition cp_methods :: "('s, 'v) control_plane \<Rightarrow> (string \<times> ('s, 'v) cp_op) list" where
  "cp_methods cp =
     [(''CreateNetwork'', cp_create_network cp), (''DeleteNetwork'', cp_delete_network cp),
      (''GetNetwork'', cp_get_network cp), (''CreatePort'', cp_create_port cp),
      (''DeletePort'', cp_delete_port cp), (''GetPort'', cp_get_port cp),
      (''AttachPort'', cp_attach_port cp), (''DetachPort'', cp_detach_port cp),
      (''AllocateIP'', cp_allocate_ip cp), (''ReleaseIP'', cp_release_ip cp),
      (''PublishPort'', cp_publish_port cp), (''UnpublishPort'', cp_unpublish_port cp)]"

section \<open>The router\<close>

lemma try_in_split:
  "P (try_in s r f) \<longleftrightarrow> (\<forall>e. r = Inl e \<longrightarrow> P (s, Inl e)) \<and> (\<forall>v. r = Inr v \<longrightarrow> P (f v))"
  by (cases r) (simp_all add: try_in_def)

lemma try_in_simps [simp]: "try_in s (Inl e) f = (s, Inl e)" "try_in s (Inr v) f = f v"
  by (simp_all add: try_in_def)

lemma router_dispatch_table:
  "router_dispatch J cp s req =
     (case (case map_of (cp_methods cp) (rq_method req) of
              None \<Rightarrow> (s, Inl MethodNotFound)
            | Some f \<Rightarrow> f s (case rq_params req of None \<Rightarrow> jn_null J | Some p \<Rightarrow> p)) of
        (s', r) \<Rightarrow> (s', case r of Inr v \<Rightarrow> response_ok (rq_id req) v | Inl e \<Rightarrow> response_err (rq_id req) e))"
proof -
  let ?p = "case rq_params req of None \<Rightarrow> jn_null J | Some p \<Rightarrow> p" and ?m = "rq_method req"
  have "(case map_of (cp_methods cp) ?m of None \<Rightarrow> (s, Inl MethodNotFound) | Some f \<Rightarrow> f s ?p) =
       (if ?m = ''CreateNetwork'' then cp_create_network cp s ?p
        else if ?m = ''DeleteNetwork'' then cp_delete_network cp s ?p
        else if ?m = ''GetNetwork'' then cp_get_network cp s ?p
        else if ?m = ''CreatePort'' then cp_create_port cp s ?p
        else if ?m = ''DeletePort'' then cp_delete_port cp s ?p
        else if ?m = ''GetPort'' then cp_get_port cp s ?p
        else if ?m = ''AttachPort'' then cp_attach_port cp s ?p
        else if ?m = ''DetachPort'' then cp_detach_port cp s ?p
        else if ?m = ''AllocateIP'' then cp_allocate_ip cp s ?p
        else if ?m = ''ReleaseIP'' then cp_release_ip cp s ?p
        else if ?m = ''PublishPort'' then cp_publish_port cp s ?p
        else if ?m = ''UnpublishPort'' then cp_unpublish_port cp s ?p
        else (s, Inl MethodNotFound))"
    unfolding cp_methods_def map_of.simps fst_conv snd_conv fun_upd_apply
    by (simp only: option.case if_distrib [of "case_option _ _"] eq_commute [of "rq_method req"])
  then show ?thesis unfolding router_dispatch_def Let_def by simp
qed

text \<open>What the router relies on of an implementation, and what then holds of the server.\<close>

locale control_plane_impl =
  fixes cp :: "('s, 'v) control_plane"
    and inv :: "'s \<Rightarrow> bool"
  assumes op_inv: "(m, f) \<in> set (cp_methods cp) \<Longrightarrow> inv s \<Longrightarrow> inv (fst (f s params))"
begin

lemma dispatch_inv: "inv s \<Longrightarrow> inv (fst (router_dispatch J cp s req))"
proof -
  assume i: "inv s"
  show ?thesis
  proof (cases "map_of (cp_methods cp) (rq_method req)")
    case None
    then show ?thesis using i by (simp add: router_dispatch_table)
  next
    case (Some f)
    let ?p = "case rq_params req of None \<Rightarrow> jn_null J | Some p \<Rightarrow> p"
    have "inv (fst (f s ?p))" using op_inv [OF map_of_SomeD [OF Some] i] .
    then show ?thesis using Some by (simp add: router_dispatch_table case_prod_unfold)
  qed
qed

lemma connection_inv: "inv s \<Longrightarrow> inv (fst (handle_connection J raw cp conn s))"
  using dispatch_inv [of s J]
  by (auto simp: handle_connection_def Let_def split: prod.splits sum.splits) (metis fst_conv)+

lemma serve_inv: "inv s \<Longrightarrow> inv (fst (serve_loop J raw cp incoming s))"
proof (induction incoming arbitrary: s)
  case (Cons c incoming)
  show ?case
  proof (cases c)
    case (Inl e)
    then show ?thesis using Cons.prems by simp
  next
    case (Inr conn)
    have "inv (fst (handle_connection J raw cp conn s))" using Cons.prems by (rule connection_inv)
    then show ?thesis using Cons.IH Inr by (simp add: case_prod_unfold)
  qed
qed simp

end

section \<open>The in-memory control plane is an implementation\<close>

lemma mem_invD:
  assumes "mem_inv s"
  shows "bm_wf (mp_networks s)" "bm_wf (mp_ports s)" "pt_wf (mp_publish_table s)" "pt_inj (mp_publish_table s)"
    "map_of (mp_networks s) nm = Some e \<Longrightarrow> mem_network_ok nm e"
    "map_of (mp_ports s) nm = Some p \<Longrightarrow> mem_port_ok nm p"
    "pt_get (mp_publish_table s) nm v = Some h \<Longrightarrow> \<exists>p. map_of (mp_ports s) nm = Some p \<and> port_network p \<noteq> None"
  using assms unfolding mem_inv_def by blast+

lemma mem_upd_swap: "s\<lparr>mp_ports := ps, mp_publish_table := t\<rparr> = s\<lparr>mp_publish_table := t, mp_ports := ps\<rparr>"
  by (cases s) simp

lemma mem_inv_put_network:
  "mem_inv s \<Longrightarrow> mem_network_ok nm e \<Longrightarrow> mem_inv (s\<lparr>mp_networks := bm_insert nm e (mp_networks s)\<rparr>)"
  unfolding mem_inv_def by simp

lemma mem_inv_drop_network:
  "mem_inv s \<Longrightarrow> mem_inv (s\<lparr>mp_networks := bm_remove nm (mp_networks s)\<rparr>)"
  unfolding mem_inv_def by simp

lemma mem_inv_put_port:
  "mem_inv s \<Longrightarrow> mem_port_ok nm p \<Longrightarrow> port_network p \<noteq> None \<or> (\<forall>v. pt_get (mp_publish_table s) nm v = None) \<Longrightarrow>
     mem_inv (s\<lparr>mp_ports := bm_insert nm p (mp_ports s)\<rparr>)"
  unfolding mem_inv_def by auto

text \<open>Forgetting a port's publish entries, then changing or removing the port.\<close>

lemma mem_inv_unpublish_all:
  assumes "mem_inv s"
  shows "mem_inv (s\<lparr>mp_publish_table := fst (pt_remove_port (mp_publish_table s) nm)\<rparr>)"
    and "pt_get (fst (pt_remove_port (mp_publish_table s) nm)) nm v = None"
proof -
  let ?t = "mp_publish_table s"
  have wf: "pt_wf ?t" "pt_inj ?t" using mem_invD(3,4) [OF assms] .
  note r = pt_remove_port_spec(1) [OF wf(1)] and i = pt_remove_inv(2) [OF wf, of nm]
  show "pt_get (fst (pt_remove_port ?t nm)) nm v = None" by (simp add: r)
  show "mem_inv (s\<lparr>mp_publish_table := fst (pt_remove_port ?t nm)\<rparr>)"
    using assms i unfolding mem_inv_def by (auto simp: r split: if_splits)
qed

lemma mem_inv_drop_port:
  "mem_inv s \<Longrightarrow> \<forall>v. pt_get (mp_publish_table s) nm v = None \<Longrightarrow> mem_inv (s\<lparr>mp_ports := bm_remove nm (mp_ports s)\<rparr>)"
  unfolding mem_inv_def by auto

lemma mem_network_ok_ipam:
  assumes "mem_network_ok nm e" "ipam_inv i" "ipam_network i = ipam_network (mn_ipam e)"
  shows "mem_network_ok nm (e\<lparr>mn_ipam := i\<rparr>)"
  using assms by (simp add: mem_network_ok_def)

lemma mem_allocate_keeps:
  assumes "mem_inv s" "map_of (mp_networks s) nm = Some e" "ipam_allocate (mn_ipam e) mac = (i, r)"
  shows "mem_inv (s\<lparr>mp_networks := bm_insert nm (e\<lparr>mn_ipam := i\<rparr>) (mp_networks s)\<rparr>)"
proof -
  have e: "mem_network_ok nm e" using mem_invD(5) [OF assms(1,2)] .
  then have "ipam_inv i \<and> ipam_network i = ipam_network (mn_ipam e)"
    using ipam_allocate_inv [of "mn_ipam e" mac] assms(3) by (simp add: mem_network_ok_def)
  then show ?thesis using e assms(1) by (intro mem_inv_put_network mem_network_ok_ipam) auto
qed

lemma mem_release_keeps:
  assumes "mem_inv s" "map_of (mp_networks s) nm = Some e" "ipam_release (mn_ipam e) mac = (i, r)"
  shows "mem_inv (s\<lparr>mp_networks := bm_insert nm (e\<lparr>mn_ipam := i\<rparr>) (mp_networks s)\<rparr>)"
proof -
  have e: "mem_network_ok nm e" using mem_invD(5) [OF assms(1,2)] .
  then have "ipam_inv i \<and> ipam_network i = ipam_network (mn_ipam e)"
    using ipam_release_inv [of "mn_ipam e" mac] ipam_release_spec(2) [of "mn_ipam e" mac] assms(3)
    by (simp add: mem_network_ok_def)
  then show ?thesis using e assms(1) by (intro mem_inv_put_network mem_network_ok_ipam) auto
qed

lemma build_network_ok: "build_network nm c g ps pe = Inr n \<Longrightarrow> network_ok n \<and> net_name n = nm"
  by (auto simp: build_network_def dest: network_new_ok split: option.splits sum.splits)

lemma mem_create_network_inv: "mem_inv s \<Longrightarrow> mem_inv (fst (mem_create_network J s p))"
  unfolding mem_create_network_def
  by (auto simp: mem_network_ok_def intro!: mem_inv_put_network dest: build_network_ok split: try_in_split option.splits)

lemma mem_create_port_inv:
  assumes "mem_inv s"
  shows "mem_inv (fst (mem_create_port J s p))"
proof -
  have "mem_inv (s\<lparr>mp_ports := bm_insert nm x (mp_ports s)\<rparr>)"
    if "map_of (mp_ports s) nm = None" "port_new nm path = Inr x" for nm path x
    using that assms mem_invD(7) [OF assms]
    by (intro mem_inv_put_port) (auto simp: port_new_def mem_port_ok_def split: if_splits, fastforce)
  then show ?thesis
    using assms unfolding mem_create_port_def by (auto split: try_in_split sum.splits)
qed

lemma mem_delete_port_inv:
  assumes "mem_inv s"
  shows "mem_inv (fst (mem_delete_port J s p))"
proof -
  have "mem_inv (s\<lparr>mp_publish_table := fst (pt_remove_port (mp_publish_table s) nm), mp_ports := bm_remove nm (mp_ports s)\<rparr>)" for nm
    using mem_inv_drop_port [OF mem_inv_unpublish_all(1) [OF assms, of nm], of nm] mem_inv_unpublish_all(2) [OF assms] by simp
  then show ?thesis using assms unfolding mem_delete_port_def by (auto split: try_in_split)
qed

lemma mem_detach_port_inv:
  assumes "mem_inv s"
  shows "mem_inv (fst (mem_detach_port J s p))"
proof -
  have "mem_inv (s\<lparr>mp_ports := bm_insert nm (port_detach x) (mp_ports s),
      mp_publish_table := fst (pt_remove_port (mp_publish_table s) nm)\<rparr>)"
    if "map_of (mp_ports s) nm = Some x" for nm x
    using mem_inv_put_port [OF mem_inv_unpublish_all(1) [OF assms, of nm], of nm "port_detach x"]
      mem_inv_unpublish_all(2) [OF assms] mem_invD(6) [OF assms that]
    by (simp add: mem_port_ok_def port_detach_def mem_upd_swap)
  then show ?thesis using assms unfolding mem_detach_port_def by (auto split: try_in_split)
qed

lemma mem_attach_port_inv:
  assumes "mem_inv s"
  shows "mem_inv (fst (mem_attach_port J s p))"
proof -
  have "mem_inv (s\<lparr>mp_networks := bm_insert net (e\<lparr>mn_ipam := i\<rparr>) (mp_networks s),
      mp_ports := bm_insert nm (port_attach x net mac ip) (mp_ports s)\<rparr>)"
    if "map_of (mp_ports s) nm = Some x" "map_of (mp_networks s) net = Some e"
      "ipam_allocate (mn_ipam e) mac = (i, Inr ip)" for nm net e mac i ip x
    using mem_inv_put_port [OF mem_allocate_keeps [OF assms that(2,3)], of nm "port_attach x net mac ip"]
      mem_invD(6) [OF assms that(1)] by (simp add: mem_port_ok_def port_attach_def)
  then show ?thesis
    using assms mem_allocate_keeps [OF assms] unfolding mem_attach_port_def Let_def
    by (auto split: try_in_split option.splits prod.splits sum.splits)
qed

lemma mem_publish_port_inv:
  assumes "mem_inv s"
  shows "mem_inv (fst (mem_publish_port J s p))"
proof -
  have "mem_inv (s\<lparr>mp_publish_table := t\<rparr>)"
    if al: "pt_allocate (mp_publish_table s) nm v (mp_publish_range s) = (t, r)"
      and pr: "map_of (mp_ports s) nm = Some x" "port_network x \<noteq> None" and nw: "pt_get (mp_publish_table s) nm v = None"
    for t r nm v x
  proof -
    have wf: "pt_wf (mp_publish_table s)" "pt_inj (mp_publish_table s)" using mem_invD(3,4) [OF assms] .
    have inv: "pt_wf t \<and> pt_inj t" using pt_allocate_inv [OF wf, of nm v "mp_publish_range s"] al by simp
    have "q = nm \<or> pt_get (mp_publish_table s) q w = Some h" if g: "pt_get t q w = Some h" for q w h
    proof (cases r)
      case None
      then show ?thesis using pt_allocate_full [OF wf(1) al [unfolded None]] g by simp
    next
      case (Some h')
      then show ?thesis
        using pt_allocate_new [OF wf(1) nw al [unfolded Some]] g by (auto split: if_splits)
    qed
    then show ?thesis using assms inv pr unfolding mem_inv_def by auto blast+
  qed
  then show ?thesis
    using assms unfolding mem_publish_port_def by (auto split: try_in_split option.splits prod.splits)
qed

lemma mem_unpublish_port_inv:
  assumes "mem_inv s"
  shows "mem_inv (fst (mem_unpublish_port J s p))"
proof -
  have wf: "pt_wf (mp_publish_table s)" "pt_inj (mp_publish_table s)" using mem_invD(3,4) [OF assms] .
  have "mem_inv (s\<lparr>mp_publish_table := fst (pt_remove (mp_publish_table s) nm v)\<rparr>)" for nm v
    using assms pt_remove_inv(1) [OF wf, of nm v] pt_remove_spec(1) [OF wf(1), of nm v]
    unfolding mem_inv_def by (auto split: if_splits) blast+
  then show ?thesis
    using assms unfolding mem_unpublish_port_def by (auto split: try_in_split option.splits prod.splits) (metis fst_conv)+
qed

lemma mem_ip_ops_inv:
  assumes "mem_inv s"
  shows "mem_inv (fst (mem_allocate_ip J s p))" "mem_inv (fst (mem_release_ip J s p))"
  using assms mem_allocate_keeps [OF assms] mem_release_keeps [OF assms]
  unfolding mem_allocate_ip_def mem_release_ip_def by (auto split: try_in_split prod.splits)

lemma mem_read_ops_inv:
  assumes "mem_inv s"
  shows "fst (mem_get_network J s p) = s" "fst (mem_get_port J s p) = s" "mem_inv (fst (mem_delete_network J s p))"
  using assms mem_inv_drop_network
  unfolding mem_get_network_def mem_get_port_def mem_delete_network_def by (auto split: try_in_split)

interpretation mem: control_plane_impl "mem_control_plane J" mem_inv for J :: "'v json_api"
proof
  fix m :: string and f :: "('v mem_plane, 'v) cp_op" and s :: "'v mem_plane" and p :: 'v
  assume "(m, f) \<in> set (cp_methods (mem_control_plane J))" and i: "mem_inv s"
  then show "mem_inv (fst (f s p))"
    using mem_create_network_inv [OF i] mem_create_port_inv [OF i] mem_delete_port_inv [OF i] mem_detach_port_inv [OF i]
      mem_attach_port_inv [OF i] mem_publish_port_inv [OF i] mem_unpublish_port_inv [OF i] mem_ip_ops_inv [OF i]
      mem_read_ops_inv [OF i]
    by (auto simp: cp_methods_def mem_control_plane_def)
qed

lemma mem_default_inv [simp]: "mem_inv mem_default" "mem_inv (mem_with_publish_range a b)"
  by (simp_all add: mem_inv_def mem_default_def mem_with_publish_range_def pt_inj_def)

section \<open>Properties\<close>

lemma dispatch_response:
  "router_dispatch J cp s req = (s', r) \<Longrightarrow>
     rs_id r = rq_id req \<and> ((rs_result r = None) \<noteq> (rs_error r = None)) \<and> rs_jsonrpc r = ''2.0''"
  unfolding router_dispatch_table
  by (auto simp: response_ok_def response_err_def split: prod.splits option.splits sum.splits)

text \<open>
  C29: The control socket answers. On a connection that delivers a line and takes the answer, the
  server writes exactly one line, whose text reads back as a response with exactly one of result
  and error. A request that parses is answered under its own id by the router, an unknown method
  with \<open>method_not_found\<close> and no change of state; a request that does not parse is answered with
  its error under a null id, and the control plane is not touched. This holds for every
  implementation of the control plane.
\<close>

theorem connection_one_response:
  assumes "json_ok J" "\<forall>r. \<exists>t. jn_to_text J (response_to_value J r) = Inr t"
    and "cn_read_ok conn" "cn_write_ok conn" "cn_input conn \<noteq> []"
    and "handle_connection J raw cp conn s = (s', res)"
  shows "\<exists>body v r. res = Inr (1, body @ [CHR 0x0A]) \<and> jn_of_text J body = Inr v \<and> response_of_value J v = Some r
    \<and> ((rs_result r = None) \<noteq> (rs_error r = None))
    \<and> (case request_parse raw (trim_end (read_line (cn_input conn))) of
         Inl e \<Rightarrow> s' = s \<and> r = response_err (jn_null J) e
       | Inr req \<Rightarrow> (s', r) = router_dispatch J cp s req \<and> rs_id r = rq_id req
           \<and> (rq_method req \<notin> fst ` set (cp_methods cp) \<longrightarrow> s' = s \<and> rs_error r = Some MethodNotFound))"
proof -
  let ?line = "read_line (cn_input conn)"
  let ?ans = "case request_parse raw (trim_end ?line) of Inr req \<Rightarrow> router_dispatch J cp s req
      | Inl e \<Rightarrow> (s, response_err (jn_null J) e)"
  have ne: "?line \<noteq> []" using assms(5) by (cases "cn_input conn") (auto simp: read_line_def)
  obtain s1 r where sr: "?ans = (s1, r)" by (cases ?ans)
  obtain t where t: "jn_to_text J (response_to_value J r) = Inr t" using assms(2) by blast
  have res: "res = Inr (1, t @ [CHR 0x0A])" "s' = s1"
    using assms(3,4,6) ne sr t by (auto simp: handle_connection_def Let_def)
  have rd: "jn_of_text J t = Inr (response_to_value J r)" using json_okD(9) [OF assms(1) t] .
  have one: "(rs_result r = None) \<noteq> (rs_error r = None)"
  proof (cases "request_parse raw (trim_end ?line)")
    case (Inl e)
    then have "r = response_err (jn_null J) e" using sr by simp
    then show ?thesis by (simp add: response_err_def)
  next
    case (Inr req)
    then have "router_dispatch J cp s req = (s1, r)" using sr by simp
    from dispatch_response [OF this] show ?thesis by simp
  qed
  have "case request_parse raw (trim_end ?line) of
         Inl e \<Rightarrow> s' = s \<and> r = response_err (jn_null J) e
       | Inr req \<Rightarrow> (s', r) = router_dispatch J cp s req \<and> rs_id r = rq_id req
           \<and> (rq_method req \<notin> fst ` set (cp_methods cp) \<longrightarrow> s' = s \<and> rs_error r = Some MethodNotFound)"
  proof (cases "request_parse raw (trim_end ?line)")
    case (Inl e)
    then show ?thesis using sr res by simp
  next
    case (Inr req)
    then have d: "router_dispatch J cp s req = (s', r)" using sr res by simp
    have "s' = s \<and> rs_error r = Some MethodNotFound" if "rq_method req \<notin> fst ` set (cp_methods cp)"
      using d that by (auto simp: router_dispatch_table map_of_eq_None_iff [THEN iffD2] response_err_def)
    then show ?thesis using Inr d dispatch_response [OF d] by simp
  qed
  moreover have "response_of_value J (response_to_value J r) = Some r"
    using response_value_inverse [OF assms(1)] .
  ultimately show ?thesis using res(1) rd one by blast
qed

text \<open>
  Whatever requests arrive, the in-memory control plane stays sound: its networks are valid
  with injective reservations inside the pool, its ports are attached completely or not at all,
  every host port belongs to one published pair, and only attached ports have published entries.
\<close>

lemma mem_serve_sound:
  "mem_inv (fst (serve_loop J raw (mem_control_plane J) incoming (mem_with_publish_range lo hi)))"
  by (rule mem.serve_inv) simp

text \<open>
  Idempotent creation. Once a \<open>CreateNetwork\<close> succeeded, the same request succeeds again
  without any change, and a request with the same name and any other parameters is a conflict
  that changes nothing either.
\<close>

lemma mem_create_network_idempotent:
  assumes "mem_create_network J s params = (s', Inr v)"
    and "str_param J params2 ''name'' = str_param J params ''name''"
    and "str_param J params2 ''cidr'' = Inr c" "str_param J params2 ''gateway'' = Inr g"
    and "str_param J params2 ''poolStart'' = Inr ps" "str_param J params2 ''poolEnd'' = Inr pe"
  shows "mem_create_network J s' params2 = (s', if params2 = params then Inr (jn_null J) else Inl Conflict)"
proof -
  obtain nm e where "str_param J params ''name'' = Inr nm" "map_of (mp_networks s') nm = Some e" "mn_created_with e = params"
    using assms(1) unfolding mem_create_network_def
    by (auto simp: try_in_def split: sum.splits option.splits if_splits)
  then show ?thesis using assms(2-6) by (auto simp: mem_create_network_def)
qed

text \<open>Witnesses.\<close>

definition demo_params :: "string \<Rightarrow> tree_value" where
  "demo_params gw = jn_object tree_json [(''name'', TStr ''lab''), (''cidr'', TStr (show_cidr \<lparr>cidr_addr = 0xC0A87C00, cidr_prefix = 24\<rparr>)),
     (''gateway'', TStr gw), (''poolStart'', TStr (show_ip 0xC0A87C0A)), (''poolEnd'', TStr (show_ip 0xC0A87CC8))]"

lemma demo_params_get:
  "str_param tree_json (demo_params gw) ''name'' = Inr ''lab''" "str_param tree_json (demo_params gw) ''gateway'' = Inr gw"
  "str_param tree_json (demo_params gw) ''cidr'' = Inr (show_cidr \<lparr>cidr_addr = 0xC0A87C00, cidr_prefix = 24\<rparr>)"
  "str_param tree_json (demo_params gw) ''poolStart'' = Inr (show_ip 0xC0A87C0A)"
  "str_param tree_json (demo_params gw) ''poolEnd'' = Inr (show_ip 0xC0A87CC8)"
  by (simp_all add: str_param_def demo_params_def tree_json_def)

theorem connection_one_response_witness:
  "\<exists>body v. handle_connection tree_json (\<lambda>_. None) (mem_control_plane tree_json)
      \<lparr>cn_input = ''x'', cn_read_ok = True, cn_write_ok = True\<rparr> mem_default = (mem_default, Inr (1, body @ [CHR 0x0A]))
    \<and> jn_of_text tree_json body = Inr v \<and> response_of_value tree_json v = Some (response_err TNull ParseError)"
proof -
  let ?c = "\<lparr>cn_input = ''x'', cn_read_ok = True, cn_write_ok = True\<rparr>"
  obtain s' res where h: "handle_connection tree_json (\<lambda>_. None) (mem_control_plane tree_json) ?c mem_default = (s', res)" by fastforce
  have p: "\<forall>r. \<exists>t. jn_to_text tree_json (response_to_value tree_json r) = Inr t" by (simp add: tree_json_def)
  have e: "request_parse (\<lambda>_. None :: tree_value raw_request option) t = Inl ParseError" for t by (simp add: request_parse_def)
  obtain body v r where r: "res = Inr (1, body @ [CHR 0x0A])" "jn_of_text tree_json body = Inr v"
      "response_of_value tree_json v = Some r" "s' = mem_default" "r = response_err (jn_null tree_json) ParseError"
    using connection_one_response [OF tree_json_ok p _ _ _ h] e by auto
  have "jn_null tree_json = TNull" by (simp add: tree_json_def)
  then show ?thesis using r h by auto
qed

end
