(* ===== verification/Dhcp_Server.thy ===== *)
theory Dhcp_Server
  imports Ipam_Alloc
begin

text \<open>
  The DHCP server of \<open>crates/k8netd-svc/src/dhcp.rs\<close>: a message handler over the IPAM allocator
  of one network. The codec is the third-party crate \<open>dhcproto\<close>: messages are its accessors'
  view as a record, and decoding and encoding are the fields of \<open>dhcp_codec\<close>, a parameter of
  the handler. No law of the codec is needed for what the handler decides; the replies are
  described as the messages given to the encoder.
\<close>

section \<open>Messages\<close>

datatype dhcp_opcode = BootRequest | BootReply | OtherOpcode

datatype message_type = Discover | Offer | Request | Decline | Ack | Nak | Release | Inform | OtherType

datatype dhcp_option =
    OptMessageType message_type
  | OptServerIdentifier ipv4
  | OptSubnetMask ipv4
  | OptRouter "ipv4 list"
  | OptDomainNameServer "ipv4 list"
  | OptAddressLeaseTime u32
  | OptRequestedIpAddress ipv4
  | OptOther u8 bytes

text \<open>The option code, under which the option table of a message keeps at most one entry.\<close>

fun option_code :: "dhcp_option \<Rightarrow> u8" where
  "option_code (OptMessageType _) = 53"
| "option_code (OptServerIdentifier _) = 54"
| "option_code (OptSubnetMask _) = 1"
| "option_code (OptRouter _) = 3"
| "option_code (OptDomainNameServer _) = 6"
| "option_code (OptAddressLeaseTime _) = 51"
| "option_code (OptRequestedIpAddress _) = 50"
| "option_code (OptOther c _) = c"

record dhcp_message =
  dm_opcode :: dhcp_opcode
  dm_htype_eth :: bool
  dm_hlen :: u8
  dm_xid :: u32
  dm_flags :: u16
  dm_ciaddr :: ipv4
  dm_yiaddr :: ipv4
  dm_siaddr :: ipv4
  dm_giaddr :: ipv4
  dm_chaddr :: bytes
  dm_opts :: "(u8, dhcp_option) hash_map"

record dhcp_codec =
  dc_decode :: "bytes \<Rightarrow> dhcp_message option"
  dc_encode :: "dhcp_message \<Rightarrow> bytes option"

definition opts_insert :: "dhcp_option \<Rightarrow> dhcp_message \<Rightarrow> dhcp_message" where
  "opts_insert d m = m\<lparr>dm_opts := hm_insert (option_code d) d (dm_opts m)\<rparr>"

definition opts_msg_type :: "dhcp_message \<Rightarrow> message_type option" where
  "opts_msg_type m = (case map_of (dm_opts m) 53 of Some (OptMessageType t) \<Rightarrow> Some t | _ \<Rightarrow> None)"

text \<open>\<open>Message::new_with_id\<close>: a request skeleton with the given addresses.\<close>

definition message_new_with_id :: "u32 \<Rightarrow> ipv4 \<Rightarrow> ipv4 \<Rightarrow> ipv4 \<Rightarrow> ipv4 \<Rightarrow> bytes \<Rightarrow> dhcp_message" where
  "message_new_with_id xid ci yi si gi chaddr =
     \<lparr>dm_opcode = BootRequest, dm_htype_eth = True, dm_hlen = of_nat (length chaddr), dm_xid = xid,
      dm_flags = 0, dm_ciaddr = ci, dm_yiaddr = yi, dm_siaddr = si, dm_giaddr = gi,
      dm_chaddr = chaddr, dm_opts = []\<rparr>"

section \<open>The server\<close>

definition MAGIC_COOKIE_OFFSET :: nat where
  "MAGIC_COOKIE_OFFSET = 236"

definition MIN_PACKET_SIZE :: nat where
  "MIN_PACKET_SIZE = MAGIC_COOKIE_OFFSET + 4"

definition LEASE_SECONDS :: u32 where
  "LEASE_SECONDS = 3600"

text \<open>The four octets of the magic cookie (RFC 2131), the constant \<open>MAGIC\<close> of the codec.\<close>

definition dhcp_magic :: bytes where
  "dhcp_magic = [99, 130, 83, 99]"

record dhcp_server =
  ds_ipam :: ipam
  ds_reply_buf :: bytes

definition dhcp_server_new :: "ipam \<Rightarrow> dhcp_server" where
  "dhcp_server_new i = \<lparr>ds_ipam = i, ds_reply_buf = []\<rparr>"

text \<open>\<open>u32::MAX << (32 - prefix)\<close> with the wrap-around of the release profile.\<close>

definition dhcp_netmask :: "u8 \<Rightarrow> ipv4" where
  "dhcp_netmask prefix = (if prefix = 0 then 0 else push_bit (unat ((32 - prefix) AND 31)) (- 1))"

definition dhcp_reply_message :: "ipam \<Rightarrow> dhcp_message \<Rightarrow> ipv4 \<Rightarrow> message_type \<Rightarrow> dhcp_message" where
  "dhcp_reply_message i msg ip mtype =
     (let net = ipam_network i; gateway = net_gateway net;
          out = message_new_with_id (dm_xid msg) 0 ip 0 0 (dm_chaddr msg);
          out = out\<lparr>dm_opcode := BootReply, dm_flags := dm_flags msg\<rparr>;
          out = opts_insert (OptMessageType mtype) out;
          out = opts_insert (OptServerIdentifier gateway) out;
          out = opts_insert (OptSubnetMask (dhcp_netmask (cidr_prefix (net_cidr net)))) out;
          out = opts_insert (OptRouter [gateway]) out;
          out = opts_insert (OptDomainNameServer [gateway]) out
      in opts_insert (OptAddressLeaseTime LEASE_SECONDS) out)"

definition dhcp_reply :: "dhcp_codec \<Rightarrow> ipam \<Rightarrow> dhcp_message \<Rightarrow> ipv4 \<Rightarrow> message_type \<Rightarrow> bytes option" where
  "dhcp_reply D i msg ip mtype = dc_encode D (dhcp_reply_message i msg ip mtype)"

definition dhcp_nak_message :: "dhcp_message \<Rightarrow> dhcp_message" where
  "dhcp_nak_message msg =
     opts_insert (OptMessageType Nak)
       ((message_new_with_id (dm_xid msg) 0 0 0 0 (dm_chaddr msg))\<lparr>dm_opcode := BootReply, dm_flags := dm_flags msg\<rparr>)"

definition dhcp_nak :: "dhcp_codec \<Rightarrow> dhcp_message \<Rightarrow> bytes option" where
  "dhcp_nak D msg = dc_encode D (dhcp_nak_message msg)"

definition dhcp_discover :: "dhcp_codec \<Rightarrow> ipam \<Rightarrow> dhcp_message \<Rightarrow> mac_addr \<Rightarrow> ipam \<times> bytes option" where
  "dhcp_discover D i msg mac =
     (case ipam_lookup i mac of
        Some ip \<Rightarrow> (i, dhcp_reply D i msg ip Offer)
      | None \<Rightarrow>
     (case ipam_allocate i mac of
        (i', Inl _) \<Rightarrow> (i', None)
      | (i', Inr ip) \<Rightarrow> (i', dhcp_reply D i' msg ip Offer)))"

definition requested_address :: "dhcp_message \<Rightarrow> ipv4" where
  "requested_address msg =
     (case map_of (dm_opts msg) 50 of Some (OptRequestedIpAddress ip) \<Rightarrow> ip | _ \<Rightarrow> dm_ciaddr msg)"

definition dhcp_request :: "dhcp_codec \<Rightarrow> ipam \<Rightarrow> dhcp_message \<Rightarrow> mac_addr \<Rightarrow> ipam \<times> bytes option" where
  "dhcp_request D i msg mac =
     (if ipam_lookup i mac = Some (requested_address msg)
      then (i, dhcp_reply D i msg (requested_address msg) Ack)
      else (i, dhcp_nak D msg))"

definition dhcp_process :: "dhcp_codec \<Rightarrow> ipam \<Rightarrow> bytes \<Rightarrow> ipam \<times> bytes option" where
  "dhcp_process D i packet =
     (if length packet < MIN_PACKET_SIZE \<or> take 4 (drop MAGIC_COOKIE_OFFSET packet) \<noteq> dhcp_magic then (i, None)
      else case dc_decode D packet of
        None \<Rightarrow> (i, None)
      | Some msg \<Rightarrow>
          if dm_opcode msg \<noteq> BootRequest \<or> \<not> dm_htype_eth msg \<or> dm_hlen msg \<noteq> 6 then (i, None)
          else case mac_from_bytes (dm_chaddr msg) of
            None \<Rightarrow> (i, None)
          | Some mac \<Rightarrow>
              (case opts_msg_type msg of
                 Some Discover \<Rightarrow> dhcp_discover D i msg mac
               | Some Request \<Rightarrow> dhcp_request D i msg mac
               | _ \<Rightarrow> (i, None)))"

definition dhcp_handle :: "dhcp_codec \<Rightarrow> dhcp_server \<Rightarrow> bytes \<Rightarrow> dhcp_server \<times> bytes option" where
  "dhcp_handle D s packet =
     (case dhcp_process D (ds_ipam s) packet of
        (i', None) \<Rightarrow> (s\<lparr>ds_ipam := i'\<rparr>, None)
      | (i', Some encoded) \<Rightarrow> (s\<lparr>ds_ipam := i', ds_reply_buf := encoded\<rparr>, Some encoded))"

section \<open>What reaches the handlers\<close>

text \<open>A packet that the server looks at, with the message it carries and its client.\<close>

definition dhcp_admits :: "dhcp_codec \<Rightarrow> bytes \<Rightarrow> dhcp_message \<Rightarrow> mac_addr \<Rightarrow> bool" where
  "dhcp_admits D packet msg mac =
     (240 \<le> length packet \<and> take 4 (drop 236 packet) = [99, 130, 83, 99] \<and> dc_decode D packet = Some msg
      \<and> dm_opcode msg = BootRequest \<and> dm_htype_eth msg \<and> dm_hlen msg = 6 \<and> dm_chaddr msg = mac_octets mac)"

lemma dhcp_process_admits:
  "dhcp_admits D packet msg mac \<Longrightarrow> dhcp_process D i packet =
     (case opts_msg_type msg of
        Some Discover \<Rightarrow> dhcp_discover D i msg mac
      | Some Request \<Rightarrow> dhcp_request D i msg mac
      | _ \<Rightarrow> (i, None))"
  by (simp add: dhcp_admits_def dhcp_process_def MIN_PACKET_SIZE_def MAGIC_COOKIE_OFFSET_def dhcp_magic_def)

lemma dhcp_process_rejects:
  "\<nexists>msg mac. dhcp_admits D packet msg mac \<Longrightarrow> dhcp_process D i packet = (i, None)"
  unfolding dhcp_process_def
  by (auto simp: dhcp_admits_def MIN_PACKET_SIZE_def MAGIC_COOKIE_OFFSET_def dhcp_magic_def not_less mac_from_bytes_Some
      split: option.splits)

text \<open>
  What an answer is, independently of how the server builds it: an offer or acknowledgement of an
  address, a refusal, and the address a request asks for.
\<close>

definition dhcp_echoes :: "dhcp_message \<Rightarrow> dhcp_message \<Rightarrow> bool" where
  "dhcp_echoes msg out =
     (dm_opcode out = BootReply \<and> dm_htype_eth out \<and> dm_hlen out = of_nat (length (dm_chaddr msg))
      \<and> dm_xid out = dm_xid msg \<and> dm_chaddr out = dm_chaddr msg \<and> dm_flags out = dm_flags msg
      \<and> dm_ciaddr out = 0 \<and> dm_siaddr out = 0 \<and> dm_giaddr out = 0)"

definition dhcp_answer :: "network \<Rightarrow> dhcp_message \<Rightarrow> ipv4 \<Rightarrow> message_type \<Rightarrow> dhcp_message \<Rightarrow> bool" where
  "dhcp_answer net msg ip t out =
     (dhcp_echoes msg out \<and> dm_yiaddr out = ip
      \<and> map_of (dm_opts out) = [53 \<mapsto> OptMessageType t, 54 \<mapsto> OptServerIdentifier (net_gateway net),
           1 \<mapsto> OptSubnetMask (cidr_mask (net_cidr net)), 3 \<mapsto> OptRouter [net_gateway net],
           6 \<mapsto> OptDomainNameServer [net_gateway net], 51 \<mapsto> OptAddressLeaseTime 3600])"

definition dhcp_refusal :: "dhcp_message \<Rightarrow> dhcp_message \<Rightarrow> bool" where
  "dhcp_refusal msg out =
     (dhcp_echoes msg out \<and> dm_yiaddr out = 0 \<and> map_of (dm_opts out) = [53 \<mapsto> OptMessageType Nak])"

definition asks_for :: "dhcp_message \<Rightarrow> ipv4 \<Rightarrow> bool" where
  "asks_for msg ip =
     (map_of (dm_opts msg) 50 = Some (OptRequestedIpAddress ip)
      \<or> (\<forall>a. map_of (dm_opts msg) 50 \<noteq> Some (OptRequestedIpAddress a)) \<and> dm_ciaddr msg = ip)"

abbreviation dhcp_type :: "dhcp_message \<Rightarrow> message_type \<Rightarrow> bool" where
  "dhcp_type msg t \<equiv> map_of (dm_opts msg) 53 = Some (OptMessageType t)"

lemma opts_msg_type_Some [simp]: "opts_msg_type msg = Some t \<longleftrightarrow> dhcp_type msg t"
  by (simp add: opts_msg_type_def split: option.split dhcp_option.split)

lemma requested_address_iff: "requested_address msg = ip \<longleftrightarrow> asks_for msg ip"
  by (auto simp: requested_address_def asks_for_def split: option.split dhcp_option.split)

lemma dhcp_netmask_cidr: "dhcp_netmask (cidr_prefix c) = cidr_mask c"
  by (simp add: dhcp_netmask_def cidr_mask_def)

lemma dhcp_reply_answers: "dhcp_answer (ipam_network i) msg ip t (dhcp_reply_message i msg ip t)"
  by (simp add: dhcp_answer_def dhcp_echoes_def dhcp_reply_message_def Let_def opts_insert_def message_new_with_id_def
      dhcp_netmask_cidr LEASE_SECONDS_def)

lemma dhcp_nak_refuses: "dhcp_refusal msg (dhcp_nak_message msg)"
  by (simp add: dhcp_refusal_def dhcp_echoes_def dhcp_nak_message_def opts_insert_def message_new_with_id_def)

text \<open>What the server does with a bound client.\<close>

lemma dhcp_process_discover:
  assumes "dhcp_admits D packet msg mac" "dhcp_type msg Discover" "ipam_lookup i mac = Some ip"
  shows "dhcp_process D i packet = (i, dc_encode D (dhcp_reply_message i msg ip Offer))"
  using assms(2,3) dhcp_process_admits [OF assms(1), of i]
  by (simp add: opts_msg_type_def dhcp_discover_def dhcp_reply_def)

lemma dhcp_process_request:
  assumes "dhcp_admits D packet msg mac" "dhcp_type msg Request"
  shows "dhcp_process D i packet = (i, dc_encode D (case ipam_lookup i mac of
      Some ip \<Rightarrow> if asks_for msg ip then dhcp_reply_message i msg ip Ack else dhcp_nak_message msg
    | None \<Rightarrow> dhcp_nak_message msg))"
  using assms(2) dhcp_process_admits [OF assms(1), of i]
  by (auto simp: opts_msg_type_def dhcp_request_def dhcp_reply_def dhcp_nak_def requested_address_iff [symmetric]
      split: option.split)

lemma dhcp_process_inv: "ipam_inv i \<Longrightarrow> ipam_inv (fst (dhcp_process D i packet))
    \<and> ipam_network (fst (dhcp_process D i packet)) = ipam_network i"
proof -
  assume i: "ipam_inv i"
  have "ipam_inv (fst (dhcp_discover D i msg mac)) \<and> ipam_network (fst (dhcp_discover D i msg mac)) = ipam_network i" for msg mac
    using i ipam_allocate_inv [OF i, of mac]
    by (auto simp: dhcp_discover_def split: option.splits prod.splits sum.splits)
  then show ?thesis
    using i by (auto simp: dhcp_process_def dhcp_request_def split: option.splits message_type.splits)
qed

section \<open>Properties\<close>

text \<open>
  C33: The DISCOVER/REQUEST exchange on one server. An answered DISCOVER binds the client: the answer
  is an offer of an address inside the network that is not the gateway and that no other client
  holds (with the request's transaction ID, hardware address and flags, the gateway as server,
  router and resolver, the network's mask and an hour's lease), no other binding changes, a repeated
  DISCOVER gets the same offer, and a following REQUEST for the offered address is acknowledged with
  that address.
\<close>

theorem dhcp_discover_binds:
  assumes "ipam_inv i" "network_ok (ipam_network i)"
    and "dhcp_admits D packet msg mac" "map_of (dm_opts msg) 53 = Some (OptMessageType Discover)"
    and "dhcp_process D i packet = (i', Some offer)"
  shows "\<exists>ip out. dhcp_answer (ipam_network i) msg ip Offer out \<and> dc_encode D out = Some offer
    \<and> ipam_lookup i' = (ipam_lookup i)(mac \<mapsto> ip) \<and> (\<forall>other. ipam_lookup i' other = Some ip \<longrightarrow> other = mac)
    \<and> in_cidr (net_cidr (ipam_network i)) ip \<and> ip \<noteq> net_gateway (ipam_network i)
    \<and> dhcp_process D i' packet = (i', Some offer)
    \<and> (\<forall>packet2 msg2. dhcp_admits D packet2 msg2 mac \<and> map_of (dm_opts msg2) 53 = Some (OptMessageType Request)
          \<and> asks_for msg2 ip \<longrightarrow>
          (\<exists>ack. dhcp_answer (ipam_network i) msg2 ip Ack ack \<and> dhcp_process D i' packet2 = (i', dc_encode D ack)))"
proof -
  have i': "ipam_inv i'" "ipam_network i' = ipam_network i"
    using dhcp_process_inv [OF assms(1), of D packet] assms(5) by auto
  have d: "dhcp_discover D i msg mac = (i', Some offer)"
    using assms(4,5) dhcp_process_admits [OF assms(3), of i] by (simp add: opts_msg_type_def)
  obtain ip where ip: "dc_encode D (dhcp_reply_message i' msg ip Offer) = Some offer"
    "ipam_lookup i' = (ipam_lookup i)(mac \<mapsto> ip)"
  proof (cases "ipam_lookup i mac")
    case (Some ip)
    then show thesis using d that [of ip] by (auto simp: dhcp_discover_def dhcp_reply_def fun_upd_idem)
  next
    case None
    then obtain ip where a: "ipam_allocate i mac = (i', Inr ip)" "dhcp_reply D i' msg ip Offer = Some offer"
      using d by (auto simp: dhcp_discover_def split: prod.splits sum.splits)
    then show thesis using that [of ip] ipam_allocate_new [OF assms(1) None a(1)] by (simp add: dhcp_reply_def)
  qed
  have l: "ipam_lookup i' mac = Some ip" using ip(2) by simp
  have "in_cidr (net_cidr (ipam_network i)) ip \<and> ip \<noteq> net_gateway (ipam_network i)"
    using ipam_lookup_pool [OF i'(1) l] pool_in_cidr [OF assms(2)] i'(2) by simp
  moreover have "dhcp_process D i' packet = (i', Some offer)"
    using dhcp_process_discover [OF assms(3,4) l] ip(1) by simp
  moreover have "\<exists>ack. dhcp_answer (ipam_network i) msg2 ip Ack ack \<and> dhcp_process D i' packet2 = (i', dc_encode D ack)"
    if "dhcp_admits D packet2 msg2 mac" "dhcp_type msg2 Request" "asks_for msg2 ip" for packet2 msg2
    using dhcp_process_request [OF that(1,2), of i'] that(3) l dhcp_reply_answers [of i'] i'(2) by fastforce
  moreover have "other = mac" if "ipam_lookup i' other = Some ip" for other
    using ipam_lookup_inj [OF i'(1) that l] .
  moreover have "dhcp_answer (ipam_network i) msg ip Offer (dhcp_reply_message i' msg ip Offer)"
    using dhcp_reply_answers [of i'] i'(2) by simp
  ultimately show ?thesis using ip by blast
qed

text \<open>
  C34: A REQUEST never changes a binding, and it is acknowledged exactly when the address it asks for
  (option 50, or \<open>ciaddr\<close> when option 50 carries no address) is the client's own binding: the reply
  is then an acknowledgement of that address with the network's parameters. Every other REQUEST is
  answered with a NAK that offers no address and has no other option.
\<close>

theorem dhcp_request_ack_iff:
  assumes "dhcp_admits D packet msg mac" "map_of (dm_opts msg) 53 = Some (OptMessageType Request)"
  shows "\<exists>out. dhcp_process D i packet = (i, dc_encode D out)
    \<and> (if \<exists>ip. asks_for msg ip \<and> ipam_lookup i mac = Some ip
       then \<exists>ip. asks_for msg ip \<and> ipam_lookup i mac = Some ip \<and> dhcp_answer (ipam_network i) msg ip Ack out
       else dhcp_refusal msg out)"
proof (cases "\<exists>ip. asks_for msg ip \<and> ipam_lookup i mac = Some ip")
  case True
  then show ?thesis
    using dhcp_process_request [OF assms, of i] dhcp_reply_answers [of i msg _ Ack] by fastforce
next
  case False
  then have "dhcp_process D i packet = (i, dc_encode D (dhcp_nak_message msg))"
    using dhcp_process_request [OF assms, of i] by (auto split: option.split)
  with False show ?thesis using dhcp_nak_refuses by auto
qed

text \<open>
  The server stays silent, and changes nothing, on every packet that is shorter than 240 bytes,
  lacks the magic cookie, does not decode, is not an Ethernet boot request with a six-byte
  hardware address, or carries a message type other than DISCOVER and REQUEST.
\<close>

lemma dhcp_silent_otherwise:
  assumes "\<not> (\<exists>msg mac. dhcp_admits D packet msg mac \<and> (dhcp_type msg Discover \<or> dhcp_type msg Request))"
  shows "dhcp_handle D s packet = (s, None)"
proof -
  have "dhcp_process D (ds_ipam s) packet = (ds_ipam s, None)"
  proof (cases "\<exists>msg mac. dhcp_admits D packet msg mac")
    case True
    then obtain msg mac where a: "dhcp_admits D packet msg mac" by blast
    with assms have "opts_msg_type msg \<noteq> Some Discover" "opts_msg_type msg \<noteq> Some Request" by simp_all blast+
    then show ?thesis by (simp add: dhcp_process_admits [OF a] split: option.splits message_type.splits)
  next
    case False
    then show ?thesis by (rule dhcp_process_rejects)
  qed
  then show ?thesis by (simp add: dhcp_handle_def)
qed

text \<open>Witnesses: a codec that reads one fixed message from every packet.\<close>

definition demo_message :: "message_type \<Rightarrow> dhcp_message" where
  "demo_message t = \<lparr>dm_opcode = BootRequest, dm_htype_eth = True, dm_hlen = 6, dm_xid = 7, dm_flags = 0,
     dm_ciaddr = 0, dm_yiaddr = 0, dm_siaddr = 0, dm_giaddr = 0, dm_chaddr = [2, 0, 0, 0, 0, 1],
     dm_opts = [(53, OptMessageType t), (50, OptRequestedIpAddress 0xC0A87C0A)]\<rparr>"

definition demo_codec :: "message_type \<Rightarrow> dhcp_codec" where
  "demo_codec t = \<lparr>dc_decode = (\<lambda>_. Some (demo_message t)), dc_encode = (\<lambda>m. Some (ip_octets (dm_yiaddr m)))\<rparr>"

definition demo_packet :: bytes where
  "demo_packet = replicate 236 0 @ dhcp_magic"

lemma demo_admits: "dhcp_admits (demo_codec t) demo_packet (demo_message t) (MacAddr 2 0 0 0 0 1)"
  by (simp add: dhcp_admits_def demo_codec_def demo_packet_def demo_message_def dhcp_magic_def)

lemma demo_type: "dhcp_type (demo_message t) t"
  by (simp add: demo_message_def)

lemma demo_asks: "asks_for (demo_message t) ip \<longleftrightarrow> ip = 0xC0A87C0A"
  by (auto simp: demo_message_def asks_for_def)

theorem dhcp_discover_binds_witness:
  "\<exists>ip. ip_octets ip = ip_octets 0xC0A87C0A \<and> ip \<noteq> net_gateway tiny_network
     \<and> snd (dhcp_process (demo_codec Discover) (ipam_new tiny_network) demo_packet) = Some (ip_octets ip)"
proof -
  obtain i' r where p: "dhcp_process (demo_codec Discover) (ipam_new tiny_network) demo_packet = (i', r)" by fastforce
  have r: "r = Some (ip_octets 0xC0A87C0A)"
    using p dhcp_reply_answers
    by (simp add: dhcp_process_admits [OF demo_admits] demo_type opts_msg_type_def dhcp_discover_def ipam_allocate_def
        tiny_network_def ipam_new_def find_range.simps ipam_lookup_def dhcp_reply_def)
      (auto simp: demo_codec_def dhcp_answer_def)
  have "network_ok (ipam_network (ipam_new tiny_network))" using tiny_network_ok by simp
  from dhcp_discover_binds [OF ipam_new_inv(1) this demo_admits demo_type p [unfolded r]]
  obtain ip out where "ip \<noteq> net_gateway tiny_network" "dhcp_answer tiny_network (demo_message Discover) ip Offer out"
      "dc_encode (demo_codec Discover) out = Some (ip_octets 0xC0A87C0A)" by auto
  then show ?thesis using p r by (intro exI [of _ ip]) (simp add: demo_codec_def dhcp_answer_def)
qed

theorem dhcp_request_ack_iff_witness:
  "dhcp_process (demo_codec Request) (ipam_new tiny_network) demo_packet = (ipam_new tiny_network, Some [0, 0, 0, 0])"
proof -
  have "ipam_lookup (ipam_new tiny_network) (MacAddr 2 0 0 0 0 1) = None"
    by (simp add: ipam_lookup_def ipam_new_def)
  with dhcp_request_ack_iff [OF demo_admits demo_type, of "ipam_new tiny_network"] show ?thesis
    by (auto simp: demo_codec_def dhcp_refusal_def ip_octets_def be32_bytes_def)
qed

end
