(* ===== verification/Dns_Forwarder.thy ===== *)
theory Dns_Forwarder
  imports Net_Model
begin

text \<open>
  The DNS forwarder of \<open>crates/k8netd-svc/src/dns.rs\<close>. The message codec is the third-party
  crate \<open>hickory_proto\<close>, a parameter with the three things the forwarder reads off a decoded
  message; an upstream is what it answers to the one query that a call sends it. The production
  upstream is modelled over the answers of its socket calls.
\<close>

section \<open>Upstreams\<close>

datatype io_kind = WouldBlock | TimedOut | OtherKind

record io_failure =
  iof_kind :: io_kind
  iof_text :: string

datatype upstream_error = UpTimeout | UpRefused | UpIo io_failure

fun upstream_error_clone :: "upstream_error \<Rightarrow> upstream_error" where
  "upstream_error_clone UpTimeout = UpTimeout"
| "upstream_error_clone UpRefused = UpRefused"
| "upstream_error_clone (UpIo err) = UpIo \<lparr>iof_kind = iof_kind err, iof_text = iof_text err\<rparr>"

type_synonym upstream_sender = "bytes \<Rightarrow> (upstream_error, bytes) result"

record udp_upstream =
  up_addr :: "ipv4 \<times> u16"
  up_timeout_ms :: nat

definition udp_upstream_new :: "ipv4 \<Rightarrow> udp_upstream" where
  "udp_upstream_new ip = \<lparr>up_addr = (ip, 53), up_timeout_ms = 2000\<rparr>"

text \<open>The answers of the socket calls of one exchange; each call is made with its arguments.\<close>

record udp_calls =
  udp_bind :: "(io_failure, unit) result"
  udp_connect :: "ipv4 \<times> u16 \<Rightarrow> (io_failure, unit) result"
  udp_set_timeout :: "nat \<Rightarrow> (io_failure, unit) result"
  udp_transmit :: "bytes \<Rightarrow> (io_failure, unit) result"
  udp_recv :: "nat \<Rightarrow> (io_failure, bytes) result"

definition udp_send :: "udp_calls \<Rightarrow> udp_upstream \<Rightarrow> upstream_sender" where
  "udp_send U up query =
     (case udp_bind U of Inl e \<Rightarrow> Inl (UpIo e) | Inr _ \<Rightarrow>
     (case udp_connect U (up_addr up) of Inl e \<Rightarrow> Inl (UpIo e) | Inr _ \<Rightarrow>
     (case udp_set_timeout U (up_timeout_ms up) of Inl e \<Rightarrow> Inl (UpIo e) | Inr _ \<Rightarrow>
     (case udp_transmit U query of Inl e \<Rightarrow> Inl (UpIo e) | Inr _ \<Rightarrow>
     (case udp_recv U 4096 of
        Inr datagram \<Rightarrow> Inr (take 4096 datagram)
      | Inl e \<Rightarrow> if iof_kind e = WouldBlock \<or> iof_kind e = TimedOut then Inl UpTimeout else Inl (UpIo e))))))"

section \<open>The forwarder\<close>

record dns_view =
  dv_id :: u16
  dv_queries :: nat
  dv_is_response :: bool

text \<open>\<open>dn_servfail\<close> is \<open>Message::error_msg(qid, Query, ServFail).to_vec()\<close>.\<close>

record dns_codec =
  dn_decode :: "bytes \<Rightarrow> dns_view option"
  dn_servfail :: "u16 \<Rightarrow> bytes option"

record dns_forwarder =
  fw_upstreams :: "upstream_sender list"

definition dns_forwarder_new :: "upstream_sender list \<Rightarrow> dns_forwarder" where
  "dns_forwarder_new ups = \<lparr>fw_upstreams = ups\<rparr>"

definition servfail :: "dns_codec \<Rightarrow> u16 \<Rightarrow> bytes option" where
  "servfail D qid = dn_servfail D qid"

text \<open>The checks on one upstream's answer.\<close>

definition usable_response :: "dns_codec \<Rightarrow> u16 \<Rightarrow> (upstream_error, bytes) result \<Rightarrow> bytes option" where
  "usable_response D qid r =
     (case r of
        Inl _ \<Rightarrow> None
      | Inr response \<Rightarrow>
     (case dn_decode D response of
        None \<Rightarrow> None
      | Some decoded \<Rightarrow> if dv_is_response decoded \<and> dv_id decoded = qid then Some response else None))"

fun try_upstreams :: "dns_codec \<Rightarrow> u16 \<Rightarrow> bytes \<Rightarrow> upstream_sender list \<Rightarrow> bytes option" where
  "try_upstreams D qid packet [] = None"
| "try_upstreams D qid packet (up # ups) =
     (case usable_response D qid (up packet) of
        Some response \<Rightarrow> Some response
      | None \<Rightarrow> try_upstreams D qid packet ups)"

definition dns_handle :: "dns_codec \<Rightarrow> dns_forwarder \<Rightarrow> bytes \<Rightarrow> bytes option" where
  "dns_handle D fw packet =
     (case dn_decode D packet of
        None \<Rightarrow> None
      | Some query \<Rightarrow>
          if dv_queries query = 0 then None
          else case try_upstreams D (dv_id query) packet (fw_upstreams fw) of
            Some response \<Rightarrow> Some response
          | None \<Rightarrow> servfail D (dv_id query))"

section \<open>Order of the attempts\<close>

lemma usable_response_Some:
  "usable_response D qid r = Some b \<longleftrightarrow>
     r = Inr b \<and> (\<exists>v. dn_decode D b = Some v \<and> dv_is_response v \<and> dv_id v = qid)"
  by (auto simp: usable_response_def split: sum.splits option.splits if_splits)

lemma try_upstreams_Some:
  "try_upstreams D qid packet ups = Some b \<Longrightarrow> \<exists>good \<in> set ups. usable_response D qid (good packet) = Some b"
  by (induction ups) (auto split: option.splits)

lemma try_upstreams_None:
  "try_upstreams D qid packet ups = None \<longleftrightarrow> (\<forall>up \<in> set ups. usable_response D qid (up packet) = None)"
  by (induction ups) (auto split: option.splits)

lemma try_upstreams_first:
  "try_upstreams D qid packet ups =
     (case [b. Inr b \<leftarrow> map (\<lambda>up. up packet) ups, \<exists>v. dn_decode D b = Some v \<and> dv_is_response v \<and> dv_id v = qid] of
        [] \<Rightarrow> None | b # _ \<Rightarrow> Some b)"
  by (induction ups) (auto simp: usable_response_def split: sum.splits option.splits)

section \<open>Properties\<close>

text \<open>
  C35: The forwarder answers a decodable query with at least one question. Of the answers that the
  upstreams give to the same packet, in list order, it keeps those that decode, are marked as a
  response and carry the query's ID, and relays the first of them byte for byte; when there is none
  it answers SERVFAIL for the query's ID. It drops everything else.
\<close>

theorem dns_first_good_upstream:
  "dns_handle D fw packet =
     (case dn_decode D packet of
        None \<Rightarrow> None
      | Some q \<Rightarrow>
          if dv_queries q = 0 then None
          else case [b. Inr b \<leftarrow> map (\<lambda>up. up packet) (fw_upstreams fw),
                        \<exists>v. dn_decode D b = Some v \<and> dv_is_response v \<and> dv_id v = dv_id q] of
            [] \<Rightarrow> dn_servfail D (dv_id q)
          | answer # _ \<Rightarrow> Some answer)"
  by (simp add: dns_handle_def try_upstreams_first servfail_def del: concat_eq_Nil_conv Nil_eq_concat_conv
      split: option.split list.split)

text \<open>
  Every answer the forwarder returns is a response to the query that was asked: it decodes, is
  marked as a response and echoes the query's ID, provided the codec's own SERVFAIL does.
\<close>

lemma dns_answer_matches_query:
  assumes "\<forall>qid b. dn_servfail D qid = Some b \<longrightarrow>
      (\<exists>v. dn_decode D b = Some v \<and> dv_is_response v \<and> dv_id v = qid)"
    and "dns_handle D fw packet = Some answer"
  shows "\<exists>q v. dn_decode D packet = Some q \<and> 0 < dv_queries q \<and> dn_decode D answer = Some v
    \<and> dv_is_response v \<and> dv_id v = dv_id q
    \<and> (answer \<in> (\<lambda>up. case up packet of Inr b \<Rightarrow> b | Inl _ \<Rightarrow> []) ` set (fw_upstreams fw)
       \<or> dn_servfail D (dv_id q) = Some answer)"
proof -
  obtain q where q: "dn_decode D packet = Some q" "0 < dv_queries q"
    using assms(2) by (auto simp: dns_handle_def split: option.splits if_splits)
  show ?thesis
  proof (cases "try_upstreams D (dv_id q) packet (fw_upstreams fw)")
    case None
    then show ?thesis using assms q by (auto simp: dns_handle_def servfail_def)
  next
    case (Some b)
    then have "b = answer" using assms(2) q by (simp add: dns_handle_def)
    with Some obtain good where "good \<in> set (fw_upstreams fw)" "usable_response D (dv_id q) (good packet) = Some answer"
      using try_upstreams_Some by blast
    then show ?thesis using q by (force simp: usable_response_Some)
  qed
qed

end
