(* ===== verification/Passt_Wan.thy ===== *)
theory Passt_Wan
  imports Net_Model
begin

text \<open>
  The WAN subprocess manager of \<open>crates/k8netd-svc/src/passt.rs\<close>: the argument vector, the
  length-prefixed framing of the socket, and the lifecycle of one child. System calls are
  answers of an environment: the socket pair, the outcome of spawning, the exit polls. File
  descriptors that the daemon holds open are a set, so that leaks are visible.
\<close>

section \<open>Configuration and arguments\<close>

definition FRAME_HEADER_LEN :: nat where
  "FRAME_HEADER_LEN = 4"

record port_forward =
  fwd_host :: u16
  fwd_vm :: u16

record passt_config =
  pc_vm_ip :: string
  pc_netmask :: string
  pc_gateway :: string
  pc_forwards :: "port_forward list"

text \<open>\<open>format!\<close> of a \<open>u16\<close> and of a raw file descriptor (a signed C integer).\<close>

definition show_u16 :: "u16 \<Rightarrow> string" where
  "show_u16 w = show_nat (unat w)"

definition show_int :: "int \<Rightarrow> string" where
  "show_int i = (if i < 0 then ''-'' @ show_nat (nat (- i)) else show_nat (nat i))"

definition passt_argv :: "passt_config \<Rightarrow> int \<Rightarrow> string list" where
  "passt_argv config fd =
     [''passt'', ''--fd'', show_int fd, ''-a'', pc_vm_ip config, ''-n'', pc_netmask config,
      ''-g'', pc_gateway config, ''--map-host-loopback'', pc_gateway config]
     @ map (\<lambda>f. ''-t'' @ show_u16 (fwd_host f) @ '':'' @ show_u16 (fwd_vm f)) (pc_forwards config)
     @ [''--foreground'']"

definition passt_config_for :: "string \<Rightarrow> string \<Rightarrow> string \<Rightarrow> (u16, u16) btree_map \<Rightarrow> passt_config" where
  "passt_config_for vm_ip netmask gateway published =
     \<lparr>pc_vm_ip = vm_ip, pc_netmask = netmask, pc_gateway = gateway,
      pc_forwards = map (\<lambda>(vm, host). \<lparr>fwd_host = host, fwd_vm = vm\<rparr>) published\<rparr>"

section \<open>Framing\<close>

datatype vnet_error = VnetTooShort nat | VnetTruncated nat nat

fun show_vnet_error :: "vnet_error \<Rightarrow> string" where
  "show_vnet_error (VnetTooShort n) = ''passt buffer too short: '' @ show_nat n @ '' bytes''"
| "show_vnet_error (VnetTruncated declared have_n) =
     ''passt frame truncated: declared '' @ show_nat declared @ '', have '' @ show_nat have_n"

definition encode_frame :: "bytes \<Rightarrow> bytes" where
  "encode_frame payload = be32_bytes (of_nat (length payload)) @ payload"

text \<open>\<open>usize\<close> has 64 bits: the checked addition of the header length cannot overflow.\<close>

definition decode_frame :: "bytes \<Rightarrow> (vnet_error, bytes) result" where
  "decode_frame buf =
     (if length buf < FRAME_HEADER_LEN then Inl (VnetTooShort (length buf))
      else let len = unat (be32 (buf ! 0) (buf ! 1) (buf ! 2) (buf ! 3));
               fin = FRAME_HEADER_LEN + len
           in if fin \<ge> 2 ^ 64 then Inl (VnetTooShort (length buf))
              else if length buf < fin then Inl (VnetTruncated len (length buf - FRAME_HEADER_LEN))
              else Inr (take len (drop FRAME_HEADER_LEN buf)))"

section \<open>The child process\<close>

record passt_proc =
  pp_pid :: u32
  pp_stream_fd :: int
  pp_served_fd :: int

text \<open>
  What the operating system answers to one spawn: the two ends of the socket pair and the
  process id, or the error text of the call that failed.
\<close>

record spawn_env =
  se_socketpair :: "(string, int \<times> int) result"
  se_child :: "(string, u32) result"

text \<open>
  \<open>PasstProc::spawn\<close> with the set of descriptors the daemon has open. On failure the stream
  that owns the near end is dropped, which closes it.
\<close>

definition passt_spawn ::
  "spawn_env \<Rightarrow> passt_config \<Rightarrow> int set \<Rightarrow> int set \<times> (string, passt_proc \<times> string list) result" where
  "passt_spawn env config fds =
     (case se_socketpair env of
        Inl e \<Rightarrow> (fds, Inl e)
      | Inr (ours, theirs) \<Rightarrow>
          let argv = passt_argv config theirs;
              opened = fds \<union> {ours, theirs}
          in case se_child env of
               Inr pid \<Rightarrow>
                 (opened - {theirs},
                  Inr (\<lparr>pp_pid = pid, pp_stream_fd = ours, pp_served_fd = theirs\<rparr>, argv))
             | Inl e \<Rightarrow> (opened - {ours} - {theirs}, Inl e))"

text \<open>\<open>matches!(try_wait(), Ok(Some(_)))\<close> on one poll of the child.\<close>

definition passt_exited :: "(string, bool) result \<Rightarrow> bool" where
  "passt_exited poll = (poll = Inr True)"

text \<open>
  The wait loop of \<open>terminate\<close> after SIGTERM: \<open>wait i\<close> is the \<open>i\<close>-th poll (\<open>Inr True\<close> when
  the child has exited) and \<open>now i\<close> the clock after it, in milliseconds. The loop sleeps at
  least 10 ms per turn. \<open>TermKill\<close> stands for falling out of the loop into \<open>kill()\<close>. The whole
  method gives the signals sent to the child, SIGTERM first, and what it returns.
\<close>

datatype child_signal = SigTerm | SigKill

datatype term_outcome = TermExited | TermError string | TermKill

fun terminate_loop ::
  "nat \<Rightarrow> (nat \<Rightarrow> (string, bool) result) \<Rightarrow> (nat \<Rightarrow> nat) \<Rightarrow> nat \<Rightarrow> nat \<Rightarrow> term_outcome option" where
  "terminate_loop 0 wait now deadline i = None"
| "terminate_loop (Suc fuel) wait now deadline i =
     (case wait i of
        Inl e \<Rightarrow> Some (TermError e)
      | Inr True \<Rightarrow> Some TermExited
      | Inr False \<Rightarrow>
          if now i \<ge> deadline then Some TermKill
          else terminate_loop fuel wait now deadline (Suc i))"

text \<open>A turn takes at least the 10 ms that the loop sleeps, so this many turns are enough.\<close>

definition terminate_fuel :: "nat \<Rightarrow> nat" where
  "terminate_fuel grace = grace div 10 + 2"

definition passt_terminate ::
  "(nat \<Rightarrow> (string, bool) result) \<Rightarrow> (nat \<Rightarrow> nat) \<Rightarrow> nat \<Rightarrow> nat \<Rightarrow> (string, unit) result \<Rightarrow>
     (child_signal list \<times> (string, unit) result) option" where
  "passt_terminate wait now start grace kill =
     (case terminate_loop (terminate_fuel grace) wait now (start + grace) 0 of
        None \<Rightarrow> None
      | Some TermExited \<Rightarrow> Some ([SigTerm], Inr ())
      | Some (TermError e) \<Rightarrow> Some ([SigTerm], Inl e)
      | Some TermKill \<Rightarrow> Some ([SigTerm, SigKill], kill))"

section \<open>Streams of frames\<close>

text \<open>
  \<open>next_frame\<close> of the dataplane and its use in a loop: decode frames from the front of the
  buffer for as long as a whole one is there. Every frame takes at least its header, so the
  length of the buffer is enough fuel.
\<close>

definition next_frame :: "bytes \<Rightarrow> (nat \<times> bytes) option" where
  "next_frame buf =
     (case decode_frame buf of Inl _ \<Rightarrow> None | Inr payload \<Rightarrow> Some (FRAME_HEADER_LEN + length payload, payload))"

function drain_frames :: "bytes \<Rightarrow> bytes list \<times> bytes" where
  "drain_frames pending =
     (case next_frame pending of
        None \<Rightarrow> ([], pending)
      | Some (consumed, payload) \<Rightarrow>
          (case drain_frames (drop consumed pending) of (fs, rest) \<Rightarrow> (payload # fs, rest)))"
  by pat_completeness auto

section \<open>Decoding inverts encoding\<close>

lemma decode_frame_Inr:
  "decode_frame buf = Inr payload \<Longrightarrow>
     FRAME_HEADER_LEN + length payload \<le> length buf \<and> payload = take (length payload) (drop FRAME_HEADER_LEN buf)"
  by (auto simp: decode_frame_def Let_def split: if_splits)

lemma next_frame_consumes: "next_frame buf = Some (consumed, payload) \<Longrightarrow> 0 < consumed \<and> consumed \<le> length buf"
  by (auto simp: next_frame_def FRAME_HEADER_LEN_def dest: decode_frame_Inr split: sum.splits)

termination drain_frames
  by (relation "measure length") (auto dest: next_frame_consumes)

declare drain_frames.simps [simp del]

lemma length_encode_frame [simp, byte_simps]: "length (encode_frame p) = 4 + length p"
  by (simp add: encode_frame_def)

lemma decode_encode:
  assumes "length p < 2 ^ 32"
  shows "decode_frame (encode_frame p @ rest) = Inr p"
proof -
  let ?w = "of_nat (length p) :: u32"
  have n: "unat ?w = length p" using assms by (simp add: unsigned_of_nat take_bit_nat_eq_self)
  have "be32 ((encode_frame p @ rest) ! 0) ((encode_frame p @ rest) ! 1) ((encode_frame p @ rest) ! 2)
      ((encode_frame p @ rest) ! 3) = ?w"
    by (simp add: encode_frame_def be32_bytes_def nth_append)
  then show ?thesis
    using assms n by (simp add: decode_frame_def FRAME_HEADER_LEN_def Let_def encode_frame_def)
qed

text \<open>A proper prefix of one encoded frame is never decoded.\<close>

lemma decode_prefix:
  assumes "length p < 2 ^ 32" "n < length (encode_frame p)"
  shows "\<exists>e. decode_frame (take n (encode_frame p)) = Inl e"
proof (cases "n < 4")
  case True
  then show ?thesis by (simp add: decode_frame_def FRAME_HEADER_LEN_def)
next
  case False
  have u: "unat (of_nat (length p) :: u32) = length p"
    using assms(1) by (simp add: unsigned_of_nat take_bit_nat_eq_self)
  have "be32 (take n (encode_frame p) ! 0) (take n (encode_frame p) ! 1) (take n (encode_frame p) ! 2)
      (take n (encode_frame p) ! 3) = of_nat (length p)"
    using False by (simp add: encode_frame_def be32_bytes_def nth_append)
  then show ?thesis
    using assms(2) False u by (simp add: decode_frame_def FRAME_HEADER_LEN_def Let_def min_def)
qed

section \<open>Framed streams\<close>

text \<open>
  A decoder that takes whole frames off the front of a buffer does not care how the stream was
  cut into reads. The contract is what the reader relies on of the framing.
\<close>

locale framed_stream =
  fixes enc :: "'p \<Rightarrow> 'b list"
    and nxt :: "'b list \<Rightarrow> (nat \<times> 'p) option"
    and ok :: "'p \<Rightarrow> bool"
    and drain :: "'b list \<Rightarrow> 'p list \<times> 'b list"
  assumes nxt_enc: "ok p \<Longrightarrow> nxt (enc p @ rest) = Some (length (enc p), p)"
    and nxt_empty: "nxt [] = None"
    and nxt_mono: "nxt buf = Some (c, p) \<Longrightarrow> 0 < c \<and> c \<le> length buf \<and> nxt (buf @ tl_bytes) = Some (c, p)"
    and drain_unfold: "drain buf = (case nxt buf of
          None \<Rightarrow> ([], buf)
        | Some (c, p) \<Rightarrow> (case drain (drop c buf) of (ps, rest) \<Rightarrow> (p # ps, rest)))"
begin

lemma drain_append:
  "drain a = (ps, r) \<Longrightarrow> drain (a @ b) = (case drain (r @ b) of (qs, r') \<Rightarrow> (ps @ qs, r'))"
proof (induction a arbitrary: ps r rule: length_induct)
  case (1 a)
  show ?case
  proof (cases "nxt a")
    case None
    then have "ps = []" "r = a" using "1.prems" drain_unfold [of a] by simp_all
    then show ?thesis by (simp split: prod.splits)
  next
    case (Some cp)
    obtain c p where cp: "cp = (c, p)" by (cases cp)
    obtain qs r' where d: "drain (drop c a) = (qs, r')" by (cases "drain (drop c a)")
    have m: "0 < c" "c \<le> length a" "nxt (a @ b) = Some (c, p)" using nxt_mono Some cp by blast+
    have pr: "ps = p # qs" "r = r'" using "1.prems" drain_unfold [of a] Some cp d by simp_all
    have "length (drop c a) < length a" using m(1,2) by simp
    with "1.IH" d have "drain (drop c a @ b) = (case drain (r' @ b) of (zs, r'') \<Rightarrow> (qs @ zs, r''))" by blast
    then show ?thesis
      using m(2,3) pr drain_unfold [of "a @ b"] by (simp split: prod.splits)
  qed
qed

lemma drain_encoded: "(\<forall>p \<in> set ps. ok p) \<Longrightarrow> drain (concat (map enc ps)) = (ps, [])"
proof (induction ps)
  case Nil
  then show ?case using drain_unfold [of "[]"] by (simp add: nxt_empty)
next
  case (Cons p ps)
  then show ?case using drain_unfold [of "concat (map enc (p # ps))"] by (simp add: nxt_enc)
qed

text \<open>Reading chunk by chunk, keeping the undecoded rest.\<close>

lemma feed_chunks:
  assumes "drain pend = ([], pend)"
  shows "foldl (\<lambda>(out, pend) chunk. case drain (pend @ chunk) of (fs, rest) \<Rightarrow> (out @ fs, rest)) (out, pend) chunks
    = (case drain (pend @ concat chunks) of (fs, rest) \<Rightarrow> (out @ fs, rest))"
  using assms
proof (induction chunks arbitrary: out pend)
  case Nil
  then show ?case by simp
next
  case (Cons c cs)
  obtain fs rest where d: "drain (pend @ c) = (fs, rest)" by (cases "drain (pend @ c)")
  have idem: "drain rest = ([], rest)"
    using drain_append [OF d, of "[]"] d by (simp split: prod.splits)
  show ?case
    using Cons.IH [OF idem, of "out @ fs"] drain_append [OF d, of "concat cs"] d
    by (simp split: prod.splits)
qed

end

lemma decode_frame_append: "decode_frame a = Inr p \<Longrightarrow> decode_frame (a @ b) = Inr p"
  by (auto simp: decode_frame_def Let_def FRAME_HEADER_LEN_def nth_append split: if_splits)

interpretation pst: framed_stream encode_frame next_frame "\<lambda>p. length p < 2 ^ 32" drain_frames
proof (unfold_locales, goal_cases)
  case (1 p rest)
  then show ?case using decode_encode [of p rest] by (simp add: next_frame_def FRAME_HEADER_LEN_def)
next
  case 2
  then show ?case by (simp add: next_frame_def decode_frame_def FRAME_HEADER_LEN_def)
next
  case (3 buf c p tl_bytes)
  then have "decode_frame buf = Inr p" "c = FRAME_HEADER_LEN + length p"
    by (auto simp: next_frame_def split: sum.splits)
  then have "next_frame (buf @ tl_bytes) = Some (c, p)"
    using decode_frame_append [of buf p tl_bytes] by (simp add: next_frame_def)
  then show ?case using next_frame_consumes [OF 3] by simp
next
  case (4 buf)
  then show ?case by (rule drain_frames.simps)
qed

section \<open>Termination of the wait loop\<close>

lemma terminate_loop_enough:
  assumes clock: "\<And>i. start + 10 * i \<le> now i"
  shows "grace \<le> 10 * (i + fuel) \<Longrightarrow> \<exists>out. terminate_loop (Suc fuel) wait now (start + grace) i = Some out"
proof (induction fuel arbitrary: i)
  case 0
  then have "start + grace \<le> now i" using clock [of i] by simp
  then show ?case by (auto split: sum.splits bool.splits)
next
  case (Suc fuel)
  then obtain out where "terminate_loop (Suc fuel) wait now (start + grace) (Suc i) = Some out" by fastforce
  then show ?case by (subst terminate_loop.simps) (auto simp del: terminate_loop.simps split: sum.splits bool.splits)
qed

lemma terminate_loop_result:
  "terminate_loop fuel wait now deadline i = Some out \<Longrightarrow>
     \<exists>j \<ge> i. (\<forall>k. i \<le> k \<longrightarrow> k < j \<longrightarrow> wait k = Inr False \<and> now k < deadline)
       \<and> (case out of TermExited \<Rightarrow> wait j = Inr True | TermError e \<Rightarrow> wait j = Inl e
          | TermKill \<Rightarrow> wait j = Inr False \<and> deadline \<le> now j)"
proof (induction fuel wait now deadline i rule: terminate_loop.induct)
  case (2 fuel wait now deadline i)
  show ?case
  proof (cases "wait i = Inr False \<and> now i < deadline")
    case True
    then obtain j where j: "j \<ge> Suc i" "\<forall>k. Suc i \<le> k \<longrightarrow> k < j \<longrightarrow> wait k = Inr False \<and> now k < deadline"
      "case out of TermExited \<Rightarrow> wait j = Inr True | TermError e \<Rightarrow> wait j = Inl e
          | TermKill \<Rightarrow> wait j = Inr False \<and> deadline \<le> now j"
      using 2 by (auto split: if_splits)
    then show ?thesis using True by (metis Suc_leD Suc_leI le_neq_implies_less)
  next
    case False
    then show ?thesis using "2.prems" by (intro exI [of _ i]) (auto split: sum.splits bool.splits if_splits)
  qed
qed simp

section \<open>Properties\<close>

text \<open>
  C36: Framing over the passt socket. Encode any frames below 4 GiB, cut the bytes into reads at
  any places: decoding read by read, keeping the undecoded rest, gives back exactly these frames
  in order and leaves nothing behind.
\<close>

theorem passt_stream_roundtrip:
  assumes "\<forall>p \<in> set payloads. length p < 2 ^ 32" "concat reads = concat (map encode_frame payloads)"
  shows "foldl (\<lambda>(out, pend) chunk. case drain_frames (pend @ chunk) of (fs, rest) \<Rightarrow> (out @ fs, rest)) ([], []) reads
    = (payloads, [])"
proof -
  have "drain_frames [] = ([], [])" using pst.drain_encoded [of "[]"] by simp
  from pst.feed_chunks [OF this, of "[]" reads] show ?thesis
    using pst.drain_encoded [OF assms(1)] assms(2) by simp
qed

theorem passt_stream_roundtrip_witness:
  "foldl (\<lambda>(out, pend) chunk. case drain_frames (pend @ chunk) of (fs, rest) \<Rightarrow> (out @ fs, rest)) ([], [])
     [[0, 0], [0, 2, 7], [8, 0, 0, 0], [1, 9]] = ([[7, 8], [9]], [])"
  by (rule passt_stream_roundtrip) (simp_all add: encode_frame_def be32_bytes_def)



text \<open>
  C38: Stopping a child ends. With a clock that advances by the 10 ms each turn sleeps, the wait
  loop returns within the bound of the grace period. The child is sent SIGTERM first; SIGKILL
  follows only when every poll so far found the child alive and the grace period is over, and a
  child that exits or cannot be polled is sent nothing more.
\<close>

theorem passt_terminate_returns:
  assumes "\<forall>i. start + 10 * i \<le> now i"
  shows "\<exists>sigs r. passt_terminate wait now start grace kill = Some (sigs, r)
    \<and> (sigs = [SigTerm] \<and> r = Inr () \<and> (\<exists>j. wait j = Inr True)
       \<or> sigs = [SigTerm] \<and> (\<exists>j e. wait j = Inl e \<and> r = Inl e)
       \<or> sigs = [SigTerm, SigKill] \<and> r = kill \<and> (\<exists>j. start + grace \<le> now j \<and> (\<forall>k \<le> j. wait k = Inr False)))"
proof -
  have "grace \<le> 10 * (0 + (grace div 10 + 1))" by simp
  from terminate_loop_enough [OF assms [rule_format] this]
  obtain out where out: "terminate_loop (terminate_fuel grace) wait now (start + grace) 0 = Some out"
    by (auto simp: terminate_fuel_def)
  from terminate_loop_result [OF out] obtain j where j: "\<forall>k < j. wait k = Inr False"
    "case out of TermExited \<Rightarrow> wait j = Inr True | TermError e \<Rightarrow> wait j = Inl e
          | TermKill \<Rightarrow> wait j = Inr False \<and> start + grace \<le> now j" by auto
  have "\<forall>k \<le> j. wait k = Inr False" if "out = TermKill" using j that by (auto simp: le_less)
  then show ?thesis
    using j out by (cases out) (auto simp: passt_terminate_def)
qed

theorem passt_terminate_returns_witness:
  "passt_terminate (\<lambda>_. Inr False) (\<lambda>i. 7 + 10 * i) 7 500 (Inr ()) = Some ([SigTerm, SigKill], Inr ())"
  using passt_terminate_returns [of 7 "\<lambda>i. 7 + 10 * i" "\<lambda>_. Inr False" 500 "Inr ()"] by auto

end
