(* ===== verification/Mac_Table.thy ===== *)
theory Mac_Table
  imports Net_Model "HOL-Library.Multiset"
begin

text \<open>
  The MAC learning table of \<open>crates/k8netd-core/src/switch/mac_table.rs\<close>: a bounded hash map
  with a recency stamp per entry and eviction of the least recently used entry. The refinement
  lemma compares it with a list kept in recency order; the contract the switch relies on is the
  locale \<open>learning_table\<close>.
\<close>

datatype port_id = PortId u32

fun port_num :: "port_id \<Rightarrow> u32" where
  "port_num (PortId n) = n"

fun show_port_id :: "port_id \<Rightarrow> string" where
  "show_port_id (PortId n) = ''port '' @ show_nat (unat n)"

record mt_entry =
  ent_port :: port_id
  ent_last_seen :: u64

record mac_table =
  mt_capacity :: nat
  mt_clock :: u64
  mt_entries :: "(mac_addr, mt_entry) hash_map"

definition mt_new :: "nat \<Rightarrow> mac_table" where
  "mt_new capacity = \<lparr>mt_capacity = capacity, mt_clock = 0, mt_entries = []\<rparr>"

text \<open>\<open>Iterator::min_by_key\<close>: the first element with the least key.\<close>

fun min_by_key :: "('a \<Rightarrow> 'b::linorder) \<Rightarrow> 'a list \<Rightarrow> 'a option" where
  "min_by_key f [] = None"
| "min_by_key f (x # xs) =
     (case min_by_key f xs of None \<Rightarrow> Some x | Some y \<Rightarrow> if f x \<le> f y then Some x else Some y)"

definition mt_evict_lru :: "mac_table \<Rightarrow> (mac_addr, mt_entry) hash_map" where
  "mt_evict_lru t =
     (if length (mt_entries t) = mt_capacity t then
        (case min_by_key (\<lambda>(_, e). ent_last_seen e) (mt_entries t) of
           None \<Rightarrow> mt_entries t
         | Some (lru, _) \<Rightarrow> hm_remove lru (mt_entries t))
      else mt_entries t)"

definition mt_learn :: "mac_table \<Rightarrow> port_id \<Rightarrow> mac_addr \<Rightarrow> mac_table" where
  "mt_learn t prt mac =
     (if mt_capacity t = 0 then t
      else let clock = mt_clock t + 1 in
        case map_of (mt_entries t) mac of
          Some _ \<Rightarrow>
            t\<lparr>mt_clock := clock,
              mt_entries := hm_insert mac \<lparr>ent_port = prt, ent_last_seen = clock\<rparr> (mt_entries t)\<rparr>
        | None \<Rightarrow>
            t\<lparr>mt_clock := clock,
              mt_entries := hm_insert mac \<lparr>ent_port = prt, ent_last_seen = clock\<rparr> (mt_evict_lru t)\<rparr>)"

definition mt_lookup :: "mac_table \<Rightarrow> mac_addr \<Rightarrow> port_id option" where
  "mt_lookup t mac = map_option ent_port (map_of (mt_entries t) mac)"

definition mt_evict :: "mac_table \<Rightarrow> mac_addr \<Rightarrow> mac_table \<times> bool" where
  "mt_evict t mac =
     (t\<lparr>mt_entries := hm_remove mac (mt_entries t)\<rparr>, map_of (mt_entries t) mac \<noteq> None)"

definition mt_len :: "mac_table \<Rightarrow> nat" where
  "mt_len t = length (mt_entries t)"

definition mt_is_empty :: "mac_table \<Rightarrow> bool" where
  "mt_is_empty t = (mt_entries t = [])"

section \<open>Invariant and reference model\<close>

definition mt_inv :: "mac_table \<Rightarrow> bool" where
  "mt_inv t = (hm_wf (mt_entries t) \<and> length (mt_entries t) \<le> mt_capacity t)"

text \<open>While the clock has not wrapped, stamps are distinct and never ahead of the clock.\<close>

definition mt_stamped :: "mac_table \<Rightarrow> bool" where
  "mt_stamped t =
     (distinct (map (ent_last_seen \<circ> snd) (mt_entries t))
      \<and> (\<forall>e \<in> set (mt_entries t). ent_last_seen (snd e) \<le> mt_clock t))"

text \<open>The reference: entries in recency order, most recent first, cut at the capacity.\<close>

definition lru_learn :: "nat \<Rightarrow> port_id \<Rightarrow> mac_addr \<Rightarrow> (mac_addr \<times> port_id) list \<Rightarrow> (mac_addr \<times> port_id) list" where
  "lru_learn cap prt mac l =
     (if cap = 0 then l else take cap ((mac, prt) # filter (\<lambda>e. fst e \<noteq> mac) l))"

definition by_recency :: "(mac_addr, mt_entry) hash_map \<Rightarrow> (mac_addr, mt_entry) hash_map" where
  "by_recency es = rev (sort_key (ent_last_seen \<circ> snd) es)"

definition lru_of :: "mac_table \<Rightarrow> (mac_addr \<times> port_id) list" where
  "lru_of t = map (\<lambda>(m, e). (m, ent_port e)) (by_recency (mt_entries t))"

section \<open>Bounds and lookup\<close>

lemma min_by_key_None [simp]: "min_by_key f xs = None \<longleftrightarrow> xs = []"
  by (cases xs) (auto split: option.splits)

lemma min_by_key_Some:
  "min_by_key f xs = Some x \<Longrightarrow> x \<in> set xs \<and> (\<forall>y \<in> set xs. f x \<le> f y)"
proof (induction xs arbitrary: x)
  case (Cons a xs)
  show ?case
  proof (cases "min_by_key f xs")
    case None
    with Cons.prems show ?thesis by simp
  next
    case (Some y)
    with Cons.prems Cons.IH [OF Some] show ?thesis by (auto split: if_splits intro: order_trans)
  qed
qed simp

lemma length_hm_insert_new: "map_of m k = None \<Longrightarrow> length (hm_insert k v m) = Suc (length m)"
  unfolding hm_insert_def by (induction m) (auto split: if_splits)

lemma length_hm_insert_old: "map_of m k \<noteq> None \<Longrightarrow> length (hm_insert k v m) = length m"
  unfolding hm_insert_def by (induction m) (auto split: if_splits)

lemma length_hm_remove_mem: "map_of m k \<noteq> None \<Longrightarrow> length (hm_remove k m) < length m"
  unfolding hm_remove_def AList.delete_eq
  by (induction m) (auto split: if_splits intro: le_imp_less_Suc simp: length_filter_le)

lemma mt_evict_lru_wf: "hm_wf (mt_entries t) \<Longrightarrow> hm_wf (mt_evict_lru t)"
  by (auto simp: mt_evict_lru_def split: option.splits)

lemma mt_evict_lru_length:
  assumes "mt_inv t" "mt_capacity t \<noteq> 0"
  shows "length (mt_evict_lru t) < mt_capacity t"
proof (cases "length (mt_entries t) = mt_capacity t")
  case True
  then obtain p where p: "min_by_key (\<lambda>(_, e). ent_last_seen e) (mt_entries t) = Some p"
    using assms(2) by (cases "min_by_key (\<lambda>(_, e). ent_last_seen e) (mt_entries t)") auto
  obtain k e where ke: "p = (k, e)" by (cases p)
  have "(k, e) \<in> set (mt_entries t)" using min_by_key_Some [OF p] ke by simp
  then have "map_of (mt_entries t) k \<noteq> None" using weak_map_of_SomeI by fastforce
  then have "length (hm_remove k (mt_entries t)) < length (mt_entries t)" by (rule length_hm_remove_mem)
  with p ke True show ?thesis by (simp add: mt_evict_lru_def)
next
  case False
  with assms(1) show ?thesis by (simp add: mt_evict_lru_def mt_inv_def)
qed

lemma mt_evict_lru_sub: "map_of (mt_evict_lru t) k = Some e \<Longrightarrow> map_of (mt_entries t) k = Some e"
  by (auto simp: mt_evict_lru_def split: option.splits if_splits)

lemma mt_learn_capacity [simp]: "mt_capacity (mt_learn t p m) = mt_capacity t"
  by (simp add: mt_learn_def Let_def split: option.splits)

lemma mt_learn_inv: "mt_inv t \<Longrightarrow> mt_inv (mt_learn t p m)"
proof -
  assume i: "mt_inv t"
  show ?thesis
  proof (cases "mt_capacity t = 0")
    case True
    with i show ?thesis by (simp add: mt_learn_def)
  next
    case False
    note c = this
    show ?thesis
    proof (cases "map_of (mt_entries t) m")
      case None
      have "map_of (mt_evict_lru t) m = None" using None mt_evict_lru_sub [of t m] by (cases "map_of (mt_evict_lru t) m") auto
      then show ?thesis
        using i c None mt_evict_lru_length [OF i c] mt_evict_lru_wf
        by (simp add: mt_learn_def mt_inv_def Let_def length_hm_insert_new)
    next
      case (Some e)
      with i c show ?thesis by (simp add: mt_learn_def mt_inv_def Let_def length_hm_insert_old)
    qed
  qed
qed

lemma mt_lookup_learn_same: "mt_capacity t \<noteq> 0 \<Longrightarrow> mt_lookup (mt_learn t p m) m = Some p"
  by (simp add: mt_learn_def mt_lookup_def Let_def split: option.splits)

lemma mt_lookup_learn_other:
  assumes "k \<noteq> m" "mt_lookup (mt_learn t p m) k = Some q"
  shows "mt_lookup t k = Some q"
  using assms by (auto simp: mt_learn_def mt_lookup_def Let_def dest: mt_evict_lru_sub split: option.splits if_splits)

text \<open>What the forwarding engine relies on of the table.\<close>

locale learning_table =
  fixes inv :: "'t \<Rightarrow> bool"
    and lookup :: "'t \<Rightarrow> 'm \<Rightarrow> 'p option"
    and learn :: "'t \<Rightarrow> 'p \<Rightarrow> 'm \<Rightarrow> 't"
  assumes inv_learn: "inv t \<Longrightarrow> inv (learn t p m)"
    and learn_same: "inv t \<Longrightarrow> lookup (learn t p m) m = Some p"
    and learn_other: "inv t \<Longrightarrow> k \<noteq> m \<Longrightarrow> lookup (learn t p m) k = Some q \<Longrightarrow> lookup t k = Some q"
begin

text \<open>After any run of observations, an answer is a port on which the MAC was last seen.\<close>

lemma run_inv: "inv t \<Longrightarrow> inv (fold (\<lambda>(p, m) t. learn t p m) obs t)"
  by (induction obs arbitrary: t) (auto intro: inv_learn)

end

definition mt_ready :: "mac_table \<Rightarrow> bool" where
  "mt_ready t = (mt_inv t \<and> mt_capacity t \<noteq> 0)"

interpretation mtl: learning_table mt_ready mt_lookup mt_learn
  by unfold_locales (auto simp: mt_ready_def mt_learn_inv mt_lookup_learn_same dest: mt_lookup_learn_other)

section \<open>Refinement of the recency list\<close>

lemma sorted_wrt_set_unique:
  assumes "\<And>x. \<not> R x x" "\<And>x y. R x y \<Longrightarrow> \<not> R y x"
  shows "sorted_wrt R xs \<Longrightarrow> sorted_wrt R ys \<Longrightarrow> set xs = set ys \<Longrightarrow> xs = ys"
proof (induction xs arbitrary: ys)
  case Nil
  then show ?case by simp
next
  case (Cons x xs)
  obtain y ys' where ys: "ys = y # ys'" using Cons.prems(3) by (cases ys) auto
  have "x = y"
  proof (rule ccontr)
    assume "x \<noteq> y"
    then have "R x y" "R y x" using Cons.prems ys by (metis list.set_intros(1) set_ConsD sorted_wrt.simps(2))+
    then show False using assms(2) by blast
  qed
  moreover have "x \<notin> set xs" "y \<notin> set ys'" using Cons.prems ys assms(1) by auto
  ultimately have "set xs = set ys'" using Cons.prems(3) ys by auto
  then show ?case using Cons.IH [of ys'] Cons.prems(1,2) ys \<open>x = y\<close> by simp
qed

definition newer :: "mac_addr \<times> mt_entry \<Rightarrow> mac_addr \<times> mt_entry \<Rightarrow> bool" where
  "newer x y = (ent_last_seen (snd y) < ent_last_seen (snd x))"

lemma by_recency_set [simp]: "set (by_recency es) = set es" "length (by_recency es) = length es"
  by (simp_all add: by_recency_def)

lemma by_recency_sorted:
  assumes "distinct (map (ent_last_seen \<circ> snd) es)"
  shows "sorted_wrt newer (by_recency es)"
proof -
  let ?f = "ent_last_seen \<circ> snd" and ?s = "sort_key (ent_last_seen \<circ> snd) es"
  have "distinct (map ?f ?s)" using assms by (simp add: distinct_map)
  then have "sorted_wrt (<) (map ?f ?s)" by (simp add: strict_sorted_iff)
  then show ?thesis
    by (simp add: by_recency_def sorted_wrt_rev sorted_wrt_map newer_def comp_def)
qed

lemma by_recency_unique:
  assumes "distinct (map (ent_last_seen \<circ> snd) es)" "sorted_wrt newer l" "set l = set es"
  shows "by_recency es = l"
  by (rule sorted_wrt_set_unique [OF _ _ by_recency_sorted [OF assms(1)] assms(2)])
    (use assms(3) in \<open>auto simp: newer_def\<close>)

lemma set_hm_insert:
  assumes "hm_wf m"
  shows "set (hm_insert k v m) = insert (k, v) {e \<in> set m. fst e \<noteq> k}"
proof -
  have w: "hm_wf (hm_insert k v m)" using assms by simp
  have "(a, b) \<in> set (hm_insert k v m) \<longleftrightarrow> (a, b) \<in> insert (k, v) {e \<in> set m. fst e \<noteq> k}" for a b
    using hm_mem_iff [OF w, of a b] hm_mem_iff [OF assms, of a b] by auto
  then show ?thesis by auto
qed

lemma learn_entries:
  assumes wf: "hm_wf es" and d: "distinct (map (ent_last_seen \<circ> snd) es)"
    and b: "\<forall>e \<in> set es. ent_last_seen (snd e) < ent_last_seen v"
  shows "by_recency (hm_insert k v es) = (k, v) # filter (\<lambda>e. fst e \<noteq> k) (by_recency es)"
    and "distinct (map (ent_last_seen \<circ> snd) (hm_insert k v es))"
proof -
  have st: "set (hm_insert k v es) = insert (k, v) {e \<in> set es. fst e \<noteq> k}" by (rule set_hm_insert [OF wf])
  have "distinct (hm_insert k v es)"
    using hm_wf_insert [OF wf] by (auto simp: hm_wf_def distinct_map)
  moreover have "inj_on (ent_last_seen \<circ> snd) (set (hm_insert k v es))"
    using d b unfolding st distinct_map by (auto simp: inj_on_def)
  ultimately show dd: "distinct (map (ent_last_seen \<circ> snd) (hm_insert k v es))"
    by (simp only: distinct_map)
  have "sorted_wrt newer ((k, v) # filter (\<lambda>e. fst e \<noteq> k) (by_recency es))"
    using by_recency_sorted [OF d] b by (auto simp: sorted_wrt_filter newer_def)
  then show "by_recency (hm_insert k v es) = (k, v) # filter (\<lambda>e. fst e \<noteq> k) (by_recency es)"
    by (rule by_recency_unique [OF dd]) (auto simp: st)
qed

lemma evicted_recency:
  assumes wf: "hm_wf es" and d: "distinct (map (ent_last_seen \<circ> snd) es)"
    and m: "min_by_key (\<lambda>(_, e). ent_last_seen e) es = Some (k, e)"
  shows "by_recency (hm_remove k es) = butlast (by_recency es)"
    and "distinct (map (ent_last_seen \<circ> snd) (hm_remove k es))"
proof -
  have rm: "hm_remove k es = filter (\<lambda>p. fst p \<noteq> k) es"
    unfolding hm_remove_def by (auto simp: AList.delete_eq case_prod_unfold intro: filter_cong)
  show dd: "distinct (map (ent_last_seen \<circ> snd) (hm_remove k es))"
    unfolding rm using d by (rule distinct_map_filter)
  have ke: "(k, e) \<in> set es" "\<And>q. q \<in> set es \<Longrightarrow> ent_last_seen e \<le> ent_last_seen (snd q)"
    using min_by_key_Some [OF m] by (auto simp: case_prod_unfold)
  let ?l = "by_recency es"
  have ne: "?l \<noteq> []" using ke(1) by (metis by_recency_set(1) empty_iff list.set(1))
  have split: "?l = butlast ?l @ [last ?l]" using ne by simp
  have sl: "sorted_wrt newer ?l" by (rule by_recency_sorted [OF d])
  have last: "last ?l = (k, e)"
  proof (rule ccontr)
    assume n: "last ?l \<noteq> (k, e)"
    have "(k, e) \<in> set (butlast ?l)"
      using ke(1) n split by (metis Un_iff by_recency_set(1) empty_iff empty_set set_ConsD set_append)
    moreover have "sorted_wrt newer (butlast ?l @ [last ?l])" using sl split by simp
    ultimately have "newer (k, e) (last ?l)" by (simp only: sorted_wrt_append) auto
    moreover have "last ?l \<in> set es" using last_in_set [OF ne] by simp
    ultimately show False using ke(2) [of "last ?l"] by (simp add: newer_def)
  qed
  have "distinct (map fst es)" using wf by (simp add: hm_wf_def)
  then have uniq: "q \<in> set es \<Longrightarrow> fst q = k \<Longrightarrow> q = (k, e)" for q
    using ke(1) by (metis eq_key_imp_eq_value prod.collapse)
  have "distinct ?l" using d by (metis by_recency_def distinct_map distinct_rev distinct_sort)
  then have "(k, e) \<notin> set (butlast ?l)" using split last by (metis distinct_append disjoint_iff list.set_intros(1))
  moreover have "set es = insert (k, e) (set (butlast ?l))"
    using arg_cong [OF split, of set] last by simp
  ultimately have "set (butlast ?l) = set es - {(k, e)}" by blast
  also have "\<dots> = {q \<in> set es. fst q \<noteq> k}" using uniq fst_conv [of k e] by blast
  finally have "set (butlast ?l) = {q \<in> set es. fst q \<noteq> k}" .
  moreover have "sorted_wrt newer (butlast ?l)" using sl split by (metis sorted_wrt_append)
  ultimately show "by_recency (hm_remove k es) = butlast ?l"
    by (intro by_recency_unique [OF dd]) (auto simp: rm)
qed

lemma clock_tick: "(x :: u64) \<noteq> - 1 \<Longrightarrow> x < x + 1"
proof -
  assume "x \<noteq> - 1"
  then have "1 + x \<noteq> 0" by (metis add.commute eq_neg_iff_add_eq_0)
  then show ?thesis using unatSuc [of x] by (simp add: word_less_nat_alt add.commute)
qed

lemma filter_map_fst:
  "filter (\<lambda>e. fst e \<noteq> k) (map (\<lambda>(m, e). (m, f e)) l) = map (\<lambda>(m, e). (m, f e)) (filter (\<lambda>e. fst e \<noteq> k) l)"
  by (induction l) auto

definition lru_list :: "(mac_addr, mt_entry) hash_map \<Rightarrow> (mac_addr \<times> port_id) list" where
  "lru_list es = map (\<lambda>(m, e). (m, ent_port e)) (by_recency es)"

lemma lru_list_insert:
  assumes "hm_wf es" "distinct (map (ent_last_seen \<circ> snd) es)"
    "\<forall>e \<in> set es. ent_last_seen (snd e) < ent_last_seen v"
  shows "lru_list (hm_insert k v es) = (k, ent_port v) # filter (\<lambda>e. fst e \<noteq> k) (lru_list es)"
  using learn_entries(1) [OF assms] by (simp add: lru_list_def filter_map_fst)

lemma lru_list_props [simp]:
  "length (lru_list es) = length es" "fst ` set (lru_list es) = fst ` set es"
  by (force simp: lru_list_def image_iff)+

text \<open>The entries the new stamp is added to: the table itself, or the table without its oldest.\<close>

definition learn_base :: "mac_table \<Rightarrow> mac_addr \<Rightarrow> (mac_addr, mt_entry) hash_map" where
  "learn_base t m = (if map_of (mt_entries t) m = None then mt_evict_lru t else mt_entries t)"

lemma mt_learn_entries:
  "mt_capacity t \<noteq> 0 \<Longrightarrow> mt_entries (mt_learn t p m) =
     hm_insert m \<lparr>ent_port = p, ent_last_seen = mt_clock t + 1\<rparr> (learn_base t m)"
  by (auto simp: mt_learn_def learn_base_def Let_def split: option.splits)

lemma mt_evict_lru_props:
  assumes "hm_wf (mt_entries t)" "mt_stamped t" "length (mt_entries t) \<le> mt_capacity t" "mt_capacity t \<noteq> 0"
  shows "hm_wf (mt_evict_lru t) \<and> distinct (map (ent_last_seen \<circ> snd) (mt_evict_lru t))
    \<and> set (mt_evict_lru t) \<subseteq> set (mt_entries t)
    \<and> lru_list (mt_evict_lru t) = take (mt_capacity t - 1) (lru_list (mt_entries t))"
proof (cases "length (mt_entries t) = mt_capacity t")
  case False
  then show ?thesis using assms by (simp add: mt_evict_lru_def mt_stamped_def)
next
  case True
  let ?es = "mt_entries t"
  obtain k e where m: "min_by_key (\<lambda>(_, e). ent_last_seen e) ?es = Some (k, e)"
    using True assms(4) by (cases "min_by_key (\<lambda>(_, e). ent_last_seen e) ?es") auto
  have ev: "mt_evict_lru t = hm_remove k ?es" using True m by (simp add: mt_evict_lru_def)
  have d: "distinct (map (ent_last_seen \<circ> snd) ?es)" using assms(2) by (simp add: mt_stamped_def)
  note r = evicted_recency [OF assms(1) d m]
  have "set (hm_remove k ?es) \<subseteq> set ?es" unfolding hm_remove_def AList.delete_eq by auto
  moreover have "lru_list (hm_remove k ?es) = butlast (lru_list ?es)"
    by (simp add: lru_list_def r(1) map_butlast)
  ultimately show ?thesis
    using r(2) assms(1) True by (simp add: ev butlast_conv_take)
qed

lemma learn_base_props:
  assumes "hm_wf (mt_entries t)" "mt_stamped t" "length (mt_entries t) \<le> mt_capacity t" "mt_capacity t \<noteq> 0"
  shows "hm_wf (learn_base t m)" "distinct (map (ent_last_seen \<circ> snd) (learn_base t m))"
    "set (learn_base t m) \<subseteq> set (mt_entries t)"
    "filter (\<lambda>e. fst e \<noteq> m) (lru_list (learn_base t m))
      = take (mt_capacity t - 1) (filter (\<lambda>e. fst e \<noteq> m) (lru_list (mt_entries t)))"
proof -
  let ?es = "mt_entries t"
  show "hm_wf (learn_base t m)" "distinct (map (ent_last_seen \<circ> snd) (learn_base t m))"
    "set (learn_base t m) \<subseteq> set ?es"
    using mt_evict_lru_props [OF assms] assms(1,2) by (simp_all add: learn_base_def mt_stamped_def)
  show "filter (\<lambda>e. fst e \<noteq> m) (lru_list (learn_base t m))
      = take (mt_capacity t - 1) (filter (\<lambda>e. fst e \<noteq> m) (lru_list ?es))"
  proof (cases "map_of ?es m")
    case None
    then have "m \<notin> fst ` set ?es" by (simp add: map_of_eq_None_iff)
    then have n: "\<forall>e \<in> set (lru_list ?es). fst e \<noteq> m" by (metis imageI lru_list_props(2))
    then have "filter (\<lambda>e. fst e \<noteq> m) (lru_list ?es) = lru_list ?es" by (simp add: filter_True)
    moreover have "filter (\<lambda>e. fst e \<noteq> m) (take k (lru_list ?es)) = take k (lru_list ?es)" for k
      using n by (intro filter_True) (auto dest: in_set_takeD)
    ultimately show ?thesis using mt_evict_lru_props [OF assms] None by (simp add: learn_base_def)
  next
    case (Some e)
    then have "\<exists>x \<in> set (lru_list ?es). \<not> fst x \<noteq> m"
      by (metis lru_list_props(2) image_iff map_of_SomeD fst_conv imageI)
    then have "length (filter (\<lambda>e. fst e \<noteq> m) (lru_list ?es)) < length (lru_list ?es)"
      by (rule bexE) (rule length_filter_less)
    then have "length (filter (\<lambda>e. fst e \<noteq> m) (lru_list ?es)) \<le> mt_capacity t - 1"
      using assms(3) by simp
    then show ?thesis using Some by (simp add: learn_base_def)
  qed
qed

lemma mt_learn_refines:
  assumes i: "mt_inv t" and st: "mt_stamped t" and c: "mt_clock t \<noteq> - 1"
  shows "lru_of (mt_learn t p m) = lru_learn (mt_capacity t) p m (lru_of t)"
    and "mt_stamped (mt_learn t p m)"
proof -
  have lru: "lru_of u = lru_list (mt_entries u)" for u by (simp add: lru_of_def lru_list_def)
  have wf: "hm_wf (mt_entries t)" "length (mt_entries t) \<le> mt_capacity t" using i by (simp_all add: mt_inv_def)
  have clk: "mt_clock t < mt_clock t + 1" using c by (rule clock_tick)
  show "lru_of (mt_learn t p m) = lru_learn (mt_capacity t) p m (lru_of t)"
    and "mt_stamped (mt_learn t p m)"
  proof (atomize (full), cases "mt_capacity t = 0")
    case True
    then show "lru_of (mt_learn t p m) = lru_learn (mt_capacity t) p m (lru_of t) \<and> mt_stamped (mt_learn t p m)"
      using st by (simp add: mt_learn_def lru_learn_def)
  next
    case False
    note b = learn_base_props [OF wf(1) st wf(2) False]
    let ?v = "\<lparr>ent_port = p, ent_last_seen = mt_clock t + 1\<rparr>"
    have old: "\<forall>e \<in> set (learn_base t m). ent_last_seen (snd e) \<le> mt_clock t"
      using st b(3) by (auto simp: mt_stamped_def)
    then have bound: "\<forall>e \<in> set (learn_base t m). ent_last_seen (snd e) < ent_last_seen ?v"
      using clk by (auto intro: le_less_trans)
    have ck: "mt_clock (mt_learn t p m) = mt_clock t + 1"
      using False by (simp add: mt_learn_def Let_def split: option.splits)
    have "\<forall>e \<in> set (hm_insert m ?v (learn_base t m)). ent_last_seen (snd e) \<le> mt_clock t + 1"
      using bound by (auto simp: set_hm_insert [OF b(1)])
    then have "mt_stamped (mt_learn t p m)"
      using learn_entries(2) [OF b(1,2) bound] by (simp add: mt_stamped_def mt_learn_entries [OF False] ck)
    moreover have "lru_of (mt_learn t p m) = lru_learn (mt_capacity t) p m (lru_of t)"
      using lru_list_insert [OF b(1,2) bound] b(4) False
      by (cases "mt_capacity t") (simp_all add: lru mt_learn_entries lru_learn_def)
    ultimately show "lru_of (mt_learn t p m) = lru_learn (mt_capacity t) p m (lru_of t) \<and> mt_stamped (mt_learn t p m)"
      by simp
  qed
qed

lemma mt_new_inv [simp]: "mt_inv (mt_new c)" "mt_stamped (mt_new c)" "lru_of (mt_new c) = []"
  "mt_lookup (mt_new c) m = None" "mt_capacity (mt_new c) = c"
  by (simp_all add: mt_new_def mt_inv_def mt_stamped_def lru_of_def by_recency_def mt_lookup_def)

text \<open>Lookup reads the recency list.\<close>

lemma mt_lookup_lru:
  assumes "hm_wf (mt_entries t)"
  shows "mt_lookup t m = map_of (lru_of t) m"
proof -
  have d: "distinct (map fst (mt_entries t))" using assms by (simp add: hm_wf_def)
  have "mset (by_recency (mt_entries t)) = mset (mt_entries t)" by (simp add: by_recency_def)
  then have "distinct (map fst (by_recency (mt_entries t)))"
    using d by (metis mset_map mset_eq_imp_distinct_iff)
  then have "map_of (by_recency (mt_entries t)) = map_of (mt_entries t)"
    using d by (simp add: map_of_inject_set)
  then show ?thesis by (simp add: mt_lookup_def lru_of_def map_of_map case_prod_unfold [symmetric])
qed

lemma mt_learn_clock: "mt_capacity t \<noteq> 0 \<Longrightarrow> mt_clock (mt_learn t p m) = mt_clock t + 1"
  by (simp add: mt_learn_def Let_def split: option.splits)

text \<open>The entry learned last survives the next observation, even when that one evicts.\<close>

lemma mt_learn_survives:
  assumes i: "mt_inv t" and st: "mt_stamped t" and c: "mt_clock t \<noteq> - 1" "mt_clock t + 1 \<noteq> - 1"
    and cap: "2 \<le> mt_capacity t" and ne: "o2 \<noteq> m"
  shows "mt_lookup (mt_learn (mt_learn t a m) b o2) m = Some a"
proof -
  let ?t1 = "mt_learn t a m" and ?t2 = "mt_learn (mt_learn t a m) b o2"
  have i1: "mt_inv ?t1" using i by (rule mt_learn_inv)
  have wf2: "hm_wf (mt_entries ?t2)" using mt_learn_inv [OF i1] by (simp add: mt_inv_def)
  have c1: "mt_clock ?t1 \<noteq> - 1" using c cap by (simp add: mt_learn_clock)
  have "lru_of ?t2 = lru_learn (mt_capacity t) b o2 (lru_learn (mt_capacity t) a m (lru_of t))"
    by (simp only: mt_learn_refines(1) [OF i1 mt_learn_refines(2) [OF i st c(1)] c1]
        mt_learn_refines(1) [OF i st c(1)] mt_learn_capacity)
  moreover have "map_of (lru_learn n b o2 (lru_learn n a m l)) m = Some a" if two: "2 \<le> n" for n l
  proof -
    obtain k where "n = Suc (Suc k)" using le_Suc_ex [OF two] by auto
    then show ?thesis using ne by (simp add: lru_learn_def)
  qed
  ultimately show ?thesis using mt_lookup_lru [OF wf2] cap by simp
qed

section \<open>Whole traces\<close>

definition mt_learn_all :: "nat \<Rightarrow> (port_id \<times> mac_addr) list \<Rightarrow> mac_table" where
  "mt_learn_all cap obs = foldl (\<lambda>t (p, m). mt_learn t p m) (mt_new cap) obs"

definition lru_learn_all :: "nat \<Rightarrow> (port_id \<times> mac_addr) list \<Rightarrow> (mac_addr \<times> port_id) list" where
  "lru_learn_all cap obs = foldl (\<lambda>l (p, m). lru_learn cap p m l) [] obs"

lemma mt_learn_all_state:
  "length obs < 2 ^ 64 \<Longrightarrow>
     mt_inv (mt_learn_all cap obs) \<and> mt_stamped (mt_learn_all cap obs)
     \<and> mt_capacity (mt_learn_all cap obs) = cap
     \<and> mt_clock (mt_learn_all cap obs) = (if cap = 0 then 0 else of_nat (length obs))
     \<and> lru_of (mt_learn_all cap obs) = lru_learn_all cap obs"
proof (induction obs rule: rev_induct)
  case Nil
  then show ?case by (simp add: mt_learn_all_def lru_learn_all_def mt_new_def mt_inv_def mt_stamped_def lru_of_def by_recency_def)
next
  case (snoc o1 obs)
  obtain p m where o1: "o1 = (p, m)" by (cases o1)
  let ?t = "mt_learn_all cap obs"
  have len: "length obs < 2 ^ 64 - 1" using snoc.prems by simp
  have ih: "mt_inv ?t" "mt_stamped ?t" "mt_capacity ?t = cap"
      "mt_clock ?t = (if cap = 0 then 0 else of_nat (length obs))" "lru_of ?t = lru_learn_all cap obs"
    using snoc.IH len by auto
  have step: "mt_learn_all cap (obs @ [o1]) = mt_learn ?t p m"
    "lru_learn_all cap (obs @ [o1]) = lru_learn cap p m (lru_learn_all cap obs)"
    by (simp_all add: mt_learn_all_def lru_learn_all_def o1)
  have clk: "mt_clock ?t \<noteq> - 1"
  proof
    assume "mt_clock ?t = - 1"
    then have "unat (mt_clock ?t) = 2 ^ 64 - 1" by (simp add: unsigned_minus_1_eq_mask mask_eq_exp_minus_1)
    then show False using ih(4) len by (simp add: unsigned_of_nat take_bit_nat_eq_self split: if_splits)
  qed
  have "mt_clock (mt_learn ?t p m) = (if cap = 0 then 0 else of_nat (length (obs @ [o1])))"
  proof (cases "cap = 0")
    case True
    then show ?thesis using ih(3,4) by (simp add: mt_learn_def)
  next
    case False
    then show ?thesis using ih(3,4) by (simp add: mt_learn_clock)
  qed
  then show ?case
    using ih(3,5) mt_learn_inv [OF ih(1)] mt_learn_refines [OF ih(1,2) clk] by (simp add: step)
qed

text \<open>
  C24: The learning table is an LRU cache. After any sequence of fewer than 2^64 observations, the
  table holds exactly what a list kept in recency order and cut at the capacity holds: every
  lookup agrees, and there are never more entries than the capacity.
\<close>

theorem mac_table_is_lru:
  assumes "length obs < 2 ^ 64"
  shows "mt_lookup (mt_learn_all cap obs) mac = map_of (lru_learn_all cap obs) mac
    \<and> mt_len (mt_learn_all cap obs) \<le> cap"
  using mt_learn_all_state [OF assms, of cap] mt_lookup_lru [of "mt_learn_all cap obs" mac]
  by (simp add: mt_inv_def mt_len_def)

theorem mac_table_is_lru_witness:
  "mt_lookup (mt_learn_all 2 [(PortId 1, MacAddr 2 0 0 0 0 1), (PortId 2, MacAddr 2 0 0 0 0 2),
      (PortId 1, MacAddr 2 0 0 0 0 1), (PortId 3, MacAddr 2 0 0 0 0 3)]) (MacAddr 2 0 0 0 0 2) = None
   \<and> mt_lookup (mt_learn_all 2 [(PortId 1, MacAddr 2 0 0 0 0 1), (PortId 2, MacAddr 2 0 0 0 0 2),
      (PortId 1, MacAddr 2 0 0 0 0 1), (PortId 3, MacAddr 2 0 0 0 0 3)]) (MacAddr 2 0 0 0 0 1) = Some (PortId 1)"
  by (subst mac_table_is_lru [THEN conjunct1], simp, subst mac_table_is_lru [THEN conjunct1], simp,
      simp add: lru_learn_all_def lru_learn_def)

end
