(* ===== verification/Frame_Parse.thy ===== *)
theory Frame_Parse
  imports Net_Model
begin

text \<open>
  Ethernet frame parsing, \<open>crates/k8netd-core/src/switch/frame.rs\<close>: the 14-byte header, the
  transparent 802.1Q tag and the payload slice. The lemmas relate the parser to a frame builder:
  a frame put together from its header fields parses to exactly these fields, with and without a
  tag, and the parser fails on exactly the frames that are too short.
\<close>

datatype frame_error = TooShort nat

fun show_frame_error :: "frame_error \<Rightarrow> string" where
  "show_frame_error (TooShort n) = ''ethernet frame too short: '' @ show_nat n @ '' bytes''"

record parsed_frame =
  pf_dst :: mac_addr
  pf_src :: mac_addr
  pf_ethertype :: u16
  pf_payload :: bytes

text \<open>\<open>mac_at\<close>, called for offsets whose six bytes lie inside the frame.\<close>

definition mac_at :: "bytes \<Rightarrow> nat \<Rightarrow> mac_addr" where
  "mac_at frame off =
     MacAddr (frame ! off) (frame ! (off + 1)) (frame ! (off + 2)) (frame ! (off + 3))
       (frame ! (off + 4)) (frame ! (off + 5))"

definition parse_frame :: "bytes \<Rightarrow> (frame_error, parsed_frame) result" where
  "parse_frame frame =
     (if length frame < 14 then Inl (TooShort (length frame))
      else let dst = mac_at frame 0; src = mac_at frame 6;
               ethertype = be16 (frame ! 12) (frame ! 13) in
        if ethertype = 0x8100 then
          (if length frame < 18 then Inl (TooShort (length frame))
           else Inr \<lparr>pf_dst = dst, pf_src = src, pf_ethertype = be16 (frame ! 16) (frame ! 17),
                     pf_payload = drop 18 frame\<rparr>)
        else Inr \<lparr>pf_dst = dst, pf_src = src, pf_ethertype = ethertype, pf_payload = drop 14 frame\<rparr>)"

text \<open>Frame builders, the reference the parser is compared with.\<close>

definition eth_frame :: "mac_addr \<Rightarrow> mac_addr \<Rightarrow> u16 \<Rightarrow> bytes \<Rightarrow> bytes" where
  "eth_frame dst src ethertype payload =
     mac_octets dst @ mac_octets src @ be16_bytes ethertype @ payload"

definition tagged_frame :: "mac_addr \<Rightarrow> mac_addr \<Rightarrow> u16 \<Rightarrow> u16 \<Rightarrow> bytes \<Rightarrow> bytes" where
  "tagged_frame dst src tci ethertype payload =
     eth_frame dst src 0x8100 (be16_bytes tci @ be16_bytes ethertype @ payload)"

section \<open>Parsing\<close>

lemma eth_frame_bytes:
  "mac_at (eth_frame d s t p) 0 = d" "mac_at (eth_frame d s t p) 6 = s"
  "be16 (eth_frame d s t p ! 12) (eth_frame d s t p ! 13) = t"
  "drop 14 (eth_frame d s t p) = p" "length (eth_frame d s t p) = 14 + length p"
  by (cases d; cases s; simp add: eth_frame_def mac_at_def be16_bytes_def)+

lemma parse_eth_frame:
  "t \<noteq> 0x8100 \<Longrightarrow>
   parse_frame (eth_frame d s t p) = Inr \<lparr>pf_dst = d, pf_src = s, pf_ethertype = t, pf_payload = p\<rparr>"
  by (simp add: parse_frame_def eth_frame_bytes Let_def)

lemma parse_tagged_frame:
  "parse_frame (tagged_frame d s tci t p)
     = Inr \<lparr>pf_dst = d, pf_src = s, pf_ethertype = t, pf_payload = p\<rparr>"
proof -
  let ?q = "be16_bytes tci @ be16_bytes t @ p"
  have nth: "eth_frame d s 0x8100 ?q ! (14 + i) = ?q ! i" for i
    by (cases d; cases s) (simp add: eth_frame_def be16_bytes_def nth_append)
  have "be16 (eth_frame d s 0x8100 ?q ! 16) (eth_frame d s 0x8100 ?q ! 17) = t"
    using nth [of 2] nth [of 3] by (simp add: be16_bytes_def)
  moreover have "drop 18 (eth_frame d s 0x8100 ?q) = p"
  proof -
    have "drop 18 (eth_frame d s 0x8100 ?q) = drop 4 (drop 14 (eth_frame d s 0x8100 ?q))" by simp
    then show ?thesis by (simp only: eth_frame_bytes(4)) (simp add: be16_bytes_def)
  qed
  ultimately show ?thesis
    by (simp add: tagged_frame_def parse_frame_def eth_frame_bytes Let_def)
qed

text \<open>Conversely a frame that parses is the frame built from its parts.\<close>

lemma take6_mac: "6 + off \<le> length f \<Longrightarrow> take 6 (drop off f) = mac_octets (mac_at f off)"
  by (rule nth_equalityI)
    (auto simp: mac_at_def less_Suc_eq numeral_eq_Suc nth_append)

lemma be16_at: "off + 1 < length f \<Longrightarrow> take 2 (drop off f) = be16_bytes (be16 (f ! off) (f ! (off + 1)))"
proof -
  assume l: "off + 1 < length f"
  have "ucast (drop_bit 8 (be16 a b)) = a" "ucast (be16 a b) = b" for a b :: u8
    by (rule bit_word_eqI; auto simp: be16_def bit_simps dest: bit_imp_le_length)+
  moreover have "take 2 (drop off f) = [f ! off, f ! (off + 1)]"
    using l by (intro nth_equalityI) (auto simp: less_Suc_eq numeral_2_eq_2)
  ultimately show ?thesis by (simp add: be16_bytes_def)
qed

lemma eth_frame_of: "14 \<le> length f \<Longrightarrow> f = eth_frame (mac_at f 0) (mac_at f 6) (be16 (f ! 12) (f ! 13)) (drop 14 f)"
proof -
  assume l: "14 \<le> length f"
  have d: "drop 6 f = take 6 (drop 6 f) @ drop 12 f" "drop 12 f = take 2 (drop 12 f) @ drop 14 f"
    using append_take_drop_id [of 6 "drop 6 f"] append_take_drop_id [of 2 "drop 12 f"] by simp_all
  have "f = take 6 f @ take 6 (drop 6 f) @ take 2 (drop 12 f) @ drop 14 f"
    using append_take_drop_id [of 6 f] d by metis
  then show ?thesis
    using take6_mac [of 0 f] take6_mac [of 6 f] be16_at [of 12 f] l by (simp add: eth_frame_def)
qed

lemma parse_frame_built:
  assumes "parse_frame f = Inr pf"
  shows "f = eth_frame (pf_dst pf) (pf_src pf) (pf_ethertype pf) (pf_payload pf)
    \<or> (\<exists>tci. f = tagged_frame (pf_dst pf) (pf_src pf) tci (pf_ethertype pf) (pf_payload pf))"
proof (cases "be16 (f ! 12) (f ! 13) = 0x8100")
  case True
  then have l: "18 \<le> length f" and pf: "pf = \<lparr>pf_dst = mac_at f 0, pf_src = mac_at f 6,
      pf_ethertype = be16 (f ! 16) (f ! 17), pf_payload = drop 18 f\<rparr>"
    using assms by (auto simp: parse_frame_def Let_def split: if_splits)
  have "drop 14 f = take 2 (drop 14 f) @ take 2 (drop 16 f) @ drop 18 f"
    using append_take_drop_id [of 2 "drop 14 f"] append_take_drop_id [of 2 "drop 16 f"] by simp
  then have "drop 14 f = be16_bytes (be16 (f ! 14) (f ! 15)) @ be16_bytes (be16 (f ! 16) (f ! 17)) @ drop 18 f"
    using be16_at [of 14 f] be16_at [of 16 f] l by simp
  then have "f = tagged_frame (mac_at f 0) (mac_at f 6) (be16 (f ! 14) (f ! 15)) (be16 (f ! 16) (f ! 17)) (drop 18 f)"
    using eth_frame_of [of f] l True by (simp add: tagged_frame_def)
  then show ?thesis unfolding pf by (metis parsed_frame.select_convs)
next
  case False
  then show ?thesis using assms eth_frame_of [of f]
    by (auto simp: parse_frame_def Let_def split: if_splits)
qed

lemma parse_frame_fail:
  "(\<exists>e. parse_frame f = Inl e) \<longleftrightarrow>
     length f < 14 \<or> (length f < 18 \<and> be16 (f ! 12) (f ! 13) = 0x8100)"
  by (auto simp: parse_frame_def Let_def)

lemma parse_frame_len: "parse_frame f = Inr pf \<Longrightarrow> 14 \<le> length f \<and> pf_dst pf = mac_at f 0 \<and> pf_src pf = mac_at f 6"
  by (auto simp: parse_frame_def Let_def split: if_splits)

end
