(* ===== verification/Switch_Engine.thy ===== *)
theory Switch_Engine
  imports Mac_Table Frame_Parse
begin

text \<open>
  The forwarding engine of \<open>crates/k8netd-core/src/switch/engine.rs\<close>: live ports with their
  network, the shared learning table, and \<open>forward\<close>, which learns the source and then floods or
  delivers. The lemmas give the exact egress of every frame and the safety properties a switch
  must have: no frame leaves its network, none returns to its ingress port, none is changed.
\<close>

definition mac_table_capacity :: nat where
  "mac_table_capacity = 1024"

record switch =
  sw_ports :: "(port_id, string) hash_map"
  sw_table :: mac_table

definition switch_new :: switch where
  "switch_new = \<lparr>sw_ports = [], sw_table = mt_new mac_table_capacity\<rparr>"

definition switch_add_port :: "switch \<Rightarrow> port_id \<Rightarrow> string \<Rightarrow> switch" where
  "switch_add_port sw prt net = sw\<lparr>sw_ports := hm_insert prt net (sw_ports sw)\<rparr>"

definition switch_remove_port :: "switch \<Rightarrow> port_id \<Rightarrow> switch \<times> bool" where
  "switch_remove_port sw prt =
     (sw\<lparr>sw_ports := hm_remove prt (sw_ports sw)\<rparr>, map_of (sw_ports sw) prt \<noteq> None)"

definition flood_set :: "switch \<Rightarrow> string \<Rightarrow> port_id \<Rightarrow> port_id list" where
  "flood_set sw net exclude =
     map fst (filter (\<lambda>(prt, attached). prt \<noteq> exclude \<and> attached = net) (sw_ports sw))"

definition unicast_egress :: "switch \<Rightarrow> string \<Rightarrow> port_id \<Rightarrow> mac_addr \<Rightarrow> port_id list" where
  "unicast_egress sw net ingress dst =
     (case mt_lookup (sw_table sw) dst of
        Some prt \<Rightarrow>
          if prt = ingress then []
          else (case map_of (sw_ports sw) prt of
                  None \<Rightarrow> []
                | Some target \<Rightarrow> if target = net then [prt] else flood_set sw net ingress)
      | None \<Rightarrow> flood_set sw net ingress)"

text \<open>The I-bit of the first destination octet; called on frames that parsed.\<close>

definition is_local_unicast :: "bytes \<Rightarrow> bool" where
  "is_local_unicast frame = (frame ! 0 AND 1 = 0)"

definition switch_forward :: "switch \<Rightarrow> port_id \<Rightarrow> bytes \<Rightarrow> switch \<times> (port_id \<times> bytes) list" where
  "switch_forward sw ingress frame =
     (case map_of (sw_ports sw) ingress of
        None \<Rightarrow> (sw, [])
      | Some net \<Rightarrow>
     (case parse_frame frame of
        Inl _ \<Rightarrow> (sw, [])
      | Inr parsed \<Rightarrow>
          let sw' = sw\<lparr>sw_table := mt_learn (sw_table sw) ingress (pf_src parsed)\<rparr>;
              egress = (if is_local_unicast frame then unicast_egress sw' net ingress (pf_dst parsed)
                        else flood_set sw' net ingress)
          in (sw', map (\<lambda>prt. (prt, frame)) egress)))"

definition switch_inv :: "switch \<Rightarrow> bool" where
  "switch_inv sw = (hm_wf (sw_ports sw) \<and> mt_ready (sw_table sw))"

section \<open>The invariant\<close>

lemma switch_new_inv [simp]: "switch_inv switch_new"
  by (simp add: switch_inv_def switch_new_def mt_ready_def mac_table_capacity_def)

lemma switch_add_port_inv [simp, intro]: "switch_inv sw \<Longrightarrow> switch_inv (switch_add_port sw p n)"
  by (simp add: switch_inv_def switch_add_port_def)

lemma switch_remove_port_inv [simp, intro]: "switch_inv sw \<Longrightarrow> switch_inv (fst (switch_remove_port sw p))"
  by (simp add: switch_inv_def switch_remove_port_def)

lemma switch_forward_inv: "switch_inv sw \<Longrightarrow> switch_inv (fst (switch_forward sw p f))"
  by (auto simp: switch_inv_def switch_forward_def Let_def mtl.inv_learn split: option.splits sum.splits)

lemma switch_forward_ports [simp]: "sw_ports (fst (switch_forward sw p f)) = sw_ports sw"
  by (simp add: switch_forward_def Let_def split: option.splits sum.splits)

section \<open>Egress\<close>

lemma flood_set_iff:
  "hm_wf (sw_ports sw) \<Longrightarrow> p \<in> set (flood_set sw net ex) \<longleftrightarrow> p \<noteq> ex \<and> map_of (sw_ports sw) p = Some net"
  by (force simp: flood_set_def hm_mem_iff [symmetric])

lemma flood_set_distinct: "hm_wf (sw_ports sw) \<Longrightarrow> distinct (flood_set sw net ex)"
  by (simp add: flood_set_def hm_wf_def distinct_map_filter)

lemma flood_set_table [simp]: "flood_set (sw\<lparr>sw_table := t\<rparr>) = flood_set sw"
  by (simp add: flood_set_def fun_eq_iff)

lemma unicast_egress_safe:
  assumes "hm_wf (sw_ports sw)" "p \<in> set (unicast_egress sw net ingress dst)"
  shows "p \<noteq> ingress \<and> map_of (sw_ports sw) p = Some net"
  using assms by (auto simp: unicast_egress_def flood_set_iff split: option.splits if_splits)

lemma unicast_egress_distinct: "hm_wf (sw_ports sw) \<Longrightarrow> distinct (unicast_egress sw net ingress dst)"
  by (auto simp: unicast_egress_def flood_set_distinct split: option.splits)

lemma switch_forward_live:
  assumes "map_of (sw_ports sw) ingress = Some net" "parse_frame frame = Inr parsed"
  shows "switch_forward sw ingress frame =
     (sw\<lparr>sw_table := mt_learn (sw_table sw) ingress (pf_src parsed)\<rparr>,
      map (\<lambda>p. (p, frame))
        (if is_local_unicast frame
         then unicast_egress (sw\<lparr>sw_table := mt_learn (sw_table sw) ingress (pf_src parsed)\<rparr>) net ingress (pf_dst parsed)
         else flood_set sw net ingress))"
  using assms by (simp add: switch_forward_def Let_def)

lemma switch_forward_dead:
  "map_of (sw_ports sw) ingress = None \<or> (\<exists>e. parse_frame frame = Inl e) \<Longrightarrow> switch_forward sw ingress frame = (sw, [])"
  by (auto simp: switch_forward_def split: option.splits)

lemma switch_forward_cases:
  obtains (dead) "map_of (sw_ports sw) ingress = None \<or> (\<exists>e. parse_frame frame = Inl e)"
  | (live) net parsed where "map_of (sw_ports sw) ingress = Some net" "parse_frame frame = Inr parsed"
  by (cases "map_of (sw_ports sw) ingress"; cases "parse_frame frame") auto

text \<open>
  Network isolation. Every copy that \<open>Switch::forward\<close> returns is the unchanged input
  frame, leaves through a live port on the ingress port's own network and never through the
  ingress port itself, and no port receives two copies.
\<close>

lemma switch_forward_isolated:
  assumes "switch_inv sw"
  shows "distinct (map fst (snd (switch_forward sw ingress frame)))
    \<and> (\<forall>(p, f) \<in> set (snd (switch_forward sw ingress frame)).
         f = frame \<and> p \<noteq> ingress
         \<and> (\<exists>net. map_of (sw_ports sw) ingress = Some net \<and> map_of (sw_ports sw) p = Some net))"
proof (cases sw ingress frame rule: switch_forward_cases)
  case dead
  then show ?thesis by (simp add: switch_forward_dead)
next
  case (live net parsed)
  let ?sw = "sw\<lparr>sw_table := mt_learn (sw_table sw) ingress (pf_src parsed)\<rparr>"
  have wf: "hm_wf (sw_ports sw)" "hm_wf (sw_ports ?sw)" using assms by (simp_all add: switch_inv_def)
  show ?thesis
    using live unicast_egress_safe [OF wf(2)] unicast_egress_distinct [OF wf(2), of net ingress "pf_dst parsed"]
      flood_set_iff [OF wf(1)] flood_set_distinct [OF wf(1)]
    by (auto simp: switch_forward_live comp_def)
qed

text \<open>
  Flooding. A broadcast or multicast frame reaches exactly the other live ports of the
  ingress port's network, whatever the learning table holds.
\<close>

lemma switch_forward_broadcast:
  assumes "switch_inv sw" "map_of (sw_ports sw) ingress = Some net" "parse_frame frame = Inr parsed"
    "\<not> is_local_unicast frame"
  shows "fst ` set (snd (switch_forward sw ingress frame))
    = {p. p \<noteq> ingress \<and> map_of (sw_ports sw) p = Some net}"
proof -
  have "hm_wf (sw_ports sw)" using assms(1) by (simp add: switch_inv_def)
  then show ?thesis using assms by (auto simp: switch_forward_live flood_set_iff image_image)
qed

text \<open>
  C23: Learning, then unicast delivery. After a station with source MAC \<open>m\<close> has sent any frame
  from live port \<open>a\<close>, a unicast frame to \<open>m\<close> that another station, with a source MAC other than \<open>m\<close>,
  sends next from another live port of the same network is delivered to port \<open>a\<close> and nowhere else,
  even when the table is full and learning the second sender evicts an entry. The table must have
  room for two entries and distinct recency stamps (every table built by learning has them), and
  its 64-bit clock must not be within two steps of wrapping.
\<close>

theorem switch_learn_then_unicast:
  assumes inv: "switch_inv sw" and st: "mt_stamped (sw_table sw)" and cap: "2 \<le> mt_capacity (sw_table sw)"
    and clk: "mt_clock (sw_table sw) \<noteq> - 1" "mt_clock (sw_table sw) + 1 \<noteq> - 1"
    and live: "map_of (sw_ports sw) a = Some net" "map_of (sw_ports sw) b = Some net" "a \<noteq> b"
    and p1: "parse_frame f1 = Inr pf1" and p2: "parse_frame f2 = Inr pf2"
    and dst: "pf_dst pf2 = pf_src pf1" "pf_src pf2 \<noteq> pf_src pf1" and uni: "is_local_unicast f2"
  shows "snd (switch_forward (fst (switch_forward sw a f1)) b f2) = [(a, f2)]"
proof -
  let ?t1 = "mt_learn (sw_table sw) a (pf_src pf1)"
  have s1: "fst (switch_forward sw a f1) = sw\<lparr>sw_table := ?t1\<rparr>"
    using live p1 by (simp add: switch_forward_live)
  have "mt_lookup (mt_learn ?t1 b (pf_src pf2)) (pf_src pf1) = Some a"
    by (rule mt_learn_survives) (use inv st cap clk dst in \<open>simp_all add: switch_inv_def mt_ready_def\<close>)
  then show ?thesis using s1 live p2 uni dst by (simp add: switch_forward_live unicast_egress_def)
qed

theorem switch_learn_then_unicast_witness:
  "snd (switch_forward (fst (switch_forward
      (switch_add_port (switch_add_port switch_new (PortId 1) ''lab'') (PortId 2) ''lab'') (PortId 1)
      (eth_frame (MacAddr 255 255 255 255 255 255) (MacAddr 2 0 0 0 0 1) 0x0806 [])))
      (PortId 2) (eth_frame (MacAddr 2 0 0 0 0 1) (MacAddr 2 0 0 0 0 2) 0x0800 []))
   = [(PortId 1, eth_frame (MacAddr 2 0 0 0 0 1) (MacAddr 2 0 0 0 0 2) 0x0800 [])]"
proof -
  let ?sw = "switch_add_port (switch_add_port switch_new (PortId 1) ''lab'') (PortId 2) ''lab''"
  let ?f1 = "eth_frame (MacAddr 255 255 255 255 255 255) (MacAddr 2 0 0 0 0 1) 0x0806 []"
  let ?f2 = "eth_frame (MacAddr 2 0 0 0 0 1) (MacAddr 2 0 0 0 0 2) 0x0800 []"
  have t: "sw_table ?sw = mt_new 1024" by (simp add: switch_add_port_def switch_new_def mac_table_capacity_def)
  have c: "mt_clock (mt_new 1024) = 0" by (simp add: mt_new_def)
  show ?thesis
    by (rule switch_learn_then_unicast [where net = "''lab''"])
      (simp_all add: t c parse_eth_frame is_local_unicast_def,
       simp_all add: switch_add_port_def switch_new_def eth_frame_def)
qed

end
