(* ===== verification/Gateway_Fn.thy ===== *)
theory Gateway_Fn
  imports Mac_Table Frame_Parse
begin

text \<open>
  The gateway function of \<open>crates/k8netd-core/src/switch/gateway.rs\<close>: the ARP responder for each
  network's gateway address and the classifier that sends IPv4 frames addressed to the gateway
  MAC to the ingress port's WAN output. The lemmas give the exact frame class of each action and
  the fields of the ARP reply.
\<close>

abbreviation ETHERTYPE_ARP :: u16 where "ETHERTYPE_ARP \<equiv> 0x0806"
abbreviation ETHERTYPE_IPV4 :: u16 where "ETHERTYPE_IPV4 \<equiv> 0x0800"

record gateway =
  gw_networks :: "(string, network) hash_map"
  gw_ports :: "(port_id, string) hash_map"

datatype gateway_action = ActL2 | ActWan bytes | ActArpReply bytes

definition gateway_new :: gateway where
  "gateway_new = \<lparr>gw_networks = [], gw_ports = []\<rparr>"

definition gateway_add_network :: "gateway \<Rightarrow> network \<Rightarrow> gateway" where
  "gateway_add_network g n = g\<lparr>gw_networks := hm_insert (net_name n) n (gw_networks g)\<rparr>"

definition gateway_remove_network :: "gateway \<Rightarrow> string \<Rightarrow> gateway \<times> bool" where
  "gateway_remove_network g nm =
     (g\<lparr>gw_networks := hm_remove nm (gw_networks g)\<rparr>, map_of (gw_networks g) nm \<noteq> None)"

definition gateway_add_port :: "gateway \<Rightarrow> port_id \<Rightarrow> string \<Rightarrow> gateway" where
  "gateway_add_port g prt net = g\<lparr>gw_ports := hm_insert prt net (gw_ports g)\<rparr>"

definition gateway_remove_port :: "gateway \<Rightarrow> port_id \<Rightarrow> gateway \<times> bool" where
  "gateway_remove_port g prt =
     (g\<lparr>gw_ports := hm_remove prt (gw_ports g)\<rparr>, map_of (gw_ports g) prt \<noteq> None)"

text \<open>The gateway MAC \<open>02:00:o1:o2:o3:o4\<close> as the array the code compares with.\<close>

definition gateway_mac :: "ipv4 \<Rightarrow> bytes" where
  "gateway_mac gw = [0x02, 0x00] @ ip_octets gw"

definition is_ipv4_over_ethernet_arp_request :: "bytes \<Rightarrow> bool" where
  "is_ipv4_over_ethernet_arp_request p =
     (28 \<le> length p \<and> be16 (p ! 0) (p ! 1) = 1 \<and> be16 (p ! 2) (p ! 3) = 0x0800
      \<and> p ! 4 = 6 \<and> p ! 5 = 4 \<and> be16 (p ! 6) (p ! 7) = 1)"

definition is_valid_ipv4_header :: "bytes \<Rightarrow> bool" where
  "is_valid_ipv4_header p =
     (if length p < 20 then False
      else let version = drop_bit 4 (p ! 0); ihl = unat (p ! 0 AND 0x0f)
           in version = 4 \<and> 5 \<le> ihl \<and> ihl * 4 \<le> length p)"

definition build_arp_reply :: "bytes \<Rightarrow> ipv4 \<Rightarrow> bytes" where
  "build_arp_reply request gw =
     take 6 (drop 8 request) @ gateway_mac gw @ be16_bytes ETHERTYPE_ARP
     @ be16_bytes 1 @ be16_bytes 0x0800 @ [6, 4] @ be16_bytes 2
     @ gateway_mac gw @ ip_octets gw @ take 6 (drop 8 request) @ take 4 (drop 14 request)"

definition arp_response :: "network \<Rightarrow> parsed_frame \<Rightarrow> gateway_action" where
  "arp_response n parsed =
     (let p = pf_payload parsed in
      if \<not> is_ipv4_over_ethernet_arp_request p then ActL2
      else if ip_new (p ! 24) (p ! 25) (p ! 26) (p ! 27) \<noteq> net_gateway n then ActL2
      else ActArpReply (build_arp_reply p (net_gateway n)))"

definition ipv4_egress :: "network \<Rightarrow> parsed_frame \<Rightarrow> bytes \<Rightarrow> gateway_action" where
  "ipv4_egress n parsed frame =
     (if \<not> is_valid_ipv4_header (pf_payload parsed) then ActL2
      else if 6 \<le> length frame \<and> take 6 frame = gateway_mac (net_gateway n) then ActWan frame
      else ActL2)"

definition gateway_handle_frame :: "gateway \<Rightarrow> port_id \<Rightarrow> bytes \<Rightarrow> gateway_action" where
  "gateway_handle_frame g ingress frame =
     (case map_of (gw_ports g) ingress of
        None \<Rightarrow> ActL2
      | Some nm \<Rightarrow>
     (case map_of (gw_networks g) nm of
        None \<Rightarrow> ActL2
      | Some n \<Rightarrow>
     (case parse_frame frame of
        Inl _ \<Rightarrow> ActL2
      | Inr parsed \<Rightarrow>
          if pf_ethertype parsed = ETHERTYPE_ARP then arp_response n parsed
          else if pf_ethertype parsed = ETHERTYPE_IPV4 then ipv4_egress n parsed frame
          else ActL2)))"

definition gateway_inv :: "gateway \<Rightarrow> bool" where
  "gateway_inv g = (hm_wf (gw_networks g) \<and> hm_wf (gw_ports g))"

text \<open>A standard ARP request, the reference the responder is compared with.\<close>

definition arp_request :: "mac_addr \<Rightarrow> ipv4 \<Rightarrow> mac_addr \<Rightarrow> ipv4 \<Rightarrow> bytes" where
  "arp_request sha spa tha tpa =
     be16_bytes 1 @ be16_bytes 0x0800 @ [6, 4] @ be16_bytes 1
     @ mac_octets sha @ ip_octets spa @ mac_octets tha @ ip_octets tpa"

definition arp_answer :: "mac_addr \<Rightarrow> ipv4 \<Rightarrow> mac_addr \<Rightarrow> ipv4 \<Rightarrow> bytes" where
  "arp_answer sha spa tha tpa =
     be16_bytes 1 @ be16_bytes 0x0800 @ [6, 4] @ be16_bytes 2
     @ mac_octets sha @ ip_octets spa @ mac_octets tha @ ip_octets tpa"

definition gateway_mac_addr :: "ipv4 \<Rightarrow> mac_addr" where
  "gateway_mac_addr gw =
     MacAddr 2 0 (ip_octets gw ! 0) (ip_octets gw ! 1) (ip_octets gw ! 2) (ip_octets gw ! 3)"

section \<open>The gateway MAC\<close>

lemma gateway_mac_octets: "gateway_mac gw = mac_octets (gateway_mac_addr gw)"
  by (simp add: gateway_mac_def gateway_mac_addr_def ip_octets_def be32_bytes_def)

lemma length_gateway_mac [simp, byte_simps]: "length (gateway_mac gw) = 6"
  by (simp add: gateway_mac_def)

lemma gateway_mac_inj: "gateway_mac a = gateway_mac b \<Longrightarrow> a = b"
  by (simp add: gateway_mac_def ip_octets_inj)

section \<open>ARP\<close>

lemma arp_request_shape:
  "length (arp_request sha spa tha tpa) = 28"
  "is_ipv4_over_ethernet_arp_request (arp_request sha spa tha tpa)"
  "take 6 (drop 8 (arp_request sha spa tha tpa)) = mac_octets sha"
  "take 4 (drop 14 (arp_request sha spa tha tpa)) = ip_octets spa"
proof -
  show l: "length (arp_request sha spa tha tpa) = 28" by (simp add: arp_request_def)
  show "take 6 (drop 8 (arp_request sha spa tha tpa)) = mac_octets sha"
    "take 4 (drop 14 (arp_request sha spa tha tpa)) = ip_octets spa"
    by (simp_all add: arp_request_def be16_bytes_def)
  show "is_ipv4_over_ethernet_arp_request (arp_request sha spa tha tpa)"
    using l by (simp add: is_ipv4_over_ethernet_arp_request_def arp_request_def be16_bytes_def be16_def)
qed

lemma arp_request_tpa:
  "ip_new (arp_request sha spa tha tpa ! 24) (arp_request sha spa tha tpa ! 25)
     (arp_request sha spa tha tpa ! 26) (arp_request sha spa tha tpa ! 27) = tpa"
  by (cases sha; cases tha)
    (simp add: arp_request_def be16_bytes_def ip_octets_def be32_bytes_def ip_new_def)

lemma gateway_handle_live:
  assumes "map_of (gw_ports g) ingress = Some nm" "map_of (gw_networks g) nm = Some n"
    "parse_frame frame = Inr parsed"
  shows "gateway_handle_frame g ingress frame =
     (if pf_ethertype parsed = ETHERTYPE_ARP then arp_response n parsed
      else if pf_ethertype parsed = ETHERTYPE_IPV4 then ipv4_egress n parsed frame else ActL2)"
  using assms by (simp add: gateway_handle_frame_def)

text \<open>
  C31: The ARP responder answers a standard request for the gateway address, whatever its L2
  destination and also through an 802.1Q tag, with the reply that tells the requester the
  gateway's MAC: unicast to the sender hardware address, from the derived gateway MAC.
\<close>

theorem gateway_answers_arp:
  assumes "map_of (gw_ports g) ingress = Some nm" "map_of (gw_networks g) nm = Some n"
    and "frame = eth_frame dst src ETHERTYPE_ARP (arp_request sha spa tha (net_gateway n))
      \<or> frame = tagged_frame dst src tci ETHERTYPE_ARP (arp_request sha spa tha (net_gateway n))"
  shows "gateway_handle_frame g ingress frame =
     ActArpReply (eth_frame sha (gateway_mac_addr (net_gateway n)) ETHERTYPE_ARP
       (arp_answer (gateway_mac_addr (net_gateway n)) (net_gateway n) sha spa))"
proof -
  let ?p = "arp_request sha spa tha (net_gateway n)"
  have "parse_frame frame = Inr \<lparr>pf_dst = dst, pf_src = src, pf_ethertype = ETHERTYPE_ARP, pf_payload = ?p\<rparr>"
    using assms(3) by (auto simp: parse_eth_frame parse_tagged_frame)
  then have "gateway_handle_frame g ingress frame = ActArpReply (build_arp_reply ?p (net_gateway n))"
    using assms(1,2) by (simp add: gateway_handle_live arp_response_def arp_request_shape arp_request_tpa Let_def)
  then show ?thesis
    by (simp add: build_arp_reply_def arp_request_shape eth_frame_def arp_answer_def gateway_mac_octets)
qed

text \<open>
  The responder is silent otherwise: an ARP reply is produced only for a frame that parses as
  ARP at an attached port of a configured network, carries a standard IPv4-over-Ethernet request
  of at least 28 bytes, and asks for exactly that network's gateway address. The reply is always
  42 bytes long.
\<close>

lemma gateway_arp_only_for_gateway:
  assumes "gateway_handle_frame g ingress frame = ActArpReply reply"
  shows "\<exists>nm n parsed. map_of (gw_ports g) ingress = Some nm \<and> map_of (gw_networks g) nm = Some n
    \<and> parse_frame frame = Inr parsed \<and> pf_ethertype parsed = ETHERTYPE_ARP
    \<and> is_ipv4_over_ethernet_arp_request (pf_payload parsed)
    \<and> ip_new (pf_payload parsed ! 24) (pf_payload parsed ! 25) (pf_payload parsed ! 26)
        (pf_payload parsed ! 27) = net_gateway n
    \<and> length reply = 42"
proof -
  obtain nm n parsed where h: "map_of (gw_ports g) ingress = Some nm" "map_of (gw_networks g) nm = Some n"
      "parse_frame frame = Inr parsed"
    using assms by (auto simp: gateway_handle_frame_def split: option.splits sum.splits)
  then have a: "pf_ethertype parsed = ETHERTYPE_ARP" "arp_response n parsed = ActArpReply reply"
    using assms by (auto simp: gateway_handle_live ipv4_egress_def split: if_splits)
  then have "is_ipv4_over_ethernet_arp_request (pf_payload parsed)"
    and gw: "ip_new (pf_payload parsed ! 24) (pf_payload parsed ! 25) (pf_payload parsed ! 26)
        (pf_payload parsed ! 27) = net_gateway n"
    and r: "reply = build_arp_reply (pf_payload parsed) (net_gateway n)"
    by (auto simp: arp_response_def Let_def split: if_splits)
  moreover have "length reply = 42"
    using r calculation(1) by (auto simp: build_arp_reply_def is_ipv4_over_ethernet_arp_request_def min_def)
  ultimately show ?thesis using h a(1) by blast
qed


text \<open>An example network and gateway, used by the witnesses.\<close>

definition lab_network :: network where
  "lab_network = \<lparr>net_name = ''lab'', net_cidr = \<lparr>cidr_addr = 0xC0A87C00, cidr_prefix = 24\<rparr>,
     net_gateway = 0xC0A87C01, net_pool = \<lparr>pool_start = 0xC0A87C0A, pool_end = 0xC0A87CC8\<rparr>\<rparr>"

definition lab_gateway :: gateway where
  "lab_gateway = gateway_add_port (gateway_add_network gateway_new lab_network) (PortId 1) ''lab''"

lemma lab_gateway_maps [simp]:
  "map_of (gw_ports lab_gateway) (PortId 1) = Some ''lab''"
  "map_of (gw_networks lab_gateway) ''lab'' = Some lab_network"
  by (simp_all add: lab_gateway_def gateway_add_port_def gateway_add_network_def gateway_new_def lab_network_def)

theorem gateway_answers_arp_witness:
  "gateway_handle_frame lab_gateway (PortId 1)
     (eth_frame (MacAddr 255 255 255 255 255 255) (MacAddr 2 0 0 0 0 1) ETHERTYPE_ARP
       (arp_request (MacAddr 2 0 0 0 0 1) 0xC0A87C0A (MacAddr 0 0 0 0 0 0) (net_gateway lab_network)))
   = ActArpReply (eth_frame (MacAddr 2 0 0 0 0 1) (gateway_mac_addr (net_gateway lab_network)) ETHERTYPE_ARP
       (arp_answer (gateway_mac_addr (net_gateway lab_network)) (net_gateway lab_network)
         (MacAddr 2 0 0 0 0 1) 0xC0A87C0A))"
  by (rule gateway_answers_arp [where nm = "''lab''" and dst = "MacAddr 255 255 255 255 255 255"
        and src = "MacAddr 2 0 0 0 0 1" and tha = "MacAddr 0 0 0 0 0 0" and tci = 0]) simp_all

end
