(* ===== verification/Dp_Frames.thy ===== *)
theory Dp_Frames
  imports Gateway_Fn
begin

text \<open>
  The frame helpers of \<open>crates/k8netd/src/dataplane.rs\<close>: the tolerant IPv4 parser, the Internet
  checksum, the ICMP echo responder and the UDP reply builder, and the restart backoff.
  Indexing that can leave the frame is an explicit \<open>Panicked\<close> outcome; where the surrounding
  tests keep it inside, the in-bounds lemma is proved next to it.
\<close>

section \<open>IPv4 over Ethernet\<close>

record ipv4_frame =
  i4_src :: ipv4
  i4_dst :: ipv4
  i4_proto :: u8
  i4_payload :: bytes

definition ethertype :: "bytes \<Rightarrow> u16 option" where
  "ethertype frame = (if length frame < 14 then None else Some (be16 (frame ! 12) (frame ! 13)))"

definition is_routable :: "u8 \<Rightarrow> bool" where
  "is_routable b = (b = 1 \<or> b = 6 \<or> b = 17 \<or> b = 47 \<or> b = 50 \<or> b = 51 \<or> b = 58)"

definition octets_at :: "bytes \<Rightarrow> nat \<Rightarrow> ipv4" where
  "octets_at frame i = ip_new (frame ! i) (frame ! (i + 1)) (frame ! (i + 2)) (frame ! (i + 3))"

text \<open>The rest of \<open>parse_ipv4\<close> once the end of the header is known.\<close>

definition ipv4_at :: "bytes \<Rightarrow> nat \<Rightarrow> ipv4_frame" where
  "ipv4_at frame hend =
     \<lparr>i4_src = octets_at frame (hend - 8), i4_dst = octets_at frame (hend - 4),
      i4_proto = frame ! (hend - 11), i4_payload = drop hend frame\<rparr>"

text \<open>
  \<open>parse_ipv4\<close>. The read of byte 14 comes before any test that the frame has one; the
  \<open>frame.get\<close> calls cannot fail because the header end lies inside the frame.
\<close>

definition parse_ipv4 :: "bytes \<Rightarrow> ipv4_frame option outcome" where
  "parse_ipv4 frame =
     (case ethertype frame of
        None \<Rightarrow> Done None
      | Some t \<Rightarrow>
          if t \<noteq> ETHERTYPE_IPV4 then Done None
          else if length frame \<le> 14 then Panicked
          else let ihl = unat (frame ! 14 AND 0x0f) * 4 in
            if drop_bit 4 (frame ! 14) \<noteq> 4 \<or> ihl < 20 then Done None
            else let std_end = 14 + ihl in
              if std_end \<le> length frame \<and> is_routable (frame ! (std_end - 11))
              then Done (Some (ipv4_at frame std_end))
              else if std_end \<le> length frame \<and> is_routable (frame ! (std_end - 12))
              then Done (Some (ipv4_at frame (std_end - 1)))
              else Done None)"

section \<open>The Internet checksum\<close>

text \<open>\<open>as_chunks::<2>\<close> and the odd last byte, added up at 32 bits.\<close>

fun sum_words :: "u32 \<Rightarrow> bytes \<Rightarrow> u32" where
  "sum_words acc [] = acc"
| "sum_words acc [b0] = acc + push_bit 8 (ucast b0)"
| "sum_words acc (a # b # rest) = sum_words (acc + ucast (be16 a b)) rest"

lemma unat_u16 [simp]: "unat (w :: u16) < 65536"
  by (rule less_le_trans [OF unsigned_less]) simp

lemma unat_u32 [simp]: "unat (w :: u32) < 4294967296"
  by (rule less_le_trans [OF unsigned_less]) simp

lemma unat_high16: "unat (drop_bit 16 (s :: u32)) = unat s div 65536"
  by (simp only: unat_drop_bit_eq) (simp add: drop_bit_eq_div)

lemma unat_low16: "unat ((s :: u32) AND 0xffff) = unat s mod 65536"
proof -
  have "s AND 0xffff = take_bit 16 s" by (simp only: take_bit_eq_mask) (simp add: mask_eq_exp_minus_1)
  then show ?thesis by (simp only: unsigned_take_bit_eq) (simp add: take_bit_eq_mod)
qed

lemma carry_decreases:
  assumes "drop_bit 16 (s :: u32) \<noteq> 0"
  shows "unat ((s AND 0xffff) + drop_bit 16 s) < unat s"
    and "unat ((s AND 0xffff) + drop_bit 16 s) = unat s mod 65536 + unat s div 65536"
proof -
  have "unat s < 4294967296" by simp
  then have "unat s mod 65536 + unat s div 65536 < 4294967296" by linarith
  then show e: "unat ((s AND 0xffff) + drop_bit 16 s) = unat s mod 65536 + unat s div 65536"
    by (simp only: unat_word_ariths unat_high16 unat_low16) simp
  have "unat s div 65536 \<noteq> 0" using assms unat_high16 by (metis unat_eq_zero)
  moreover have "unat s = unat s div 65536 * 65536 + unat s mod 65536" by simp
  ultimately show "unat ((s AND 0xffff) + drop_bit 16 s) < unat s" unfolding e by linarith
qed

function fold_carry :: "u32 \<Rightarrow> u32" where
  "fold_carry s = (if drop_bit 16 s \<noteq> 0 then fold_carry ((s AND 0xffff) + drop_bit 16 s) else s)"
  by pat_completeness auto
termination
  by (relation "measure unat") (use carry_decreases(1) in auto)

declare fold_carry.simps [simp del]

definition inet_checksum :: "bytes \<Rightarrow> u16" where
  "inet_checksum data = NOT (ucast (fold_carry (sum_words 0 data)))"

text \<open>The variant over a whole 20-byte header; chunks only, no odd byte.\<close>

fun sum_chunks :: "u32 \<Rightarrow> bytes \<Rightarrow> u32" where
  "sum_chunks acc (a # b # rest) = sum_chunks (acc + ucast (be16 a b)) rest"
| "sum_chunks acc _ = acc"

definition ipv4_checksum :: "bytes \<Rightarrow> u16" where
  "ipv4_checksum header = NOT (ucast (fold_carry (sum_chunks 0 header)))"

section \<open>Building replies\<close>

definition dp_gateway_mac :: "ipv4 \<Rightarrow> bytes" where
  "dp_gateway_mac gw = [0x02, 0x00, ip_octets gw ! 0, ip_octets gw ! 1, ip_octets gw ! 2, ip_octets gw ! 3]"

text \<open>\<open>u16::try_from(n).unwrap_or(u16::MAX)\<close>.\<close>

definition u16_saturate :: "nat \<Rightarrow> u16" where
  "u16_saturate n = (if n \<le> 65535 then of_nat n else - 1)"

definition udp_reply_header :: "ipv4 \<Rightarrow> ipv4 \<Rightarrow> nat \<Rightarrow> bytes" where
  "udp_reply_header gateway_ip dst_ip udp_len =
     (let iph = replicate 20 0;
          iph = iph[0 := 0x45];
          iph = splice 2 (be16_bytes (u16_saturate (20 + udp_len))) iph;
          iph = splice 6 (be16_bytes 0x4000) iph;
          iph = iph[8 := 64];
          iph = iph[9 := 17];
          iph = splice 12 (ip_octets gateway_ip) iph;
          iph = splice 16 (ip_octets dst_ip) iph
      in splice 10 (be16_bytes (ipv4_checksum iph)) iph)"

definition wrap_udp_reply :: "bytes \<Rightarrow> mac_addr \<Rightarrow> ipv4 \<Rightarrow> ipv4 \<Rightarrow> u16 \<Rightarrow> u16 \<Rightarrow> bytes" where
  "wrap_udp_reply payload vm_mac gateway_ip reply_ip sport dport =
     (let dst_ip = (if reply_ip = ip_unspecified then ip_broadcast else reply_ip);
          dst_mac = (if reply_ip = ip_unspecified then replicate 6 0xff else mac_octets vm_mac);
          udp_len = 8 + length payload
      in dst_mac @ dp_gateway_mac gateway_ip @ be16_bytes ETHERTYPE_IPV4
         @ udp_reply_header gateway_ip dst_ip udp_len
         @ be16_bytes sport @ be16_bytes dport @ be16_bytes (u16_saturate udp_len) @ [0, 0] @ payload)"

text \<open>The edits of \<open>gateway_icmp_reply\<close> on the copied packet, \<open>ihl\<close> being its header length.\<close>

definition icmp_reply_packet :: "ipv4 \<Rightarrow> nat \<Rightarrow> bytes \<Rightarrow> bytes" where
  "icmp_reply_packet gateway_ip ihl pkt =
     (let pkt = pkt[ihl := 0];
          pkt = splice (ihl + 2) [0, 0] pkt;
          icmp_sum = inet_checksum (drop ihl pkt);
          pkt = splice (ihl + 2) (be16_bytes icmp_sum) pkt;
          pkt = splice 16 (take 4 (drop 12 pkt)) pkt;
          pkt = splice 12 (ip_octets gateway_ip) pkt;
          pkt = pkt[8 := 64];
          pkt = splice 10 [0, 0] pkt;
          ip_sum = inet_checksum (take ihl pkt)
      in splice 10 (be16_bytes ip_sum) pkt)"

text \<open>
  \<open>gateway_icmp_reply\<close> for a port with MAC \<open>vm_mac\<close> on a network with gateway \<open>gateway_ip\<close>;
  the lookups of these two are in the dataplane.
\<close>

definition icmp_echo_reply :: "ipv4 \<Rightarrow> mac_addr \<Rightarrow> bytes \<Rightarrow> bytes option outcome" where
  "icmp_echo_reply gateway_ip vm_mac frame =
     (case parse_ipv4 frame of
        Panicked \<Rightarrow> Panicked
      | Done None \<Rightarrow> Done None
      | Done (Some ip) \<Rightarrow>
          if i4_dst ip \<noteq> gateway_ip \<or> i4_proto ip \<noteq> 1 then Done None
          else if i4_payload ip = [] \<or> hd (i4_payload ip) \<noteq> 8 \<or> length (i4_payload ip) < 8 then Done None
          else let pkt = drop 14 frame; ihl = unat (pkt ! 0 AND 0x0f) * 4 in
            if ihl < 20 \<or> length pkt < ihl then Done None
            else if length pkt < ihl + 4 then Panicked
            else Done (Some (mac_octets vm_mac @ dp_gateway_mac gateway_ip @ be16_bytes ETHERTYPE_IPV4
                   @ icmp_reply_packet gateway_ip ihl pkt)))"

section \<open>Restart backoff\<close>

definition PASST_BACKOFF_BASE :: nat where
  "PASST_BACKOFF_BASE = 100"

definition PASST_BACKOFF_CAP :: nat where
  "PASST_BACKOFF_CAP = 2000"

text \<open>Milliseconds; \<open>saturating_sub(1).min(16)\<close> bounds the shift.\<close>

definition restart_backoff :: "u32 \<Rightarrow> nat" where
  "restart_backoff failures =
     (let shift = min (unat failures - 1) 16 in
      min (PASST_BACKOFF_BASE * unat (push_bit shift 1 :: u32)) PASST_BACKOFF_CAP)"

text \<open>Diagnostics: the first 48 bytes in hexadecimal.\<close>

definition dp_hex_prefix :: "bytes \<Rightarrow> string" where
  "dp_hex_prefix frame = concat (map hex2 (take 48 frame))"

section \<open>The checksum as arithmetic\<close>

text \<open>The reference: the 16-bit words of the data added up as natural numbers.\<close>

fun words_nat :: "bytes \<Rightarrow> nat" where
  "words_nat [] = 0"
| "words_nat [b] = 256 * unat b"
| "words_nat (a # b # rest) = 256 * unat a + unat b + words_nat rest"

lemma unat_be16: "unat (be16 a b) = 256 * unat a + unat b"
proof -
  have lt: "unat a < 256" "unat b < 256" by simp_all
  have disj: "push_bit 8 (ucast a :: u16) AND ucast b = 0"
    by (rule bit_word_eqI) (auto simp: bit_simps dest: bit_imp_le_length)
  have "be16 a b = push_bit 8 (ucast a) + ucast b"
    unfolding be16_def using disj by (simp add: disjunctive_add_eq_or)
  moreover have "unat (push_bit 8 (ucast a :: u16)) = 256 * unat a"
    using lt by (simp del: unat_u8_less add: push_bit_eq_mult unat_word_ariths unsigned_ucast_eq take_bit_eq_mod)
  ultimately show ?thesis using lt
    by (simp del: unat_u8_less add: unat_word_ariths unsigned_ucast_eq take_bit_eq_mod)
qed

lemma words_nat_append: "even (length xs) \<Longrightarrow> words_nat (xs @ ys) = words_nat xs + words_nat ys"
  by (induction xs rule: words_nat.induct) auto

lemma words_nat_bound: "words_nat xs \<le> 65535 * ((length xs + 1) div 2)"
proof (induction xs rule: words_nat.induct)
  case (2 b)
  then show ?case using unat_u8_less [of b] by (simp del: unat_u8_less)
next
  case (3 a b rest)
  then show ?case using unat_u8_less [of a] unat_u8_less [of b] by (simp del: unat_u8_less)
qed simp

lemma words_nat_small: "length xs \<le> 131070 \<Longrightarrow> words_nat xs < 4294967296"
  using words_nat_bound [of xs] by linarith

lemma unat_sum_words: "unat (sum_words acc data) = (unat acc + words_nat data) mod 4294967296"
proof (induction acc data rule: sum_words.induct)
  case (1 acc)
  then show ?case using unat_u32 [of acc] by simp
next
  case (2 acc b)
  have "unat (push_bit 8 (ucast b :: u32)) = 256 * unat b"
    using unat_u8_less [of b]
    by (simp del: unat_u8_less add: push_bit_eq_mult unat_word_ariths unsigned_ucast_eq take_bit_eq_mod)
  then show ?case by (simp add: unat_word_ariths)
next
  case (3 acc a b rest)
  have "unat (ucast (be16 a b) :: u32) = 256 * unat a + unat b"
    using unat_u8_less [of a] unat_u8_less [of b] by (simp del: unat_u8_less add: unsigned_ucast_eq take_bit_eq_mod unat_be16)
  then have "unat (acc + ucast (be16 a b)) = (unat acc + (256 * unat a + unat b)) mod 4294967296"
    by (simp add: unat_word_ariths)
  then show ?case using 3 by (simp only: sum_words.simps words_nat.simps mod_add_left_eq add.assoc)
qed

lemma sum_chunks_even: "even (length data) \<Longrightarrow> sum_chunks acc data = sum_words acc data"
  by (induction acc data rule: sum_words.induct) auto

lemma ipv4_checksum_eq: "even (length header) \<Longrightarrow> ipv4_checksum header = inet_checksum header"
  by (simp add: ipv4_checksum_def inet_checksum_def sum_chunks_even)

lemma unat_fold_carry:
  "unat (fold_carry s) = (if unat s = 0 then 0 else (unat s - 1) mod 65535 + 1)"
proof (induction s rule: fold_carry.induct)
  case (1 s)
  show ?case
  proof (cases "drop_bit 16 s = 0")
    case True
    then have "unat s div 65536 = 0"
      using unat_high16 [of s] by simp
    then have "unat s < 65536" by simp
    then show ?thesis using True by (subst fold_carry.simps) auto
  next
    case False
    let ?t = "(s AND 0xffff) + drop_bit 16 s"
    note e = carry_decreases [OF False]
    have pos: "unat s \<ge> 65536"
    proof (rule ccontr)
      assume "\<not> ?thesis"
      then have "unat (drop_bit 16 s) = 0" by (simp add: unat_high16)
      then show False using False by (metis unat_eq_zero)
    qed
    obtain q r where qr: "unat s = q * 65536 + r" "r < 65536" "0 < q"
      using pos by (metis add.commute div_greater_zero_iff div_mult_mod_eq mod_less_divisor zero_less_numeral)
    then have t: "unat ?t = r + q" using e(2) by simp
    have "unat s - 1 = (r + q - 1) + q * 65535" using qr by simp
    then have "(unat s - 1) mod 65535 = (r + q - 1) mod 65535" by simp
    then show ?thesis using 1 False qr t by (subst fold_carry.simps) simp
  qed
qed

lemma unat_not16: "unat (NOT (w :: u16)) = 65535 - unat w"
proof -
  have "NOT w = - 1 - w" by (simp add: not_eq_complement)
  then have "unat (NOT w) = unat (- 1 :: u16) - unat w" by (simp only: unat_sub word_n1_ge)
  then show ?thesis by (simp add: unsigned_minus_1_eq_mask mask_eq_exp_minus_1)
qed

lemma unat_inet_checksum:
  assumes "length data \<le> 131070"
  shows "unat (inet_checksum data)
    = (if words_nat data = 0 then 65535 else 65534 - (words_nat data - 1) mod 65535)"
proof -
  let ?s = "fold_carry (sum_words 0 data)"
  have s: "unat ?s = (if words_nat data = 0 then 0 else (words_nat data - 1) mod 65535 + 1)"
    using words_nat_small [OF assms] by (simp add: unat_fold_carry unat_sum_words)
  moreover have "(words_nat data - 1) mod 65535 < 65535" by simp
  ultimately have "unat ?s < 65536" by (auto split: if_splits)
  then have "unat (ucast ?s :: u16) = unat ?s" by (simp add: unsigned_ucast_eq take_bit_eq_mod)
  then show ?thesis
    unfolding inet_checksum_def using s by (simp only: unat_not16) simp
qed

lemma words_nat_be16: "words_nat (be16_bytes w) = unat w"
  using unat_be16 [of "ucast (drop_bit 8 w)" "ucast w"] by (simp add: be16_bytes_def)

text \<open>Writing the checksum into its zeroed, even-aligned field makes the data verify.\<close>

lemma checksum_verifies:
  assumes "even (length pre)" "length pre + 2 + length post \<le> 131070"
  shows "inet_checksum (pre @ be16_bytes (inet_checksum (pre @ [0, 0] @ post)) @ post) = 0"
proof -
  define n where "n = words_nat pre + words_nat post"
  define c where "c = unat (inet_checksum (pre @ [0, 0] @ post))"
  have "c = (if n = 0 then 65535 else 65534 - (n - 1) mod 65535)"
    using assms by (simp add: c_def n_def unat_inet_checksum words_nat_append)
  moreover obtain q m where "n - 1 = q * 65535 + m" "m < 65535"
    by (metis div_mult_mod_eq mod_less_divisor zero_less_numeral)
  ultimately have "n + c = ((if n = 0 then 0 else q) + 1) * 65535"
    by (cases "n = 0") auto
  then obtain q where q: "n + c = (q + 1) * 65535" by blast
  then have r: "n + c - 1 = 65534 + q * 65535" by simp
  have m: "(n + c - 1) mod 65535 = 65534" unfolding r by (simp only: mod_mult_self1) simp
  have "words_nat (pre @ be16_bytes (inet_checksum (pre @ [0, 0] @ post)) @ post) = n + c"
    using assms by (simp add: words_nat_append words_nat_be16 n_def c_def)
  then have "unat (inet_checksum (pre @ be16_bytes (inet_checksum (pre @ [0, 0] @ post)) @ post)) = 0"
    using assms q m by (simp add: unat_inet_checksum)
  then show ?thesis by (simp only: unat_eq_0)
qed

lemma checksum_splice:
  assumes "even at" "at + 2 \<le> length d" "length d \<le> 131070" "take 2 (drop at d) = [0, 0]"
  shows "inet_checksum (splice at (be16_bytes (inet_checksum d)) d) = 0"
proof -
  have "d = take at d @ [0, 0] @ drop (at + 2) d"
    using assms(4) by (metis append_take_drop_id drop_drop add.commute)
  then show ?thesis
    using checksum_verifies [of "take at d" "drop (at + 2) d"] assms by (simp add: splice_def)
qed

section \<open>Theorems\<close>

subsection \<open>UDP replies\<close>

lemma replicate_20: "replicate 20 x = [x,x,x,x,x,x,x,x,x,x,x,x,x,x,x,x,x,x,x,x]"
  by (simp add: eval_nat_numeral)

lemma list_update_numeral: "(x # xs)[numeral v := y] = x # xs[pred_numeral v := y]"
  by (simp add: numeral_eq_Suc)

lemma header_fields:
  "splice 16 [d0, d1, d2, d3] (splice 12 [g0, g1, g2, g3] ((splice 6 [f0, f1] (splice 2 [l0, l1]
     ((replicate 20 0)[0 := v])))[8 := t, 9 := p]))
   = [v, 0, l0, l1, 0, 0, f0, f1, t, p, 0, 0, g0, g1, g2, g3, d0, d1, d2, d3]"
  by (simp add: splice_def replicate_20 list_update_numeral)

lemma header_checksum_field:
  "splice 10 [c0, c1] [x0, x1, x2, x3, x4, x5, x6, x7, x8, x9, 0, 0, g0, g1, g2, g3, d0, d1, d2, d3]
   = [x0, x1, x2, x3, x4, x5, x6, x7, x8, x9, c0, c1, g0, g1, g2, g3, d0, d1, d2, d3]"
  by (simp add: splice_def)

lemma udp_reply_header_bytes:
  "udp_reply_header g d n =
     [0x45, 0] @ be16_bytes (u16_saturate (20 + n)) @ [0, 0] @ be16_bytes 0x4000 @ [64, 17]
     @ be16_bytes (ipv4_checksum ([0x45, 0] @ be16_bytes (u16_saturate (20 + n)) @ [0, 0]
         @ be16_bytes 0x4000 @ [64, 17] @ [0, 0] @ ip_octets g @ ip_octets d))
     @ ip_octets g @ ip_octets d"
  unfolding udp_reply_header_def Let_def be16_bytes_def ip_octets_def be32_bytes_def
    header_fields header_checksum_field by (simp only: append_Cons append_Nil)

lemma parse_ipv4_standard:
  assumes m: "length m = 14" "be16 (m ! 12) (m ! 13) = ETHERTYPE_IPV4"
    and h: "length h = 20" "h ! 0 = 0x45" "is_routable (h ! 9)"
  shows "parse_ipv4 (m @ h @ p) =
    Done (Some \<lparr>i4_src = octets_at h 12, i4_dst = octets_at h 16, i4_proto = h ! 9, i4_payload = p\<rparr>)"
proof -
  let ?f = "m @ h @ p"
  have at: "?f ! (14 + i) = h ! i" if "i < 20" for i
    using that m h by (simp add: nth_append)
  have e: "ethertype ?f = Some ETHERTYPE_IPV4" using m by (simp add: ethertype_def nth_append)
  have "unat ((0x45 :: u8) AND 0x0f) * 4 = 20" "drop_bit 4 (0x45 :: u8) = 4" by simp_all
  then show ?thesis
    using m h e at [of 0] at [of 9] at [of 12] at [of 13] at [of 14] at [of 15] at [of 16] at [of 17]
      at [of 18] at [of 19]
    by (simp add: parse_ipv4_def Let_def ipv4_at_def octets_at_def)
qed

lemma octets_at_append:
  "length xs = i \<Longrightarrow> octets_at (xs @ ip_octets ip @ ys) i = ip"
  using ip_new_octets [of ip] by (simp add: octets_at_def nth_append)

lemma udp_reply_header_facts:
  "length (udp_reply_header g d n) = 20"
  "udp_reply_header g d n ! 0 = 0x45" "udp_reply_header g d n ! 9 = 17"
  "octets_at (udp_reply_header g d n) 12 = g" "octets_at (udp_reply_header g d n) 16 = d"
  "inet_checksum (udp_reply_header g d n) = 0"
proof -
  let ?pre = "[0x45, 0] @ be16_bytes (u16_saturate (20 + n)) @ [0, 0] @ be16_bytes 0x4000 @ [64, 17]"
  obtain c where c: "udp_reply_header g d n = ?pre @ be16_bytes c @ ip_octets g @ ip_octets d"
    "c = inet_checksum (?pre @ [0, 0] @ ip_octets g @ ip_octets d)"
    by (simp add: udp_reply_header_bytes ipv4_checksum_eq)
  show "length (udp_reply_header g d n) = 20" unfolding c(1) by simp
  show "udp_reply_header g d n ! 0 = 0x45" "udp_reply_header g d n ! 9 = 17"
    unfolding c(1) be16_bytes_def by simp_all
  show "octets_at (udp_reply_header g d n) 12 = g"
    using octets_at_append [of "?pre @ be16_bytes c" 12 g] unfolding c(1) by simp
  show "octets_at (udp_reply_header g d n) 16 = d"
    using octets_at_append [of "?pre @ be16_bytes c @ ip_octets g" 16 d "[]"] unfolding c(1) by simp
  show "inet_checksum (udp_reply_header g d n) = 0"
    using checksum_verifies [of ?pre "ip_octets g @ ip_octets d"] unfolding c by simp
qed

lemma wrap_udp_reply_facts:
  "parse_ipv4 (wrap_udp_reply payload mac gw reply sport dport)
     = Done (Some \<lparr>i4_src = gw, i4_dst = (if reply = ip_unspecified then ip_broadcast else reply),
         i4_proto = 17,
         i4_payload = be16_bytes sport @ be16_bytes dport
           @ be16_bytes (u16_saturate (8 + length payload)) @ [0, 0] @ payload\<rparr>)"
  "inet_checksum (take 20 (drop 14 (wrap_udp_reply payload mac gw reply sport dport))) = 0"
  "take 6 (wrap_udp_reply payload mac gw reply sport dport)
     = (if reply = ip_unspecified then replicate 6 0xff else mac_octets mac)"
  "take 6 (drop 6 (wrap_udp_reply payload mac gw reply sport dport)) = gateway_mac gw"
proof -
  define d where "d = (if reply = ip_unspecified then ip_broadcast else reply)"
  define dm where "dm = (if reply = ip_unspecified then replicate 6 0xff else mac_octets mac)"
  define h where "h = udp_reply_header gw d (8 + length payload)"
  define u where "u = be16_bytes sport @ be16_bytes dport
    @ be16_bytes (u16_saturate (8 + length payload)) @ [0, 0] @ payload"
  note hf = udp_reply_header_facts [of gw d "8 + length payload", folded h_def]
  have dm: "length dm = 6" by (cases mac) (simp add: dm_def)
  have gm: "dp_gateway_mac gw = gateway_mac gw" "length (gateway_mac gw) = 6"
    by (simp_all add: dp_gateway_mac_def gateway_mac_def ip_octets_def be32_bytes_def)
  have w: "wrap_udp_reply payload mac gw reply sport dport
      = (dm @ gateway_mac gw @ be16_bytes ETHERTYPE_IPV4) @ h @ u"
    by (simp add: wrap_udp_reply_def Let_def d_def dm_def h_def u_def gm)
  have "be16 ((dm @ gateway_mac gw @ be16_bytes ETHERTYPE_IPV4) ! 12)
      ((dm @ gateway_mac gw @ be16_bytes ETHERTYPE_IPV4) ! 13) = ETHERTYPE_IPV4"
    using dm gm(2) be16_of_bytes [of ETHERTYPE_IPV4] by (simp add: nth_append be16_bytes_def)
  moreover have "is_routable (h ! 9)" using hf by (simp add: is_routable_def)
  ultimately have p: "parse_ipv4 (wrap_udp_reply payload mac gw reply sport dport)
      = Done (Some \<lparr>i4_src = gw, i4_dst = d, i4_proto = 17, i4_payload = u\<rparr>)"
    unfolding w using dm gm(2) hf
    by (subst parse_ipv4_standard) simp_all
  have h: "take 20 (drop 14 (wrap_udp_reply payload mac gw reply sport dport)) = h"
    unfolding w using dm gm(2) hf by simp
  have m: "take 6 (wrap_udp_reply payload mac gw reply sport dport) = dm"
    "take 6 (drop 6 (wrap_udp_reply payload mac gw reply sport dport)) = gateway_mac gw"
    unfolding w using dm gm(2) by simp_all
  show "parse_ipv4 (wrap_udp_reply payload mac gw reply sport dport)
     = Done (Some \<lparr>i4_src = gw, i4_dst = (if reply = ip_unspecified then ip_broadcast else reply),
         i4_proto = 17,
         i4_payload = be16_bytes sport @ be16_bytes dport
           @ be16_bytes (u16_saturate (8 + length payload)) @ [0, 0] @ payload\<rparr>)"
    using p unfolding d_def u_def .
  show "inet_checksum (take 20 (drop 14 (wrap_udp_reply payload mac gw reply sport dport))) = 0"
    unfolding h by (rule hf(6))
  show "take 6 (wrap_udp_reply payload mac gw reply sport dport)
     = (if reply = ip_unspecified then replicate 6 0xff else mac_octets mac)"
    "take 6 (drop 6 (wrap_udp_reply payload mac gw reply sport dport)) = gateway_mac gw"
    using m unfolding dm_def by simp_all
qed

text \<open>
  C16: every reply frame the daemon builds parses back to what it was built from: the gateway as
  source, the client (broadcast when the client has no address) as destination, UDP, and the given
  ports, length and payload; its IPv4 header checksum verifies and its Ethernet addresses are the
  client's and the gateway's.
\<close>

theorem wrap_udp_reply_parses:
  "parse_ipv4 (wrap_udp_reply payload mac gw reply sport dport)
     = Done (Some \<lparr>i4_src = gw, i4_dst = (if reply = ip_unspecified then ip_broadcast else reply),
         i4_proto = 17,
         i4_payload = be16_bytes sport @ be16_bytes dport
           @ be16_bytes (u16_saturate (8 + length payload)) @ [0, 0] @ payload\<rparr>)
   \<and> inet_checksum (take 20 (drop 14 (wrap_udp_reply payload mac gw reply sport dport))) = 0
   \<and> take 6 (wrap_udp_reply payload mac gw reply sport dport)
       = (if reply = ip_unspecified then replicate 6 0xff else mac_octets mac)
   \<and> take 6 (drop 6 (wrap_udp_reply payload mac gw reply sport dport)) = gateway_mac gw"
  by (intro conjI wrap_udp_reply_facts)

subsection \<open>ICMP echo replies\<close>

lemma splice_append_right: "length h = n \<Longrightarrow> splice (n + k) v (h @ p) = h @ splice k v p"
  by (simp add: splice_def)

lemma splice_append_left: "k + length v \<le> length h \<Longrightarrow> splice k v (h @ p) = splice k v h @ p"
  by (simp add: splice_def)

definition icmp_zeroed :: "bytes \<Rightarrow> bytes" where
  "icmp_zeroed p = splice 2 [0, 0] (p[0 := 0])"

definition ip_zeroed :: "ipv4 \<Rightarrow> bytes \<Rightarrow> bytes" where
  "ip_zeroed gw h = splice 10 [0, 0] ((splice 12 (ip_octets gw) (splice 16 (take 4 (drop 12 h)) h))[8 := 64])"

lemma icmp_reply_packet_split:
  assumes "length h = 20" "4 \<le> length p"
  shows "icmp_reply_packet gw 20 (h @ p) =
    splice 10 (be16_bytes (inet_checksum (ip_zeroed gw h))) (ip_zeroed gw h)
    @ splice 2 (be16_bytes (inet_checksum (icmp_zeroed p))) (icmp_zeroed p)"
proof -
  define q where "q = splice 2 (be16_bytes (inet_checksum (icmp_zeroed p))) (icmp_zeroed p)"
  have z: "splice (20 + 2) [0, 0] ((h @ p)[20 := 0]) = h @ icmp_zeroed p"
  proof -
    have "(h @ p)[20 := 0] = h @ p[0 := 0]" using assms by (simp add: list_update_append)
    then show ?thesis using assms by (simp only: splice_append_right icmp_zeroed_def)
  qed
  have q: "splice (20 + 2) (be16_bytes (inet_checksum (icmp_zeroed p))) (h @ icmp_zeroed p) = h @ q"
    using assms by (simp only: splice_append_right q_def)
  let ?h1 = "splice 16 (take 4 (drop 12 h)) h"
  let ?h2 = "splice 12 (ip_octets gw) ?h1"
  have l: "length ?h1 = 20" "length ?h2 = 20" "length (ip_zeroed gw h) = 20"
    using assms by (simp_all add: ip_zeroed_def)
  have s1: "splice 16 (take 4 (drop 12 (h @ q))) (h @ q) = ?h1 @ q"
    using assms by (simp add: splice_append_left)
  have s2: "splice 12 (ip_octets gw) (?h1 @ q) = ?h2 @ q"
    using l by (simp add: splice_append_left)
  have s3: "splice 10 [0, 0] ((?h2 @ q)[8 := 64]) = ip_zeroed gw h @ q"
    using l by (simp add: splice_append_left list_update_append ip_zeroed_def)
  have s4: "splice 10 (be16_bytes w) (ip_zeroed gw h @ q) = splice 10 (be16_bytes w) (ip_zeroed gw h) @ q" for w
    using l by (simp add: splice_append_left)
  have d: "drop 20 (h @ icmp_zeroed p) = icmp_zeroed p" using assms by simp
  have t: "take 20 (ip_zeroed gw h @ q) = ip_zeroed gw h" using l by simp
  show ?thesis
    unfolding icmp_reply_packet_def Let_def z d q s1 s2 s3 t s4 by (simp only: q_def)
qed

lemma icmp_zeroed_facts:
  assumes "8 \<le> length p" "length p \<le> 131070"
  shows "length (icmp_zeroed p) = length p"
    and "inet_checksum (splice 2 (be16_bytes (inet_checksum (icmp_zeroed p))) (icmp_zeroed p)) = 0"
    and "splice 2 (be16_bytes w) (icmp_zeroed p) = 0 # p ! 1 # be16_bytes w @ drop 4 p"
proof -
  obtain a b c d r where p: "p = a # b # c # d # r"
    using assms(1) by (auto simp: numeral_eq_Suc Suc_le_length_iff)
  show l: "length (icmp_zeroed p) = length p" using assms by (simp add: icmp_zeroed_def)
  show "splice 2 (be16_bytes w) (icmp_zeroed p) = 0 # p ! 1 # be16_bytes w @ drop 4 p"
    by (simp add: p icmp_zeroed_def splice_def)
  have "take 2 (drop 2 (icmp_zeroed p)) = [0, 0]" by (simp add: p icmp_zeroed_def splice_def)
  then show "inet_checksum (splice 2 (be16_bytes (inet_checksum (icmp_zeroed p))) (icmp_zeroed p)) = 0"
    using assms l by (intro checksum_splice) simp_all
qed

lemma ip_zeroed_facts:
  assumes "length h = 20"
  shows "inet_checksum (splice 10 (be16_bytes (inet_checksum (ip_zeroed gw h))) (ip_zeroed gw h)) = 0"
    and "splice 10 (be16_bytes w) (ip_zeroed gw h)
      = take 8 h @ [64, h ! 9] @ be16_bytes w @ ip_octets gw @ take 4 (drop 12 h)"
proof -
  have 1: "h[8 := 64] = take 8 h @ 64 # h ! 9 # drop 10 h"
    using assms by (simp add: upd_conv_take_nth_drop Cons_nth_drop_Suc [symmetric])
  have up: "(splice 12 v (splice 16 u h))[8 := 64] = splice 12 v (splice 16 u (h[8 := 64]))" for u v :: bytes
    using assms by (simp add: splice_def list_update_append take_update_swap)
  have z: "ip_zeroed gw h = (take 8 h @ [64, h ! 9]) @ [0, 0] @ ip_octets gw @ take 4 (drop 12 h)"
    unfolding ip_zeroed_def up 1 using assms by (simp add: splice_def)
  show "splice 10 (be16_bytes w) (ip_zeroed gw h)
      = take 8 h @ [64, h ! 9] @ be16_bytes w @ ip_octets gw @ take 4 (drop 12 h)"
    unfolding z using assms by (simp add: splice_def)
  have "take 2 (drop 10 (ip_zeroed gw h)) = [0, 0]" "length (ip_zeroed gw h) = 20"
    unfolding z using assms by simp_all
  then show "inet_checksum (splice 10 (be16_bytes (inet_checksum (ip_zeroed gw h))) (ip_zeroed gw h)) = 0"
    by (intro checksum_splice) simp_all
qed


definition ping_header :: bytes where
  "ping_header = [0x45, 0, 0, 28, 0, 1, 0, 0, 64, 1, 0, 0, 192, 168, 124, 10, 192, 168, 124, 1]"

definition ping_message :: bytes where
  "ping_message = [8, 0, 0, 0, 0, 1, 0, 1]"


subsection \<open>Where the parser panics\<close>

text \<open>
  the tolerant IPv4 parser indexes out of bounds on exactly the frames that are 14 bytes long and
  carry the IPv4 ethertype; on every other input it returns, and never beyond the end of the frame.
\<close>

lemma parse_ipv4_panics_iff:
  "(parse_ipv4 frame = Panicked) = (length frame = 14 \<and> ethertype frame = Some ETHERTYPE_IPV4)"
  by (auto simp: parse_ipv4_def ethertype_def Let_def split: option.splits if_splits)

text \<open>answering a ping panics only where the parser does: the later indexing is in bounds.\<close>

lemma icmp_echo_reply_panics_iff:
  "(icmp_echo_reply gw mac frame = Panicked) = (parse_ipv4 frame = Panicked)"
proof -
  have "icmp_echo_reply gw mac frame \<noteq> Panicked" if d: "parse_ipv4 frame = Done r" for r
  proof (cases r)
    case (Some ip)
    then have len: "14 < length frame" and
      e: "i4_payload ip = drop (14 + unat (frame ! 14 AND 0x0f) * 4) frame
        \<or> i4_payload ip = drop (14 + unat (frame ! 14 AND 0x0f) * 4 - 1) frame"
      using d by (auto simp: parse_ipv4_def ethertype_def Let_def ipv4_at_def
          split: option.splits if_splits)
    then have "8 \<le> length (i4_payload ip) \<Longrightarrow>
        unat (drop 14 frame ! 0 AND 0x0f) * 4 + 4 \<le> length (drop 14 frame)"
      by auto
    then show ?thesis using d Some by (auto simp: icmp_echo_reply_def Let_def)
  qed (simp add: icmp_echo_reply_def d)
  then show ?thesis by (cases "parse_ipv4 frame") (auto simp: icmp_echo_reply_def)
qed

subsection \<open>Backoff\<close>

text \<open>
  the restart delay is 100 ms doubled for every further consecutive failure and capped at 2 s,
  for every 32-bit failure count: the shift stays below the width, so the doubling never wraps.
\<close>

lemma restart_backoff_doubles:
  "restart_backoff n = min (100 * 2 ^ (unat n - 1)) 2000"
proof -
  let ?k = "unat n - 1"
  have "unat (push_bit (min ?k 16) 1 :: u32) = 2 ^ min ?k 16"
  proof -
    have "(2::nat) ^ min ?k 16 \<le> 2 ^ 16" by (rule power_increasing) simp_all
    then have "(2::nat) ^ min ?k 16 < 4294967296" by simp
    moreover have "push_bit (min ?k 16) (1 :: u32) = of_nat (2 ^ min ?k 16)"
      by (simp add: push_bit_eq_mult)
    ultimately show ?thesis by (simp only: unsigned_of_nat) (simp add: take_bit_eq_mod)
  qed
  moreover have "min (100 * 2 ^ min ?k 16) (2000::nat) = min (100 * 2 ^ ?k) 2000"
  proof (cases "?k \<le> 16")
    case False
    then have "(2::nat) ^ 16 \<le> 2 ^ ?k" by (intro power_increasing) simp_all
    then show ?thesis using False by (simp add: min_def)
  qed (simp add: min_def)
  ultimately show ?thesis
    by (simp add: restart_backoff_def PASST_BACKOFF_BASE_def PASST_BACKOFF_CAP_def Let_def)
qed

end
