(* ===== verification/Vhost_Port.thy ===== *)
theory Vhost_Port
  imports Rust_Strings
begin

text \<open>
  The vhost-user port of \<open>crates/k8netd-vhost/src/port.rs\<close>: the virtio-net header, the served
  configuration space, the service of the receive and transmit rings, the event handler, and the
  session loop of the listening thread.

  The queue, its descriptor chains and the guest memory belong to the crates \<open>virtio_queue\<close>
  and \<open>vm_memory\<close>: they are the parameter \<open>virtq_api\<close>, over arbitrary types of memory, queues and
  chains. What the port relies on is stated as \<open>virtq_ok\<close>; it covers the calls of those crates
  and the driver's side of the contract, that the buffers it posts do not overlap. A channel end
  is the list of the messages it holds.
\<close>

section \<open>Constants and the virtio-net header\<close>

definition NUM_QUEUES :: nat where
  "NUM_QUEUES = 2"

definition RX_VRING :: nat where
  "RX_VRING = 0"

definition TX_VRING :: nat where
  "TX_VRING = 1"

definition QUEUE_SIZE :: u16 where
  "QUEUE_SIZE = 256"

definition VIRTIO_F_VERSION_1 :: u64 where
  "VIRTIO_F_VERSION_1 = push_bit 32 1"

definition VHOST_USER_PROTOCOL :: u64 where
  "VHOST_USER_PROTOCOL = push_bit 30 1"

definition VIRTIO_NET_F_MAC :: u64 where
  "VIRTIO_NET_F_MAC = push_bit 5 1"

definition VIRTIO_NET_F_STATUS :: u64 where
  "VIRTIO_NET_F_STATUS = push_bit 16 1"

definition VIRTIO_NET_S_LINK_UP :: u16 where
  "VIRTIO_NET_S_LINK_UP = 1"

definition VNET_HDR_LEN :: nat where
  "VNET_HDR_LEN = 12"

definition NET_CONFIG_LEN :: nat where
  "NET_CONFIG_LEN = 8"

definition RX_NOTIFY_ID :: u64 where
  "RX_NOTIFY_ID = of_nat (NUM_QUEUES + 1)"

definition VIRTQ_DESC_F_WRITE :: u16 where
  "VIRTQ_DESC_F_WRITE = 2"

definition vhost_hex_prefix :: "bytes \<Rightarrow> nat \<Rightarrow> string" where
  "vhost_hex_prefix buf n = concat (map hex2 (take n buf))"

definition vnet_header :: bytes where
  "vnet_header = replicate VNET_HDR_LEN 0"

definition encode_driver_tx :: "bytes \<Rightarrow> bytes" where
  "encode_driver_tx frame = vnet_header @ frame"

text \<open>\<open>buf.get(VNET_HDR_LEN..)\<close>.\<close>

definition decode_driver_rx :: "bytes \<Rightarrow> bytes option" where
  "decode_driver_rx buf = (if VNET_HDR_LEN \<le> length buf then Some (drop VNET_HDR_LEN buf) else None)"

datatype port_message = ToVm bytes | FromVm bytes

record port_sink =
  sink_tx :: "port_message list"
  sink_rx :: "port_message list"

section \<open>The queue and memory crates\<close>

text \<open>
  \<open>vq_iter\<close> is the list of chains that \<open>Queue::iter\<close> yields: those between the position
  \<open>next_avail\<close> and the index the driver has published; each chain taken advances
  \<open>next_avail\<close>, and \<open>go_to_previous_position\<close> takes one step back. \<open>ch_read\<close> is the whole
  readable content of a chain through a \<open>Reader\<close>, \<open>ch_capacity\<close> the writable bytes a
  \<open>Writer\<close> finds, and \<open>ch_write\<close> a \<open>write_all\<close> at an offset of the writable area.
\<close>

record ('m, 'q, 'c) virtq_api =
  vq_desc_table :: "'q \<Rightarrow> u64"
  vq_size :: "'q \<Rightarrow> u16"
  vq_next_avail :: "'q \<Rightarrow> u16"
  vq_next_used :: "'q \<Rightarrow> u16"
  vq_set_next_avail :: "u16 \<Rightarrow> 'q \<Rightarrow> 'q"
  vq_avail_idx :: "'m \<Rightarrow> 'q \<Rightarrow> u16 option"
  vq_iter :: "'m \<Rightarrow> 'q \<Rightarrow> 'c list option"
  vq_add_used :: "u16 \<Rightarrow> u32 \<Rightarrow> 'm \<times> 'q \<Rightarrow> ('m \<times> 'q) \<times> (string, unit) result"
  vq_signal :: "'q \<Rightarrow> (string, unit) result"
  ch_head :: "'c \<Rightarrow> u16"
  ch_read :: "'m \<Rightarrow> 'c \<Rightarrow> (string, bytes) result"
  ch_capacity :: "'m \<Rightarrow> 'c \<Rightarrow> (string, nat) result"
  ch_write :: "'c \<Rightarrow> nat \<Rightarrow> bytes \<Rightarrow> 'm \<Rightarrow> 'm \<times> (string, unit) result"
  gm_u16 :: "'m \<Rightarrow> u64 \<Rightarrow> u16 option"
  gm_u32 :: "'m \<Rightarrow> u64 \<Rightarrow> u32 option"
  gm_u64 :: "'m \<Rightarrow> u64 \<Rightarrow> u64 option"

text \<open>A vring: its queue and how often its call descriptor was signalled.\<close>

record 'q vring =
  vr_queue :: 'q
  vr_signals :: nat

section \<open>The backend\<close>

record net_device_config =
  ndc_mac :: bytes

definition net_device_config_default :: net_device_config where
  "net_device_config_default = \<lparr>ndc_mac = replicate 6 0\<rparr>"

text \<open>\<open>NetDeviceConfig::space\<close>: the MAC and the link status, little-endian.\<close>

definition le16_bytes :: "u16 \<Rightarrow> bytes" where
  "le16_bytes w = [ucast w, ucast (drop_bit 8 w)]"

definition config_space :: "net_device_config \<Rightarrow> bytes" where
  "config_space cfg =
     splice 6 (le16_bytes VIRTIO_NET_S_LINK_UP) (splice 0 (ndc_mac cfg) (replicate NET_CONFIG_LEN 0))"

text \<open>
  The backend; the configuration slot and the notifier are the ones it shares with its
  \<open>VhostPort\<close>. \<open>nb_tx\<close> is what was sent while the receiving end existed (\<open>nb_tx_open\<close>).
\<close>

record 'm net_backend =
  nb_mem :: "'m option"
  nb_rx :: "port_message list"
  nb_tx :: "port_message list"
  nb_tx_open :: bool
  nb_config :: net_device_config
  nb_notify :: u64

definition net_backend_new ::
  "port_message list \<Rightarrow> port_message list \<Rightarrow> net_device_config \<Rightarrow> u64 \<Rightarrow> 'm net_backend" where
  "net_backend_new tx rx cfg ntf =
     \<lparr>nb_mem = None, nb_rx = rx, nb_tx = tx, nb_tx_open = True, nb_config = cfg, nb_notify = ntf\<rparr>"

text \<open>\<open>let _ = self.tx.send(..)\<close>: lost when the receiver is gone.\<close>

definition nb_send :: "port_message \<Rightarrow> 'm net_backend \<Rightarrow> 'm net_backend" where
  "nb_send msg b = (if nb_tx_open b then b\<lparr>nb_tx := nb_tx b @ [msg]\<rparr> else b)"

definition head_flags :: "('m, 'q, 'c) virtq_api \<Rightarrow> 'm \<Rightarrow> u64 \<Rightarrow> u16 \<Rightarrow> u16" where
  "head_flags V m desc_table head =
     (if desc_table \<noteq> 0
      then (case gm_u16 V m (desc_table + 16 * ucast head + 12) of Some w \<Rightarrow> w | None \<Rightarrow> 0)
      else 0)"

text \<open>The format \<open>{:#x}\<close> and the diagnostic dump of three descriptors.\<close>

fun show_hex_nat :: "nat \<Rightarrow> string" where
  "show_hex_nat n = (if n < 16 then [digit_char n] else show_hex_nat (n div 16) @ [digit_char (n mod 16)])"

declare show_hex_nat.simps [simp del]

definition or_zero :: "'w::len word option \<Rightarrow> 'w word" where
  "or_zero x = (case x of Some w \<Rightarrow> w | None \<Rightarrow> 0)"

definition dump_desc :: "('m, 'q, 'c) virtq_api \<Rightarrow> 'm \<Rightarrow> u64 \<Rightarrow> nat \<Rightarrow> string" where
  "dump_desc V m desc_table h =
     (let base = desc_table + 16 * of_nat h;
          addr = or_zero (gm_u64 V m base); len = or_zero (gm_u32 V m (base + 8));
          flags = or_zero (gm_u16 V m (base + 12)); nxt = or_zero (gm_u16 V m (base + 14))
      in ''['' @ show_nat h @ ''] 0x'' @ show_hex_nat (unat addr) @ ''/'' @ show_nat (unat len)
         @ ''/f0x'' @ show_hex_nat (unat flags) @ ''->n'' @ show_nat (unat nxt))"

definition dump_descs :: "('m, 'q, 'c) virtq_api \<Rightarrow> 'm \<Rightarrow> u64 \<Rightarrow> u16 \<Rightarrow> string" where
  "dump_descs V m desc_table head =
     (if desc_table = 0 then ''no desc table''
      else join_with '' '' (map (dump_desc V m desc_table) [unat head ..< min (unat head + 3) 65535]))"

section \<open>Completing chains\<close>

text \<open>The loop of \<open>complete_used\<close>: the first failing \<open>add_used\<close> ends it.\<close>

fun mark_used ::
  "('m, 'q, 'c) virtq_api \<Rightarrow> (u16 \<times> u32) list \<Rightarrow> 'm \<times> 'q \<Rightarrow> ('m \<times> 'q) \<times> (string, unit) result" where
  "mark_used V [] mq = (mq, Inr ())"
| "mark_used V ((idx, len) # used) mq =
     (case vq_add_used V idx len mq of
        (mq', Inl e) \<Rightarrow> (mq', Inl e)
      | (mq', Inr _) \<Rightarrow> mark_used V used mq')"

definition complete_used ::
  "('m, 'q, 'c) virtq_api \<Rightarrow> (u16 \<times> u32) list \<Rightarrow> 'm \<Rightarrow> 'q vring \<Rightarrow> 'm \<times> 'q vring \<times> (string, unit) result" where
  "complete_used V used m vr =
     (case mark_used V used (m, vr_queue vr) of
        ((m', q'), Inl e) \<Rightarrow> (m', vr\<lparr>vr_queue := q'\<rparr>, Inl e)
      | ((m', q'), Inr _) \<Rightarrow>
          if used = [] then (m', vr\<lparr>vr_queue := q'\<rparr>, Inr ())
          else (m', vr\<lparr>vr_queue := q', vr_signals := Suc (vr_signals vr)\<rparr>, vq_signal V q'))"

section \<open>The transmit ring\<close>

text \<open>
  Each chain is completed: with its length when it carried a frame, empty when its head is
  writable or it is shorter than the header. An unreadable chain ends the batch.
\<close>

fun tx_drain ::
  "('m, 'q, 'c) virtq_api \<Rightarrow> 'm \<Rightarrow> u64 \<Rightarrow> 'c list \<Rightarrow> 'm net_backend \<Rightarrow> (u16 \<times> u32) list \<Rightarrow>
     'm net_backend \<times> (string, (u16 \<times> u32) list) result" where
  "tx_drain V m desc_table [] b used = (b, Inr used)"
| "tx_drain V m desc_table (chain # posted) b used =
     (let head = ch_head V chain in
      if head_flags V m desc_table head AND VIRTQ_DESC_F_WRITE \<noteq> 0
      then tx_drain V m desc_table posted b (used @ [(head, 0)])
      else (case ch_read V m chain of
              Inl e \<Rightarrow> (b, Inl e)
            | Inr raw \<Rightarrow>
                (case decode_driver_rx raw of
                   Some frame \<Rightarrow>
                     tx_drain V m desc_table posted (nb_send (FromVm frame) b)
                       (used @ [(head, of_nat (length raw))])
                 | None \<Rightarrow> tx_drain V m desc_table posted b (used @ [(head, 0)]))))"

definition service_tx ::
  "('m, 'q, 'c) virtq_api \<Rightarrow> 'm net_backend \<Rightarrow> 'm \<Rightarrow> 'q vring \<Rightarrow>
     'm net_backend \<times> 'm \<times> 'q vring \<times> (string, unit) result" where
  "service_tx V b m vr =
     (let q = vr_queue vr; desc_table = vq_desc_table V q in
      case vq_iter V m q of
        None \<Rightarrow> (b, m, vr, Inr ())
      | Some posted \<Rightarrow>
          let vr1 = vr\<lparr>vr_queue := vq_set_next_avail V (vq_next_avail V q + of_nat (length posted)) q\<rparr> in
          (case tx_drain V m desc_table posted b [] of
             (b', Inl e) \<Rightarrow> (b', m, vr1, Inl e)
           | (b', Inr used) \<Rightarrow> (b', complete_used V used m vr1)))"

section \<open>The receive ring\<close>

text \<open>
  Recovery after a reconnect: when nothing new is posted and chains posted before are still
  unanswered, delivery resumes at the first unanswered one. The differences wrap.
\<close>

definition rx_recover :: "('m, 'q, 'c) virtq_api \<Rightarrow> 'm \<Rightarrow> 'q \<Rightarrow> 'q" where
  "rx_recover V m q =
     (case vq_avail_idx V m q of
        None \<Rightarrow> q
      | Some avail \<Rightarrow>
          let new = avail - vq_next_avail V q; pending = avail - vq_next_used V q in
          if new = 0 \<and> pending \<noteq> 0 \<and> pending \<le> vq_size V q
          then vq_set_next_avail V (vq_next_used V q) q else q)"

text \<open>The header, then the frame.\<close>

definition rx_write ::
  "('m, 'q, 'c) virtq_api \<Rightarrow> 'c \<Rightarrow> bytes \<Rightarrow> 'm \<Rightarrow> 'm \<times> (string, unit) result" where
  "rx_write V chain frame m =
     (case ch_write V chain 0 (replicate VNET_HDR_LEN 0) m of
        (m1, Inl e) \<Rightarrow> (m1, Inl e)
      | (m1, Inr _) \<Rightarrow> ch_write V chain VNET_HDR_LEN frame m1)"

text \<open>
  The delivery loop. Taking a chain advances the queue; when no frame waits (or the message is
  not one for the guest) the queue steps back and the chain stays posted.
\<close>

fun rx_fill ::
  "('m, 'q, 'c) virtq_api \<Rightarrow> u64 \<Rightarrow> 'c list \<Rightarrow> 'm \<Rightarrow> 'q \<Rightarrow> port_message list \<Rightarrow> (u16 \<times> u32) list \<Rightarrow>
     'm \<times> 'q \<times> port_message list \<times> (string, (u16 \<times> u32) list) result" where
  "rx_fill V desc_table [] m q rx used = (m, q, rx, Inr used)"
| "rx_fill V desc_table (chain # posted) m q rx used =
     (let head = ch_head V chain; q1 = vq_set_next_avail V (vq_next_avail V q + 1) q in
      if head_flags V m desc_table head AND VIRTQ_DESC_F_WRITE = 0
      then rx_fill V desc_table posted m q1 rx (used @ [(head, 0)])
      else (case ch_capacity V m chain of
              Inl e \<Rightarrow> (m, q1, rx, Inl e)
            | Inr cap \<Rightarrow>
                (case rx of
                   ToVm frame # rx' \<Rightarrow>
                     if length frame + VNET_HDR_LEN \<le> cap
                     then (case rx_write V chain frame m of
                             (m', Inl e) \<Rightarrow> (m', q1, rx', Inl e)
                           | (m', Inr _) \<Rightarrow>
                               rx_fill V desc_table posted m' q1 rx'
                                 (used @ [(head, of_nat (length frame + VNET_HDR_LEN))]))
                     else rx_fill V desc_table posted m q1 rx' (used @ [(head, 0)])
                 | _ \<Rightarrow> (m, vq_set_next_avail V (vq_next_avail V q1 - 1) q1, tl rx, Inr used))))"

definition service_rx ::
  "('m, 'q, 'c) virtq_api \<Rightarrow> 'm net_backend \<Rightarrow> 'm \<Rightarrow> 'q vring \<Rightarrow>
     'm net_backend \<times> 'm \<times> 'q vring \<times> (string, unit) result" where
  "service_rx V b m vr =
     (let desc_table = vq_desc_table V (vr_queue vr); q = rx_recover V m (vr_queue vr) in
      case vq_iter V m q of
        None \<Rightarrow> (b, m, vr\<lparr>vr_queue := q\<rparr>, Inr ())
      | Some posted \<Rightarrow>
          (case rx_fill V desc_table posted m q (nb_rx b) [] of
             (m1, q1, rx1, Inl e) \<Rightarrow> (b\<lparr>nb_rx := rx1\<rparr>, m1, vr\<lparr>vr_queue := q1\<rparr>, Inl e)
           | (m1, q1, rx1, Inr used) \<Rightarrow>
               (b\<lparr>nb_rx := rx1\<rparr>, complete_used V used m1 (vr\<lparr>vr_queue := q1\<rparr>))))"

section \<open>The device callbacks\<close>

definition vhost_num_queues :: nat where
  "vhost_num_queues = NUM_QUEUES"

definition vhost_max_queue_size :: nat where
  "vhost_max_queue_size = unat QUEUE_SIZE"

definition vhost_features :: u64 where
  "vhost_features = VIRTIO_F_VERSION_1 OR VHOST_USER_PROTOCOL OR VIRTIO_NET_F_MAC OR VIRTIO_NET_F_STATUS"

text \<open>The window of the configuration space; \<open>resize\<close> pads with zeros. Sizes are of a 64-bit target.\<close>

definition resize :: "nat \<Rightarrow> bytes \<Rightarrow> bytes" where
  "resize n bs = take n bs @ replicate (n - length bs) 0"

definition get_config :: "'m net_backend \<Rightarrow> u32 \<Rightarrow> u32 \<Rightarrow> bytes" where
  "get_config b offset len =
     (let cfg = config_space (nb_config b); start = unat offset;
          fin = min (min (start + unat len) (2 ^ 64 - 1)) (length cfg)
      in if length cfg \<le> start then replicate (unat len) 0
         else resize (unat len) (take (fin - start) (drop start cfg)))"

definition queues_per_thread :: "u64 list" where
  "queues_per_thread = [1, 2]"

datatype protocol_feature = REPLY_ACK

definition vhost_protocol_features :: "protocol_feature set" where
  "vhost_protocol_features = {REPLY_ACK}"

definition update_memory :: "'m \<Rightarrow> 'm net_backend \<Rightarrow> 'm net_backend" where
  "update_memory m b = b\<lparr>nb_mem := Some m\<rparr>"

text \<open>
  One event on a worker: the notifier is drained first, the kick counted (the counters are the
  global \<open>KICK_COUNTS\<close>), and the ring of this worker served if memory is mapped. A failed batch
  is only logged; without a ring in the list the index panics.
\<close>

definition handle_event ::
  "('m, 'q, 'c) virtq_api \<Rightarrow> u16 \<Rightarrow> 'q vring list \<Rightarrow> nat \<Rightarrow> 'm net_backend \<Rightarrow> u64 list \<Rightarrow>
     ('m net_backend \<times> 'q vring list \<times> u64 list) outcome" where
  "handle_event V device_event vrings thread_id b kicks =
     (let b = (if ucast device_event = RX_NOTIFY_ID then b\<lparr>nb_notify := 0\<rparr> else b);
          k = min thread_id 1; kicks = kicks[k := kicks ! k + 1]
      in case nb_mem b of
           None \<Rightarrow> Done (b, vrings, kicks)
         | Some m \<Rightarrow>
             if thread_id \<noteq> RX_VRING \<and> thread_id \<noteq> TX_VRING then Done (b, vrings, kicks)
             else (case vrings of
                     [] \<Rightarrow> Panicked
                   | vr # rest \<Rightarrow>
                       (case (if thread_id = RX_VRING then service_rx V b m vr else service_tx V b m vr) of
                          (b', m', vr', served) \<Rightarrow> Done (b'\<lparr>nb_mem := Some m'\<rparr>, vr' # rest, kicks))))"

section \<open>The port\<close>

text \<open>\<open>worker\<close> is whether the handle of the listening thread is held.\<close>

record 'm vhost_port =
  vp_backend :: "'m net_backend"
  vp_socket_path :: string
  vp_stop :: bool
  vp_worker :: bool

text \<open>What the system answers while a port is made: the parent directory, the event descriptor, the listener.\<close>

record vhost_os =
  vos_parent_exists :: "string \<Rightarrow> bool"
  vos_eventfd :: "(string, unit) result"
  vos_listen :: "string \<Rightarrow> (string, unit) result"

definition vhost_port_new :: "vhost_os \<Rightarrow> string \<Rightarrow> port_sink \<Rightarrow> (string, 'm vhost_port) result" where
  "vhost_port_new S path sink =
     (if \<not> vos_parent_exists S path then Inl (''missing parent directory for '' @ path)
      else (case vos_eventfd S of
              Inl e \<Rightarrow> Inl e
            | Inr _ \<Rightarrow>
                (case vos_listen S path of
                   Inl e \<Rightarrow> Inl e
                 | Inr _ \<Rightarrow>
                     Inr \<lparr>vp_backend = net_backend_new (sink_tx sink) (sink_rx sink) net_device_config_default 0,
                          vp_socket_path = path, vp_stop = False, vp_worker = True\<rparr>)))"

definition vhost_set_mac :: "bytes \<Rightarrow> 'm vhost_port \<Rightarrow> 'm vhost_port" where
  "vhost_set_mac mac vp = vp\<lparr>vp_backend := (vp_backend vp)\<lparr>nb_config := \<lparr>ndc_mac = mac\<rparr>\<rparr>\<rparr>"

text \<open>\<open>EventFd::write(1)\<close>: the counter stops below its maximum, the failed write is ignored.\<close>

definition vhost_kick_rx :: "'m vhost_port \<Rightarrow> 'm vhost_port" where
  "vhost_kick_rx vp =
     (let n = nb_notify (vp_backend vp) in
      vp\<lparr>vp_backend := (vp_backend vp)\<lparr>nb_notify := (if n < - 2 then n + 1 else n)\<rparr>\<rparr>)"

text \<open>
  \<open>Drop\<close>: the stop flag, a connection that wakes the accepting thread, the handle given up
  (the thread is not joined), the path unlinked. The result is the paths connected to and removed.
\<close>

definition vhost_drop :: "'m vhost_port \<Rightarrow> 'm vhost_port \<times> string list \<times> string list" where
  "vhost_drop vp = (vp\<lparr>vp_stop := True, vp_worker := False\<rparr>, [vp_socket_path vp], [vp_socket_path vp])"

text \<open>
  One round of the listening thread, over what it finds: the stop flag at each of its checks,
  and whether creating the daemon, starting it and registering the notifier succeed.
\<close>

record session_round =
  sr_stop_top :: bool
  sr_created :: bool
  sr_started :: bool
  sr_registered :: bool
  sr_stop_mid :: bool
  sr_stop_end :: bool

datatype session_act = SleptBriefly | RegisteredNotifier bool | WaitedForSession | ShutDownSession | ForgotDaemon

definition session_turn :: "session_round \<Rightarrow> session_act list \<times> bool" where
  "session_turn r =
     (if sr_stop_top r then ([], True)
      else if \<not> sr_created r \<or> \<not> sr_started r
      then (if sr_stop_mid r then ([], True) else ([SleptBriefly], False))
      else if sr_stop_mid r then ([RegisteredNotifier (sr_registered r), ShutDownSession, WaitedForSession], True)
      else if sr_stop_end r then ([RegisteredNotifier (sr_registered r), WaitedForSession, ShutDownSession], True)
      else ([RegisteredNotifier (sr_registered r), WaitedForSession, ShutDownSession, ForgotDaemon], False))"

text \<open>The loop: the actions of its rounds, and whether it has ended.\<close>

fun session_loop :: "session_round list \<Rightarrow> session_act list \<times> bool" where
  "session_loop [] = ([], False)"
| "session_loop (r # rounds) =
     (case session_turn r of
        (acts, True) \<Rightarrow> (acts, True)
      | (acts, False) \<Rightarrow> (case session_loop rounds of (acts', fin) \<Rightarrow> (acts @ acts', fin)))"

section \<open>What the port relies on\<close>

text \<open>
  The guest's view of a ring: whether the descriptors and rings in memory are intact, the content
  of the buffer of a chain, its size, and the used entries the driver has been given.
\<close>

record ('m, 'q, 'c) guest_view =
  gv_intact :: "'m \<Rightarrow> bool"
  gv_buffer :: "'m \<Rightarrow> 'c \<Rightarrow> bytes"
  gv_capacity :: "'c \<Rightarrow> nat"
  gv_used :: "'q \<Rightarrow> (u16 \<times> u32) list"

text \<open>Moving the position of a queue moves nothing else.\<close>

definition queue_laws :: "('m, 'q, 'c) virtq_api \<Rightarrow> ('m, 'q, 'c) guest_view \<Rightarrow> bool" where
  "queue_laws V G =
     (\<forall>n q. vq_next_avail V (vq_set_next_avail V n q) = n \<and> vq_next_used V (vq_set_next_avail V n q) = vq_next_used V q
        \<and> gv_used G (vq_set_next_avail V n q) = gv_used G q)"

text \<open>\<open>add_used\<close> for the head of a posted chain appends to the used ring.\<close>

definition used_laws :: "('m, 'q, 'c) virtq_api \<Rightarrow> ('m, 'q, 'c) guest_view \<Rightarrow> 'c set \<Rightarrow> bool" where
  "used_laws V G S =
     (\<forall>m q l. \<forall>c \<in> S. gv_intact G m \<longrightarrow>
        (\<exists>m' q'. vq_add_used V (ch_head V c) l (m, q) = ((m', q'), Inr ()) \<and> gv_intact G m'
           \<and> gv_buffer G m' = gv_buffer G m \<and> gv_used G q' = gv_used G q @ [(ch_head V c, l)]
           \<and> vq_next_used V q' = vq_next_used V q + 1 \<and> vq_next_avail V q' = vq_next_avail V q))"

text \<open>
  The chains posted for receiving have a writable head, a writer finds their buffer, and a write
  inside it changes this buffer only: posted buffers do not overlap.
\<close>

definition buffer_laws :: "('m, 'q, 'c) virtq_api \<Rightarrow> ('m, 'q, 'c) guest_view \<Rightarrow> u64 \<Rightarrow> 'c set \<Rightarrow> bool" where
  "buffer_laws V G desc_table S =
     (\<forall>m. \<forall>c \<in> S. gv_intact G m \<longrightarrow>
        head_flags V m desc_table (ch_head V c) AND VIRTQ_DESC_F_WRITE \<noteq> 0
        \<and> ch_capacity V m c = Inr (gv_capacity G c) \<and> length (gv_buffer G m c) = gv_capacity G c
        \<and> (\<forall>off bs. off + length bs \<le> gv_capacity G c \<longrightarrow>
             (\<exists>m'. ch_write V c off bs m = (m', Inr ()) \<and> gv_intact G m'
                \<and> gv_buffer G m' c = splice off bs (gv_buffer G m c)
                \<and> (\<forall>d \<in> S - {c}. gv_buffer G m' d = gv_buffer G m d))))"

lemma queue_lawsD:
  assumes "queue_laws V G"
  shows "vq_next_avail V (vq_set_next_avail V n q) = n"
    "vq_next_used V (vq_set_next_avail V n q) = vq_next_used V q"
    "gv_used G (vq_set_next_avail V n q) = gv_used G q"
  using assms by (simp_all add: queue_laws_def)

section \<open>Header and configuration space\<close>

lemma driver_decode_encode [simp]: "decode_driver_rx (encode_driver_tx frame) = Some frame"
  by (simp add: decode_driver_rx_def encode_driver_tx_def vnet_header_def)

lemma config_space_eq: "length (ndc_mac cfg) = 6 \<Longrightarrow> config_space cfg = ndc_mac cfg @ [1, 0]"
  by (simp add: config_space_def splice_def le16_bytes_def VIRTIO_NET_S_LINK_UP_def NET_CONFIG_LEN_def)

text \<open>
  C22: the configuration window. Whatever offset and length the frontend asks for, the answer has
  exactly that length, and its byte \<open>i\<close> is the byte of the space (the pinned MAC, then link up)
  at \<open>offset + i\<close>, or zero beyond the space.
\<close>

theorem get_config_window:
  assumes "length (ndc_mac (nb_config b)) = 6"
  shows "length (get_config b offset len) = unat len
    \<and> (\<forall>i < unat len. get_config b offset len ! i
         = (let at = unat offset + i; space = ndc_mac (nb_config b) @ [1, 0] in
            if at < 8 then space ! at else 0))"
proof -
  define sp where "sp = ndc_mac (nb_config b) @ [1, 0 :: u8]"
  have sp: "config_space (nb_config b) = sp" "length sp = 8"
    using assms by (simp_all add: config_space_eq sp_def)
  have bound: "unat offset + unat len < 2 ^ 64 - 1"
    using unsigned_less [of offset, where 'a = nat] unsigned_less [of len, where 'a = nat] by simp
  have "length (get_config b offset len) = unat len
    \<and> (\<forall>i < unat len. get_config b offset len ! i = (if unat offset + i < 8 then sp ! (unat offset + i) else 0))"
  proof (cases "8 \<le> unat offset")
    case True
    then show ?thesis using sp by (simp add: get_config_def Let_def)
  next
    case False
    define part where "part = take (min (unat offset + unat len) 8 - unat offset) (drop (unat offset) sp)"
    have g: "get_config b offset len = resize (unat len) part"
      using False sp bound by (simp add: get_config_def Let_def part_def min_def)
    have l: "length part = min (unat len) (8 - unat offset)" using False sp by (auto simp: part_def)
    have n: "part ! i = sp ! (unat offset + i)" if "i < length part" for i
      using that False sp by (simp add: part_def)
    show ?thesis using l n False by (auto simp: g resize_def nth_append)
  qed
  then show ?thesis by (simp add: sp_def Let_def)
qed

theorem get_config_window_witness:
  "get_config ((net_backend_new [] [] \<lparr>ndc_mac = [2, 0, 10, 0, 0, 7]\<rparr> 0) :: unit net_backend) 4 8
     = [0, 7, 1, 0, 0, 0, 0, 0]"
proof -
  let ?b = "(net_backend_new [] [] \<lparr>ndc_mac = [2, 0, 10, 0, 0, 7]\<rparr> 0) :: unit net_backend"
  have "length (ndc_mac (nb_config ?b)) = 6" by (simp add: net_backend_new_def)
  note w = get_config_window [OF this, of 4 8]
  have "length (get_config ?b 4 8) = length [0, 7, 1, 0, 0, 0, 0, 0 :: u8]" using w by simp
  moreover have "\<forall>i < 8. get_config ?b 4 8 ! i = [0, 7, 1, 0, 0, 0, 0, 0] ! i"
  proof (intro allI impI)
    fix i :: nat assume i: "i < 8"
    then have "get_config ?b 4 8 ! i = (if 4 + i < 8 then [2, 0, 10, 0, 0, 7, 1, 0] ! (4 + i) else 0)"
      using w by (simp add: net_backend_new_def Let_def)
    moreover from i have "i \<in> {0, 1, 2, 3, 4, 5, 6, 7}" by auto
    ultimately show "get_config ?b 4 8 ! i = [0, 7, 1, 0, 0, 0, 0, 0] ! i" by auto
  qed
  ultimately show ?thesis by (intro nth_equalityI) simp_all
qed

section \<open>Completion\<close>

lemma mark_used_posted:
  assumes "used_laws V G S" "gv_intact G m" "fst ` set used \<subseteq> ch_head V ` S"
  shows "\<exists>m' q'. mark_used V used (m, q) = ((m', q'), Inr ()) \<and> gv_intact G m' \<and> gv_buffer G m' = gv_buffer G m
    \<and> gv_used G q' = gv_used G q @ used \<and> vq_next_used V q' = vq_next_used V q + of_nat (length used)
    \<and> vq_next_avail V q' = vq_next_avail V q"
  using assms(2,3)
proof (induction used arbitrary: m q)
  case Nil
  then show ?case by simp
next
  case (Cons u used)
  obtain h l where u: "u = (h, l)" by fastforce
  then obtain c where "c \<in> S" "h = ch_head V c" using Cons.prems by auto
  then obtain m1 q1 where a: "vq_add_used V h l (m, q) = ((m1, q1), Inr ())" "gv_intact G m1"
      "gv_buffer G m1 = gv_buffer G m" "gv_used G q1 = gv_used G q @ [u]"
      "vq_next_used V q1 = vq_next_used V q + 1" "vq_next_avail V q1 = vq_next_avail V q"
    using assms(1) Cons.prems(1) u unfolding used_laws_def by metis
  obtain m2 q2 where b: "mark_used V used (m1, q1) = ((m2, q2), Inr ())" "gv_intact G m2"
      "gv_buffer G m2 = gv_buffer G m1" "gv_used G q2 = gv_used G q1 @ used"
      "vq_next_used V q2 = vq_next_used V q1 + of_nat (length used)" "vq_next_avail V q2 = vq_next_avail V q1"
    using Cons.IH [OF a(2), of q1] Cons.prems(2) by auto
  then show ?case using a u by (simp add: algebra_simps)
qed

text \<open>Chains of the ring are completed, and the driver is signalled once if there were any.\<close>

lemma complete_used_posted:
  assumes "used_laws V G S" "gv_intact G m" "fst ` set used \<subseteq> ch_head V ` S"
  shows "\<exists>m' vr' r. complete_used V used m vr = (m', vr', r)
    \<and> r = (if used = [] then Inr () else vq_signal V (vr_queue vr'))
    \<and> gv_intact G m' \<and> gv_buffer G m' = gv_buffer G m
    \<and> gv_used G (vr_queue vr') = gv_used G (vr_queue vr) @ used
    \<and> vq_next_used V (vr_queue vr') = vq_next_used V (vr_queue vr) + of_nat (length used)
    \<and> vq_next_avail V (vr_queue vr') = vq_next_avail V (vr_queue vr)
    \<and> vr_signals vr' = vr_signals vr + (if used = [] then 0 else 1)"
proof -
  obtain m' q' where "mark_used V used (m, vr_queue vr) = ((m', q'), Inr ())" "gv_intact G m'"
      "gv_buffer G m' = gv_buffer G m" "gv_used G q' = gv_used G (vr_queue vr) @ used"
      "vq_next_used V q' = vq_next_used V (vr_queue vr) + of_nat (length used)"
      "vq_next_avail V q' = vq_next_avail V (vr_queue vr)"
    using mark_used_posted [OF assms, of "vr_queue vr"] by blast
  then show ?thesis by (cases "used = []") (simp_all add: complete_used_def)
qed

section \<open>Transmission\<close>

text \<open>Whether a chain carries a frame, and the entry with which it is completed.\<close>

definition tx_carries :: "('m, 'q, 'c) virtq_api \<Rightarrow> 'm \<Rightarrow> u64 \<Rightarrow> ('c \<Rightarrow> bytes) \<Rightarrow> 'c \<Rightarrow> bool" where
  "tx_carries V m desc_table raw c =
     (head_flags V m desc_table (ch_head V c) AND VIRTQ_DESC_F_WRITE = 0 \<and> 12 \<le> length (raw c))"

definition tx_entry :: "('m, 'q, 'c) virtq_api \<Rightarrow> 'm \<Rightarrow> u64 \<Rightarrow> ('c \<Rightarrow> bytes) \<Rightarrow> 'c \<Rightarrow> u16 \<times> u32" where
  "tx_entry V m desc_table raw c =
     (ch_head V c, if tx_carries V m desc_table raw c then of_nat (length (raw c)) else 0)"

lemma nb_send_open [simp]: "nb_tx_open (nb_send msg b) = nb_tx_open b"
  by (simp add: nb_send_def)

lemma tx_drain_posted:
  assumes "\<forall>c \<in> set cs. head_flags V m dt (ch_head V c) AND VIRTQ_DESC_F_WRITE = 0 \<longrightarrow> ch_read V m c = Inr (raw c)"
    and "nb_tx_open b"
  shows "tx_drain V m dt cs b used =
    (b\<lparr>nb_tx := nb_tx b @ map (\<lambda>c. FromVm (drop 12 (raw c))) (filter (tx_carries V m dt raw) cs)\<rparr>,
     Inr (used @ map (tx_entry V m dt raw) cs))"
  using assms
proof (induction cs arbitrary: b used)
  case Nil
  then show ?case by simp
next
  case (Cons c cs)
  then show ?case
    by (auto simp: Let_def tx_entry_def tx_carries_def decode_driver_rx_def VNET_HDR_LEN_def nb_send_def)
qed

lemma service_tx_posted:
  assumes "queue_laws V G" "used_laws V G (set cs)" "gv_intact G m"
    and "vq_iter V m (vr_queue vr) = Some cs" "dt = vq_desc_table V (vr_queue vr)"
    and "\<forall>c \<in> set cs. head_flags V m dt (ch_head V c) AND VIRTQ_DESC_F_WRITE = 0 \<longrightarrow> ch_read V m c = Inr (raw c)"
    and "nb_tx_open b"
  shows "\<exists>m' vr' r.
    service_tx V b m vr =
      (b\<lparr>nb_tx := nb_tx b @ map (\<lambda>c. FromVm (drop 12 (raw c))) (filter (tx_carries V m dt raw) cs)\<rparr>, m', vr', r)
    \<and> r = (if cs = [] then Inr () else vq_signal V (vr_queue vr'))
    \<and> gv_buffer G m' = gv_buffer G m
    \<and> gv_used G (vr_queue vr') = gv_used G (vr_queue vr) @ map (tx_entry V m dt raw) cs
    \<and> vq_next_avail V (vr_queue vr') = vq_next_avail V (vr_queue vr) + of_nat (length cs)
    \<and> vq_next_used V (vr_queue vr') = vq_next_used V (vr_queue vr) + of_nat (length cs)
    \<and> vr_signals vr' = vr_signals vr + (if cs = [] then 0 else 1)"
proof -
  let ?used = "map (tx_entry V m dt raw) cs"
  let ?vr = "vr\<lparr>vr_queue := vq_set_next_avail V (vq_next_avail V (vr_queue vr) + of_nat (length cs)) (vr_queue vr)\<rparr>"
  have "fst ` set ?used \<subseteq> ch_head V ` set cs" by (auto simp: tx_entry_def)
  then obtain m' vr' r where c: "complete_used V ?used m ?vr = (m', vr', r)"
      "r = (if ?used = [] then Inr () else vq_signal V (vr_queue vr'))" "gv_buffer G m' = gv_buffer G m"
      "gv_used G (vr_queue vr') = gv_used G (vr_queue ?vr) @ ?used"
      "vq_next_used V (vr_queue vr') = vq_next_used V (vr_queue ?vr) + of_nat (length ?used)"
      "vq_next_avail V (vr_queue vr') = vq_next_avail V (vr_queue ?vr)"
      "vr_signals vr' = vr_signals ?vr + (if ?used = [] then 0 else 1)"
    using complete_used_posted [OF assms(2,3), of ?used ?vr] by blast
  have "service_tx V b m vr =
      (b\<lparr>nb_tx := nb_tx b @ map (\<lambda>c. FromVm (drop 12 (raw c))) (filter (tx_carries V m dt raw) cs)\<rparr>, m', vr', r)"
    using c(1) assms(4,5) tx_drain_posted [OF assms(6,7)] by (simp add: service_tx_def Let_def)
  with c show ?thesis using queue_lawsD [OF assms(1)] by simp
qed

text \<open>
  C20: transmission. One service of the transmit ring publishes, in the order the driver posted
  them, exactly the frames of the readable chains that carry a header, without the header; it
  completes every chain (empty when it carried no frame), takes all of them off the ring, and
  signals the driver once unless nothing was posted.
\<close>

theorem service_tx_publishes:
  assumes "queue_laws V G" "used_laws V G (set cs)" "gv_intact G m"
    and "vq_iter V m (vr_queue vr) = Some cs" "dt = vq_desc_table V (vr_queue vr)"
    and "\<forall>c \<in> set cs. head_flags V m dt (ch_head V c) AND VIRTQ_DESC_F_WRITE = 0 \<longrightarrow> ch_read V m c = Inr (raw c)"
    and "nb_tx_open b"
  shows "\<exists>m' vr' r.
    service_tx V b m vr =
      (b\<lparr>nb_tx := nb_tx b @ map (\<lambda>c. FromVm (drop 12 (raw c))) (filter (tx_carries V m dt raw) cs)\<rparr>, m', vr', r)
    \<and> r = (if cs = [] then Inr () else vq_signal V (vr_queue vr'))
    \<and> gv_buffer G m' = gv_buffer G m
    \<and> gv_used G (vr_queue vr') = gv_used G (vr_queue vr) @ map (tx_entry V m dt raw) cs
    \<and> vq_next_avail V (vr_queue vr') = vq_next_avail V (vr_queue vr) + of_nat (length cs)
    \<and> vq_next_used V (vr_queue vr') = vq_next_used V (vr_queue vr) + of_nat (length cs)
    \<and> vr_signals vr' = vr_signals vr + (if cs = [] then 0 else 1)"
  by (rule service_tx_posted [OF assms])

section \<open>Reception\<close>

lemma buffer_lawsD:
  assumes "buffer_laws V G dt S" "c \<in> S" "gv_intact G m"
  shows "head_flags V m dt (ch_head V c) AND VIRTQ_DESC_F_WRITE \<noteq> 0"
    "ch_capacity V m c = Inr (gv_capacity G c)" "length (gv_buffer G m c) = gv_capacity G c"
    "off + length bs \<le> gv_capacity G c \<Longrightarrow>
       \<exists>m'. ch_write V c off bs m = (m', Inr ()) \<and> gv_intact G m'
         \<and> gv_buffer G m' c = splice off bs (gv_buffer G m c) \<and> (\<forall>d \<in> S - {c}. gv_buffer G m' d = gv_buffer G m d)"
  using assms unfolding buffer_laws_def by blast+

text \<open>A buffer after delivery: the all-zero header, the frame, and what was behind them.\<close>

definition rx_buffer :: "bytes \<Rightarrow> bytes \<Rightarrow> bytes" where
  "rx_buffer frame buf = encode_driver_tx frame @ drop (length frame + 12) buf"

lemma decode_rx_buffer:
  "decode_driver_rx (take (length frame + 12) (rx_buffer frame buf)) = Some frame"
  by (simp add: rx_buffer_def encode_driver_tx_def vnet_header_def decode_driver_rx_def VNET_HDR_LEN_def)

lemma rx_buffer_header: "take 12 (rx_buffer frame buf) = replicate 12 0"
  by (simp add: rx_buffer_def encode_driver_tx_def vnet_header_def VNET_HDR_LEN_def)

lemma rx_write_posted:
  assumes laws: "buffer_laws V G dt S" "c \<in> S" and m: "gv_intact G m"
    and fits: "length frame + 12 \<le> gv_capacity G c"
  shows "\<exists>m'. rx_write V c frame m = (m', Inr ()) \<and> gv_intact G m'
    \<and> gv_buffer G m' c = rx_buffer frame (gv_buffer G m c) \<and> (\<forall>d \<in> S - {c}. gv_buffer G m' d = gv_buffer G m d)"
proof -
  obtain m1 where 1: "ch_write V c 0 (replicate 12 0) m = (m1, Inr ())" "gv_intact G m1"
      "gv_buffer G m1 c = splice 0 (replicate 12 0) (gv_buffer G m c)" "\<forall>d \<in> S - {c}. gv_buffer G m1 d = gv_buffer G m d"
    using buffer_lawsD(4) [OF laws m, of 0 "replicate 12 0"] fits by auto
  obtain m2 where 2: "ch_write V c 12 frame m1 = (m2, Inr ())" "gv_intact G m2"
      "gv_buffer G m2 c = splice 12 frame (gv_buffer G m1 c)" "\<forall>d \<in> S - {c}. gv_buffer G m2 d = gv_buffer G m1 d"
    using buffer_lawsD(4) [OF laws 1(2), of 12 frame] fits by auto
  have "gv_buffer G m2 c = rx_buffer frame (gv_buffer G m c)"
    using 1(3) 2(3) buffer_lawsD(3) [OF laws m] fits
    by (simp add: splice_def rx_buffer_def encode_driver_tx_def vnet_header_def VNET_HDR_LEN_def add.commute)
  with 1 2 show ?thesis by (simp add: rx_write_def VNET_HDR_LEN_def)
qed

text \<open>The entry with which a chain is completed when a frame is taken for it.\<close>

definition rx_entry :: "('m, 'q, 'c) virtq_api \<Rightarrow> ('m, 'q, 'c) guest_view \<Rightarrow> 'c \<times> bytes \<Rightarrow> u16 \<times> u32" where
  "rx_entry V G cf =
     (ch_head V (fst cf),
      if length (snd cf) + 12 \<le> gv_capacity G (fst cf) then of_nat (length (snd cf) + 12) else 0)"

definition rx_content :: "('m, 'q, 'c) guest_view \<Rightarrow> 'm \<Rightarrow> 'c \<times> bytes \<Rightarrow> bytes" where
  "rx_content G m cf =
     (if length (snd cf) + 12 \<le> gv_capacity G (fst cf)
      then rx_buffer (snd cf) (gv_buffer G m (fst cf)) else gv_buffer G m (fst cf))"

text \<open>One turn of the loop for a frame that waits, whether or not it fits.\<close>

lemma rx_fill_step:
  assumes laws: "buffer_laws V G dt S" "c \<in> S" and m: "gv_intact G m"
  shows "\<exists>m'. rx_fill V dt (c # cs) m q (ToVm f # rx) used
      = rx_fill V dt cs m' (vq_set_next_avail V (vq_next_avail V q + 1) q) rx (used @ [rx_entry V G (c, f)])
    \<and> gv_intact G m' \<and> gv_buffer G m' c = rx_content G m (c, f) \<and> (\<forall>d \<in> S - {c}. gv_buffer G m' d = gv_buffer G m d)"
proof (cases "length f + 12 \<le> gv_capacity G c")
  case True
  then obtain m' where w: "rx_write V c f m = (m', Inr ())" "gv_intact G m'"
      "gv_buffer G m' c = rx_buffer f (gv_buffer G m c)" "\<forall>d \<in> S - {c}. gv_buffer G m' d = gv_buffer G m d"
    using rx_write_posted [OF laws m] by blast
  then show ?thesis using True buffer_lawsD(1,2) [OF laws m]
    by (intro exI [of _ m']) (simp add: Let_def rx_entry_def rx_content_def VNET_HDR_LEN_def)
next
  case False
  then show ?thesis using buffer_lawsD(1,2) [OF laws m] m
    by (intro exI [of _ m]) (simp add: Let_def rx_entry_def rx_content_def VNET_HDR_LEN_def)
qed

lemma rx_fill_posted:
  assumes laws: "queue_laws V G" "buffer_laws V G dt S" and "gv_intact G m" "distinct cs" "set cs \<subseteq> S"
  shows "\<exists>m' q'. rx_fill V dt cs m q (map ToVm frames) used
      = (m', q', map ToVm (drop (length cs) frames), Inr (used @ map (rx_entry V G) (zip cs frames)))
    \<and> gv_intact G m' \<and> gv_used G q' = gv_used G q \<and> vq_next_used V q' = vq_next_used V q
    \<and> vq_next_avail V q' = vq_next_avail V q + of_nat (min (length cs) (length frames))
    \<and> (\<forall>cf \<in> set (zip cs frames). gv_buffer G m' (fst cf) = rx_content G m cf)
    \<and> (\<forall>d \<in> S - set (take (length frames) cs). gv_buffer G m' d = gv_buffer G m d)"
  using assms(3-5)
proof (induction cs arbitrary: m q frames used)
  case Nil
  then show ?case by simp
next
  case (Cons c cs)
  note Q = queue_lawsD [OF laws(1)]
  show ?case
  proof (cases frames)
    case Nil
    then show ?thesis using buffer_lawsD(1,2) [OF laws(2) _ Cons.prems(1), of c] Cons.prems Q
      by (simp add: Let_def)
  next
    case f: (Cons f fs)
    let ?q = "vq_set_next_avail V (vq_next_avail V q + 1) q"
    have cS: "c \<in> S" "c \<notin> set cs" "set cs \<subseteq> S" "distinct cs" using Cons.prems by auto
    obtain m1 where s: "rx_fill V dt (c # cs) m q (ToVm f # map ToVm fs) used
          = rx_fill V dt cs m1 ?q (map ToVm fs) (used @ [rx_entry V G (c, f)])"
        "gv_intact G m1" "gv_buffer G m1 c = rx_content G m (c, f)" "\<forall>d \<in> S - {c}. gv_buffer G m1 d = gv_buffer G m d"
      using rx_fill_step [OF laws(2) cS(1) Cons.prems(1)] by blast
    obtain m2 q2 where i: "rx_fill V dt cs m1 ?q (map ToVm fs) (used @ [rx_entry V G (c, f)])
          = (m2, q2, map ToVm (drop (length cs) fs), Inr ((used @ [rx_entry V G (c, f)]) @ map (rx_entry V G) (zip cs fs)))"
        "gv_intact G m2" "gv_used G q2 = gv_used G ?q" "vq_next_used V q2 = vq_next_used V ?q"
        "vq_next_avail V q2 = vq_next_avail V ?q + of_nat (min (length cs) (length fs))"
        "\<forall>cf \<in> set (zip cs fs). gv_buffer G m2 (fst cf) = rx_content G m1 cf"
        "\<forall>d \<in> S - set (take (length fs) cs). gv_buffer G m2 d = gv_buffer G m1 d"
      using Cons.IH [OF s(2) cS(4,3), of ?q fs] by blast
    have same: "gv_buffer G m1 d = gv_buffer G m d" if "d \<in> set cs" for d using s(4) cS that by auto
    have "c \<in> S - set (take (length fs) cs)" using cS by (meson Diff_iff in_set_takeD)
    then have c2: "gv_buffer G m2 c = rx_content G m (c, f)" using i(7) s(3) by simp
    have tail: "gv_buffer G m2 (fst cf) = rx_content G m cf" if "cf \<in> set (zip cs fs)" for cf
      using i(6) that same [of "fst cf"] set_zip_leftD [of "fst cf" "snd cf" cs fs] by (simp add: rx_content_def)
    have rest: "gv_buffer G m2 d = gv_buffer G m d" if "d \<in> S - set (take (length frames) (c # cs))" for d
      using i(7) s(4) that f by simp
    show ?thesis using s(1) i(1-5) c2 tail rest f Q by (simp add: algebra_simps)
  qed
qed

lemma service_rx_posted:
  assumes laws: "queue_laws V G" "used_laws V G (set cs)" "buffer_laws V G (vq_desc_table V (vr_queue vr)) (set cs)"
    and m: "gv_intact G m" and cs: "vq_iter V m (rx_recover V m (vr_queue vr)) = Some cs" "distinct cs"
    and rx: "nb_rx b = map ToVm frames"
  shows "\<exists>m' vr' r.
    service_rx V b m vr = (b\<lparr>nb_rx := map ToVm (drop (length cs) frames)\<rparr>, m', vr', r)
    \<and> r = (if zip cs frames = [] then Inr () else vq_signal V (vr_queue vr'))
    \<and> (\<forall>cf \<in> set (zip cs frames). gv_buffer G m' (fst cf) = rx_content G m cf)
    \<and> (\<forall>c \<in> set (drop (length frames) cs). gv_buffer G m' c = gv_buffer G m c)
    \<and> gv_used G (vr_queue vr') = gv_used G (rx_recover V m (vr_queue vr)) @ map (rx_entry V G) (zip cs frames)
    \<and> vq_next_avail V (vr_queue vr')
        = vq_next_avail V (rx_recover V m (vr_queue vr)) + of_nat (min (length cs) (length frames))
    \<and> vq_next_used V (vr_queue vr')
        = vq_next_used V (rx_recover V m (vr_queue vr)) + of_nat (min (length cs) (length frames))
    \<and> vr_signals vr' = vr_signals vr + (if zip cs frames = [] then 0 else 1)"
proof -
  let ?q = "rx_recover V m (vr_queue vr)" and ?used = "map (rx_entry V G) (zip cs frames)"
  obtain m1 q1 where f: "rx_fill V (vq_desc_table V (vr_queue vr)) cs m ?q (map ToVm frames) []
        = (m1, q1, map ToVm (drop (length cs) frames), Inr ([] @ ?used))"
      "gv_intact G m1" "gv_used G q1 = gv_used G ?q" "vq_next_used V q1 = vq_next_used V ?q"
      "vq_next_avail V q1 = vq_next_avail V ?q + of_nat (min (length cs) (length frames))"
      "\<forall>cf \<in> set (zip cs frames). gv_buffer G m1 (fst cf) = rx_content G m cf"
      "\<forall>d \<in> set cs - set (take (length frames) cs). gv_buffer G m1 d = gv_buffer G m d"
    using rx_fill_posted [OF laws(1,3) m cs(2) subset_refl, of ?q frames "[]"] by blast
  have "fst ` set ?used \<subseteq> ch_head V ` set cs" by (force simp: rx_entry_def dest: set_zip_leftD)
  then obtain m2 vr2 r where c: "complete_used V ?used m1 (vr\<lparr>vr_queue := q1\<rparr>) = (m2, vr2, r)"
      "r = (if ?used = [] then Inr () else vq_signal V (vr_queue vr2))" "gv_buffer G m2 = gv_buffer G m1"
      "gv_used G (vr_queue vr2) = gv_used G q1 @ ?used"
      "vq_next_used V (vr_queue vr2) = vq_next_used V q1 + of_nat (length ?used)"
      "vq_next_avail V (vr_queue vr2) = vq_next_avail V q1"
      "vr_signals vr2 = vr_signals vr + (if ?used = [] then 0 else 1)"
    using complete_used_posted [OF laws(2) f(2), of ?used "vr\<lparr>vr_queue := q1\<rparr>"] by auto
  have "service_rx V b m vr = (b\<lparr>nb_rx := map ToVm (drop (length cs) frames)\<rparr>, m2, vr2, r)"
    using f(1) c(1) cs(1) rx by (simp add: service_rx_def Let_def)
  moreover have "gv_buffer G m2 d = gv_buffer G m d" if "d \<in> set (drop (length frames) cs)" for d
    using f(7) c(3) that set_take_disj_set_drop_if_distinct [OF cs(2) order_refl, of "length frames"] in_set_dropD
    by fastforce
  ultimately show ?thesis using c f(3-6) by simp
qed

text \<open>
  C19: reception. The frames waiting in the channel go, in order, into the posted chains, in
  order: a frame that fits is written behind an all-zero header (so the driver reads back the
  frame) and its chain completed with the length, one that does not fit is dropped and its chain
  completed empty. Chains without a frame keep their buffer and stay posted, frames without a
  chain stay in the channel, and the driver is signalled once if anything was completed.
\<close>

theorem service_rx_delivers:
  assumes "queue_laws V G" "used_laws V G (set cs)" "buffer_laws V G (vq_desc_table V (vr_queue vr)) (set cs)"
    and "gv_intact G m" "vq_iter V m (rx_recover V m (vr_queue vr)) = Some cs" "distinct cs"
    and "nb_rx b = map ToVm frames"
  shows "\<exists>m' vr' r.
    service_rx V b m vr = (b\<lparr>nb_rx := map ToVm (drop (length cs) frames)\<rparr>, m', vr', r)
    \<and> (\<forall>(c, f) \<in> set (zip cs frames). length f + 12 \<le> gv_capacity G c \<longrightarrow>
         take 12 (gv_buffer G m' c) = replicate 12 0
         \<and> decode_driver_rx (take (length f + 12) (gv_buffer G m' c)) = Some f)
    \<and> (\<forall>c \<in> set (drop (length frames) cs). gv_buffer G m' c = gv_buffer G m c)
    \<and> gv_used G (vr_queue vr') = gv_used G (rx_recover V m (vr_queue vr)) @
        map (\<lambda>(c, f). (ch_head V c, if length f + 12 \<le> gv_capacity G c then of_nat (length f + 12) else 0)) (zip cs frames)
    \<and> vq_next_avail V (vr_queue vr')
        = vq_next_avail V (rx_recover V m (vr_queue vr)) + of_nat (min (length cs) (length frames))
    \<and> vr_signals vr' = vr_signals vr + (if cs = [] \<or> frames = [] then 0 else 1)"
proof -
  obtain m' vr' r where s: "service_rx V b m vr = (b\<lparr>nb_rx := map ToVm (drop (length cs) frames)\<rparr>, m', vr', r)"
      "\<forall>cf \<in> set (zip cs frames). gv_buffer G m' (fst cf) = rx_content G m cf"
      "\<forall>c \<in> set (drop (length frames) cs). gv_buffer G m' c = gv_buffer G m c"
      "gv_used G (vr_queue vr') = gv_used G (rx_recover V m (vr_queue vr)) @ map (rx_entry V G) (zip cs frames)"
      "vq_next_avail V (vr_queue vr')
        = vq_next_avail V (rx_recover V m (vr_queue vr)) + of_nat (min (length cs) (length frames))"
      "vr_signals vr' = vr_signals vr + (if zip cs frames = [] then 0 else 1)"
    using service_rx_posted [OF assms] by blast
  have "\<forall>(c, f) \<in> set (zip cs frames). length f + 12 \<le> gv_capacity G c \<longrightarrow>
      take 12 (gv_buffer G m' c) = replicate 12 0 \<and> decode_driver_rx (take (length f + 12) (gv_buffer G m' c)) = Some f"
  proof (intro ballI, clarify)
    fix c f assume "(c, f) \<in> set (zip cs frames)" "length f + 12 \<le> gv_capacity G c"
    then have "gv_buffer G m' c = rx_buffer f (gv_buffer G m c)" using s(2) by (force simp: rx_content_def)
    then show "take 12 (gv_buffer G m' c) = replicate 12 0
        \<and> decode_driver_rx (take (length f + 12) (gv_buffer G m' c)) = Some f"
      by (simp add: decode_rx_buffer rx_buffer_header)
  qed
  moreover have "rx_entry V G = (\<lambda>(c, f). (ch_head V c, if length f + 12 \<le> gv_capacity G c then of_nat (length f + 12) else 0))"
    by (auto simp: rx_entry_def)
  moreover have "(zip cs frames = []) = (cs = [] \<or> frames = [])" by (cases cs; cases frames) auto
  ultimately show ?thesis using s by simp
qed

section \<open>Recovery after a reconnect\<close>

text \<open>The iterator yields the chains from the position of the queue to the published index.\<close>

definition iter_laws :: "('m, 'q, 'c) virtq_api \<Rightarrow> 'm \<Rightarrow> bool" where
  "iter_laws V m =
     (\<forall>q avail cs. vq_avail_idx V m q = Some avail \<and> vq_iter V m q = Some cs \<longrightarrow>
        length cs = unat (avail - vq_next_avail V q))"

lemma rx_recover_position:
  assumes "queue_laws V G" "vq_avail_idx V m q = Some avail"
  shows "vq_next_avail V (rx_recover V m q) =
      (if vq_next_avail V q = avail \<and> vq_next_used V q \<noteq> avail \<and> avail - vq_next_used V q \<le> vq_size V q
       then vq_next_used V q else vq_next_avail V q)"
    "vq_next_used V (rx_recover V m q) = vq_next_used V q"
  using assms queue_lawsD [OF assms(1)] by (auto simp: rx_recover_def Let_def)

text \<open>A queue that has answered all it took is left alone.\<close>

lemma rx_recover_quiet: "vq_next_used V q = vq_next_avail V q \<Longrightarrow> rx_recover V m q = q"
  by (auto simp: rx_recover_def Let_def split: option.split)

text \<open>
  C21: recovery. When a resumed session finds the ring drained (\<open>next_avail\<close> at the published
  index) but \<open>p\<close> chains unanswered, no more than the queue holds, one service of the ring takes
  exactly these \<open>p\<close> chains up again: with at least \<open>p\<close> frames waiting all of them are answered
  and the ring is caught up, and the next service starts from there.
\<close>

theorem service_rx_catches_up:
  assumes "queue_laws V G" "used_laws V G (set cs)" "buffer_laws V G (vq_desc_table V (vr_queue vr)) (set cs)"
    and "iter_laws V m" "gv_intact G m" "vq_iter V m (rx_recover V m (vr_queue vr)) = Some cs" "distinct cs"
    and "nb_rx b = map ToVm frames"
    and "vq_avail_idx V m (vr_queue vr) = Some avail" "vq_next_avail V (vr_queue vr) = avail"
    and "vq_avail_idx V m (rx_recover V m (vr_queue vr)) = Some avail"
    and "vq_next_used V (vr_queue vr) \<noteq> avail" "p = avail - vq_next_used V (vr_queue vr)"
    and "p \<le> vq_size V (vr_queue vr)" "unat p \<le> length frames"
  shows "length cs = unat p
    \<and> (\<exists>b' m' vr' r. service_rx V b m vr = (b', m', vr', r) \<and> nb_rx b' = map ToVm (drop (unat p) frames)
        \<and> vq_next_used V (vr_queue vr') = avail \<and> vq_next_avail V (vr_queue vr') = avail
        \<and> rx_recover V m' (vr_queue vr') = vr_queue vr')"
proof -
  let ?q = "rx_recover V m (vr_queue vr)"
  have pos: "vq_next_avail V ?q = vq_next_used V (vr_queue vr)" "vq_next_used V ?q = vq_next_used V (vr_queue vr)"
    using rx_recover_position [OF assms(1,9)] assms(10,12,13,14) by simp_all
  have len: "length cs = unat p" using assms(4,6,11,13) pos by (simp add: iter_laws_def)
  obtain m' vr' r where s: "service_rx V b m vr = (b\<lparr>nb_rx := map ToVm (drop (length cs) frames)\<rparr>, m', vr', r)"
      "vq_next_avail V (vr_queue vr') = vq_next_avail V ?q + of_nat (min (length cs) (length frames))"
      "vq_next_used V (vr_queue vr') = vq_next_used V ?q + of_nat (min (length cs) (length frames))"
    using service_rx_posted [OF assms(1,2,3,5,6,7,8)] by blast
  have "min (length cs) (length frames) = unat p" using len assms(15) by simp
  then have "vq_next_avail V (vr_queue vr') = avail" "vq_next_used V (vr_queue vr') = avail"
    using s(2,3) pos assms(13) by simp_all
  with s(1) len show ?thesis by (simp add: rx_recover_quiet)
qed

section \<open>The listening thread\<close>

text \<open>
  Failures to create or start a session never end the thread: it ends exactly when one of its
  checks sees the stop flag.
\<close>

definition round_sees_stop :: "session_round \<Rightarrow> bool" where
  "round_sees_stop r = (sr_stop_top r \<or> sr_stop_mid r \<or> sr_created r \<and> sr_started r \<and> sr_stop_end r)"

lemma session_ends_iff_stop: "snd (session_loop rounds) = (\<exists>r \<in> set rounds. round_sees_stop r)"
proof (induction rounds)
  case Nil
  then show ?case by simp
next
  case (Cons r rounds)
  then show ?case
    by (auto simp: session_turn_def round_sees_stop_def split: prod.split bool.split)
qed

section \<open>A small ring\<close>

text \<open>Two buffers of 64 bytes, posted in turn; the flags of every head are \<open>fl\<close>.\<close>

record ring_queue =
  rq_avail :: u16
  rq_next_avail :: u16
  rq_next_used :: u16
  rq_used :: "(u16 \<times> u32) list"

definition ring_api :: "u16 \<Rightarrow> (bytes list, ring_queue, nat) virtq_api" where
  "ring_api fl =
     \<lparr>vq_desc_table = (\<lambda>_. 4096), vq_size = (\<lambda>_. 2), vq_next_avail = rq_next_avail, vq_next_used = rq_next_used,
      vq_set_next_avail = (\<lambda>n q. q\<lparr>rq_next_avail := n\<rparr>), vq_avail_idx = (\<lambda>m q. Some (rq_avail q)),
      vq_iter = (\<lambda>m q. Some (map (\<lambda>i. unat (rq_next_avail q + of_nat i)) [0 ..< unat (rq_avail q - rq_next_avail q)])),
      vq_add_used = (\<lambda>h l (m, q). ((m, q\<lparr>rq_next_used := rq_next_used q + 1, rq_used := rq_used q @ [(h, l)]\<rparr>), Inr ())),
      vq_signal = (\<lambda>_. Inr ()), ch_head = of_nat,
      ch_read = (\<lambda>m c. if c < length m then Inr (m ! c) else Inl ''no buffer''),
      ch_capacity = (\<lambda>m c. if c < length m then Inr (length (m ! c)) else Inl ''no buffer''),
      ch_write = (\<lambda>c off bs m. if c < length m \<and> off + length bs \<le> length (m ! c)
                    then (m[c := splice off bs (m ! c)], Inr ()) else (m, Inl ''no room'')),
      gm_u16 = (\<lambda>_ _. Some fl), gm_u32 = (\<lambda>_ _. None), gm_u64 = (\<lambda>_ _. None)\<rparr>"

definition ring_view :: "(bytes list, ring_queue, nat) guest_view" where
  "ring_view =
     \<lparr>gv_intact = (\<lambda>m. length m = 2 \<and> list_all (\<lambda>x. length x = 64) m), gv_buffer = (\<lambda>m c. m ! c),
      gv_capacity = (\<lambda>_. 64), gv_used = rq_used\<rparr>"

lemma ring_queue_laws: "queue_laws (ring_api fl) ring_view"
  by (simp add: queue_laws_def ring_api_def ring_view_def)

lemma ring_used_laws: "used_laws (ring_api fl) ring_view S"
  by (simp add: used_laws_def ring_api_def ring_view_def)

lemma ring_buffer_laws: "S \<subseteq> {0, 1} \<Longrightarrow> dt \<noteq> 0 \<Longrightarrow> buffer_laws (ring_api 2) ring_view dt S"
  unfolding buffer_laws_def
proof (intro ballI allI impI)
  fix m c assume S: "S \<subseteq> {0, 1}" "dt \<noteq> 0" "c \<in> S" and m: "gv_intact ring_view m"
  have c: "c < 2" "length m = 2" "length (m ! c) = 64"
    using S m by (auto simp: ring_view_def list_all_length)
  have "\<exists>m'. ch_write (ring_api 2) c off bs m = (m', Inr ()) \<and> gv_intact ring_view m'
      \<and> gv_buffer ring_view m' c = splice off bs (gv_buffer ring_view m c)
      \<and> (\<forall>d \<in> S - {c}. gv_buffer ring_view m' d = gv_buffer ring_view m d)"
    if "off + length bs \<le> 64" for off bs
    using that c m by (auto simp: ring_api_def ring_view_def list_all_length nth_list_update)
  then show "head_flags (ring_api 2) m dt (ch_head (ring_api 2) c) AND VIRTQ_DESC_F_WRITE \<noteq> 0
      \<and> ch_capacity (ring_api 2) m c = Inr (gv_capacity ring_view c)
      \<and> length (gv_buffer ring_view m c) = gv_capacity ring_view c
      \<and> (\<forall>off bs. off + length bs \<le> gv_capacity ring_view c \<longrightarrow>
           (\<exists>m'. ch_write (ring_api 2) c off bs m = (m', Inr ()) \<and> gv_intact ring_view m'
             \<and> gv_buffer ring_view m' c = splice off bs (gv_buffer ring_view m c)
             \<and> (\<forall>d \<in> S - {c}. gv_buffer ring_view m' d = gv_buffer ring_view m d)))"
    using c S(2) by (simp add: head_flags_def ring_api_def ring_view_def VIRTQ_DESC_F_WRITE_def)
qed

definition ring_memory :: "bytes list" where
  "ring_memory = [replicate 64 9, replicate 64 9]"

lemma ring_memory_intact: "gv_intact ring_view ring_memory"
  by (simp add: ring_view_def ring_memory_def)

text \<open>Two chains posted, none taken; and both taken but not answered.\<close>

definition ring_fresh :: "ring_queue vring" where
  "ring_fresh = \<lparr>vr_queue = \<lparr>rq_avail = 2, rq_next_avail = 0, rq_next_used = 0, rq_used = []\<rparr>, vr_signals = 0\<rparr>"

definition ring_resumed :: "ring_queue vring" where
  "ring_resumed = \<lparr>vr_queue = \<lparr>rq_avail = 2, rq_next_avail = 2, rq_next_used = 0, rq_used = []\<rparr>, vr_signals = 0\<rparr>"

lemma ring_fresh_facts:
  "rx_recover (ring_api fl) m (vr_queue ring_fresh) = vr_queue ring_fresh"
  "vq_iter (ring_api fl) m (vr_queue ring_fresh) = Some [0, 1]" "vq_desc_table (ring_api fl) q = 4096"
  by (simp_all add: rx_recover_quiet ring_fresh_def ring_api_def upt_rec)

lemma ring_resumed_facts:
  "rx_recover (ring_api fl) m (vr_queue ring_resumed) = vr_queue ring_fresh"
  by (simp add: rx_recover_def ring_resumed_def ring_fresh_def ring_api_def)

lemmas ring_eval = ring_view_def ring_api_def ring_fresh_def ring_resumed_def ring_memory_def

lemma ring_ready:
  "buffer_laws (ring_api 2) ring_view (vq_desc_table (ring_api 2) q) (set [0, 1])" "distinct [0, 1 :: nat]"
  by (auto intro: ring_buffer_laws simp: ring_fresh_facts)

theorem service_rx_delivers_witness:
  "\<exists>b' m' vr' r.
    service_rx (ring_api 2) (net_backend_new [] [ToVm [1, 2, 3]] net_device_config_default 0) ring_memory ring_fresh
      = (b', m', vr', r)
    \<and> decode_driver_rx (take 15 (m' ! 0)) = Some [1, 2, 3] \<and> m' ! 1 = replicate 64 9
    \<and> rq_used (vr_queue vr') = [(0, 15)] \<and> rq_next_avail (vr_queue vr') = 1 \<and> vr_signals vr' = 1"
proof -
  let ?b = "(net_backend_new [] [ToVm [1, 2, 3]] net_device_config_default 0) :: bytes list net_backend"
  have rx: "nb_rx ?b = map ToVm [[1, 2, 3]]" by (simp add: net_backend_new_def)
  have it: "vq_iter (ring_api 2) ring_memory (rx_recover (ring_api 2) ring_memory (vr_queue ring_fresh)) = Some [0, 1]"
    by (simp add: ring_fresh_facts)
  from service_rx_delivers [OF ring_queue_laws ring_used_laws ring_ready(1) ring_memory_intact it ring_ready(2) rx]
  show ?thesis
    by (elim exE conjE) (simp add: ring_fresh_facts, simp add: ring_eval)
qed

theorem service_rx_catches_up_witness:
  "\<exists>b' m' vr' r.
    service_rx (ring_api 2) (net_backend_new [] [ToVm [1], ToVm [2], ToVm [3]] net_device_config_default 0)
        ring_memory ring_resumed = (b', m', vr', r)
    \<and> nb_rx b' = [ToVm [3]] \<and> rq_next_used (vr_queue vr') = 2 \<and> rq_next_avail (vr_queue vr') = 2"
proof -
  let ?b = "(net_backend_new [] [ToVm [1], ToVm [2], ToVm [3]] net_device_config_default 0) :: bytes list net_backend"
  have rx: "nb_rx ?b = map ToVm [[1], [2], [3]]" by (simp add: net_backend_new_def)
  have it: "vq_iter (ring_api 2) ring_memory (rx_recover (ring_api 2) ring_memory (vr_queue ring_resumed)) = Some [0, 1]"
    by (simp add: ring_fresh_facts ring_resumed_facts)
  have il: "iter_laws (ring_api 2) ring_memory"
    by (simp add: iter_laws_def ring_api_def)
  from service_rx_catches_up [OF ring_queue_laws ring_used_laws ring_ready(1) il ring_memory_intact it ring_ready(2) rx,
      where avail = 2 and p = 2]
  show ?thesis by (simp add: ring_resumed_facts) (simp add: ring_eval, blast)
qed

theorem service_tx_publishes_witness:
  "\<exists>b' m' vr' r.
    service_tx (ring_api 0) (net_backend_new [] [] net_device_config_default 0)
        [encode_driver_tx [7, 8], [1, 2]] ring_fresh = (b', m', vr', r)
    \<and> nb_tx b' = [FromVm [7, 8]] \<and> rq_used (vr_queue vr') = [(0, 14), (1, 0)] \<and> vr_signals vr' = 1"
proof -
  let ?b = "(net_backend_new [] [] net_device_config_default 0) :: bytes list net_backend"
  let ?G = "ring_view\<lparr>gv_intact := \<lambda>_. True\<rparr>" and ?m = "[encode_driver_tx [7, 8], [1, 2]]"
  have laws: "queue_laws (ring_api 0) ?G" "used_laws (ring_api 0) ?G (set [0, 1])"
    by (simp_all add: queue_laws_def used_laws_def ring_api_def ring_view_def)
  have raw: "\<forall>c \<in> set [0, 1]. head_flags (ring_api 0) ?m 4096 (ch_head (ring_api 0) c) AND VIRTQ_DESC_F_WRITE = 0 \<longrightarrow>
      ch_read (ring_api 0) ?m c = Inr (?m ! c)"
    by (simp add: ring_api_def)
  from service_tx_publishes [OF laws _ ring_fresh_facts(2) ring_fresh_facts(3) [symmetric] raw, of ?b]
  obtain m' vr' r where
    "service_tx (ring_api 0) ?b ?m ring_fresh
       = (?b\<lparr>nb_tx := map (\<lambda>c. FromVm (drop 12 (?m ! c))) (filter (tx_carries (ring_api 0) ?m 4096 ((!) ?m)) [0, 1])\<rparr>, m', vr', r)"
    "gv_used ?G (vr_queue vr') = gv_used ?G (vr_queue ring_fresh) @ map (tx_entry (ring_api 0) ?m 4096 ((!) ?m)) [0, 1]"
    "vr_signals vr' = vr_signals ring_fresh + 1"
    by (auto simp: net_backend_new_def ring_view_def)
  then show ?thesis
    by (auto simp: tx_carries_def tx_entry_def head_flags_def ring_eval encode_driver_tx_def vnet_header_def VNET_HDR_LEN_def)
qed

end
