(* ===== verification/Dataplane.thy ===== *)
theory Dataplane
  imports Rpc_Server Dhcp_Server Dns_Forwarder Passt_Wan Switch_Engine Dp_Frames Vhost_Port
begin

text \<open>
  The orchestration of \<open>crates/k8netd/src/dataplane.rs\<close>: the state behind the dataplane's mutex,
  the twelve control-plane operations, and the lifecycle of the per-port WAN process.

  What the code shares through \<open>Arc\<close> is explicit. The state under the mutex is the record
  \<open>inner\<close>; the record \<open>dataplane\<close> extends it with the socket directory, the poison flag of the
  mutex, and the world outside: the file system, the open descriptors, what was written to the
  WAN processes, which of them were told to stop, and the vhost ports as a store of objects that
  live ports and reader threads refer to by index; the pump and reader threads that run are
  listed with what they captured when they were spawned. What the operating system answers is the
  record \<open>dp_os\<close>, a function of the number of calls made so far, so that a theorem over all
  \<open>dp_os\<close> speaks about every behaviour of the system. Arithmetic is that of the release profile.
\<close>

section \<open>State\<close>

text \<open>A live port; its vhost port (and the channel into it) is an index into the object store.\<close>

record live_port =
  lp_id :: u32
  lp_network :: "string option"
  lp_mac :: "mac_addr option"
  lp_vhost :: nat

record passt_slot =
  ps_desired :: passt_config
  ps_live :: "passt_proc option"
  ps_failures :: u32
  ps_next_retry :: "nat option"
  ps_mac :: "bytes option"

record 'v network_entry =
  ne_ipam :: ipam
  ne_created_with :: 'v

record 'v inner =
  in_networks :: "(string, 'v network_entry) btree_map"
  in_ports :: "(string, live_port) btree_map"
  in_names :: "(u32, string) btree_map"
  in_next_port_id :: u32
  in_switch :: switch
  in_gateway :: gateway
  in_passts :: "(string, passt_slot) btree_map"
  in_dns :: dns_forwarder
  in_publish_range :: "u16 \<times> u16"
  in_publish_table :: publish_table

text \<open>
  A vhost port as the dataplane sees it: the pinned MAC of the device configuration, the frames
  sent into its channel, the counter of the RX notifier, and whether the receiving end exists.
\<close>

record vhost_obj =
  vo_path :: string
  vo_mac :: bytes
  vo_inbox :: "bytes list"
  vo_kicks :: nat
  vo_open :: bool

record world =
  w_tick :: nat
  w_fs :: file_system
  w_fds :: "int set"
  w_spawned :: "string list list"
  w_wan :: "(int \<times> bytes) list"
  w_stopped :: "u32 list"
  w_vhosts :: "vhost_obj list"
  w_pumps :: "(string \<times> u32) list"
  w_readers :: "(string \<times> nat) list"

record 'v dataplane = "'v inner" +
  dp_socket_dir :: string
  dp_poisoned :: bool
  dp_world :: world

record dp_os =
  os_save :: "nat \<Rightarrow> state_io"
  os_bind :: "nat \<Rightarrow> bool"
  os_unlinked :: "nat \<Rightarrow> bool"
  os_spawn :: "nat \<Rightarrow> spawn_env"
  os_now :: "nat \<Rightarrow> nat"
  os_poll :: "nat \<Rightarrow> (string, bool) result"
  os_write :: "nat \<Rightarrow> write_result"

definition world_tick :: "world \<Rightarrow> world" where
  "world_tick w = w\<lparr>w_tick := Suc (w_tick w)\<rparr>"

text \<open>The call number that the next system call has.\<close>

definition dp_tick :: "'v dataplane \<Rightarrow> nat" where
  "dp_tick s = w_tick (dp_world s)"

definition dp_from_parts :: "string \<Rightarrow> publish_table \<Rightarrow> world \<Rightarrow> 'v dataplane" where
  "dp_from_parts dir tbl w =
     \<lparr>in_networks = [], in_ports = [], in_names = [], in_next_port_id = 1, in_switch = switch_new,
      in_gateway = gateway_new, in_passts = [], in_dns = dns_forwarder_new [],
      in_publish_range = DEFAULT_PUBLISH_RANGE, in_publish_table = tbl,
      dp_socket_dir = dir, dp_poisoned = False, dp_world = w\<rparr>"

text \<open>\<open>Dataplane::new\<close>: an unreadable state file starts empty.\<close>

definition dp_new :: "'v json_api \<Rightarrow> 'v snap_codec \<Rightarrow> dp_os \<Rightarrow> string \<Rightarrow> world \<Rightarrow> 'v dataplane" where
  "dp_new J C E dir w =
     (case load_from_disk J C (os_save E (w_tick w)) dir (w_fs w) of
        (fs, r) \<Rightarrow>
          dp_from_parts dir (case r of Inr store \<Rightarrow> st_publish_table store | Inl _ \<Rightarrow> pt_default)
            (world_tick w\<lparr>w_fs := fs\<rparr>))"

text \<open>\<open>Dataplane::try_new\<close>: fails closed.\<close>

definition dp_try_new ::
  "'v json_api \<Rightarrow> 'v snap_codec \<Rightarrow> dp_os \<Rightarrow> string \<Rightarrow> world \<Rightarrow> world \<times> (string, 'v dataplane) result" where
  "dp_try_new J C E dir w =
     (case load_from_disk J C (os_save E (w_tick w)) dir (w_fs w) of
        (fs, r) \<Rightarrow>
          let w' = world_tick w\<lparr>w_fs := fs\<rparr> in
          (w', case r of
                 Inl e \<Rightarrow> Inl (''load persisted k8netd state: '' @ show_state_error e)
               | Inr store \<Rightarrow> Inr (dp_from_parts dir (st_publish_table store) w')))"

text \<open>\<open>set_dns_upstreams\<close> panics on a poisoned mutex.\<close>

definition dp_set_dns_upstreams :: "'v dataplane \<Rightarrow> upstream_sender list \<Rightarrow> 'v dataplane outcome" where
  "dp_set_dns_upstreams s ups =
     (if dp_poisoned s then Panicked else Done (s\<lparr>in_dns := dns_forwarder_new ups\<rparr>))"

definition dp_lock :: "'v dataplane \<Rightarrow> (rpc_error, unit) result" where
  "dp_lock s = (if dp_poisoned s then Inl Internal else Inr ())"

definition dp_ipam_err :: "ipam_error \<Rightarrow> rpc_error" where
  "dp_ipam_err e = (case e of PoolExhausted \<Rightarrow> Conflict | UnknownMac \<Rightarrow> NotFound)"

text \<open>The parameter helpers of this file, the same functions as those of the server.\<close>

definition str_p :: "'v json_api \<Rightarrow> 'v \<Rightarrow> string \<Rightarrow> (rpc_error, string) result" where
  "str_p J params key =
     ok_or InvalidParams (Option.bind (jn_get J params key) (jn_as_str J))"

definition u16_p :: "'v json_api \<Rightarrow> 'v \<Rightarrow> string \<Rightarrow> (rpc_error, u16) result" where
  "u16_p J params key =
     ok_or InvalidParams
       (Option.bind (Option.bind (jn_get J params key) (jn_as_u64 J))
          (\<lambda>v. if v \<le> 65535 then Some (ucast v) else None))"

definition mac_p :: "'v json_api \<Rightarrow> 'v \<Rightarrow> string \<Rightarrow> (rpc_error, mac_addr) result" where
  "mac_p J params key =
     (case str_p J params key of
        Inl e \<Rightarrow> Inl e
      | Inr t \<Rightarrow> (case parse_mac t of Inl _ \<Rightarrow> Inl InvalidParams | Inr m \<Rightarrow> Inr m))"

section \<open>Persistence\<close>

definition dp_network_state :: "'v network_entry \<Rightarrow> 'v network_state" where
  "dp_network_state e =
     (let n = ipam_network (ne_ipam e) in
      \<lparr>nst_cidr = show_cidr (net_cidr n), nst_gateway = show_ip (net_gateway n), nst_dns = [],
       nst_mtu = 1500, nst_params = ne_created_with e,
       nst_pool_start = Some (show_ip (pool_start (net_pool n))),
       nst_pool_end = Some (show_ip (pool_end (net_pool n)))\<rparr>)"

text \<open>The reservation of an attached port in its network, if the network still exists.\<close>

definition dp_port_ip :: "'v dataplane \<Rightarrow> live_port \<Rightarrow> ipv4 option" where
  "dp_port_ip s lp =
     Option.bind (lp_mac lp) (\<lambda>mac.
     Option.bind (lp_network lp) (\<lambda>net.
     Option.bind (map_of (in_networks s) net) (\<lambda>e. ipam_lookup (ne_ipam e) mac)))"

definition dp_port_state :: "'v dataplane \<Rightarrow> live_port \<Rightarrow> port_state" where
  "dp_port_state s lp =
     \<lparr>pst_vm_ip = map_option show_ip (dp_port_ip s lp), pst_mac = map_option show_mac (lp_mac lp),
      pst_ipam = \<lparr>ips_free_ranges = [], ips_allocations = []\<rparr>\<rparr>"

text \<open>
  The store that \<open>persist\<close> builds: one loop over the networks, which also merges their
  reservations into one map, and one over the ports.
\<close>

definition dp_store :: "'v dataplane \<Rightarrow> 'v state_store" where
  "dp_store s =
     (let store = store_default\<lparr>st_publish_table := in_publish_table s\<rparr>;
          store = fold (\<lambda>(nm, e) st.
                     (insert_network st nm (dp_network_state e))
                       \<lparr>st_ipam_records := bm_extend (st_ipam_records st) (ipam_snapshot (ne_ipam e))\<rparr>)
                   (in_networks s) store
      in fold (\<lambda>(nm, lp) st. insert_port st nm (dp_port_state s lp)) (in_ports s) store)"

definition dp_persist ::
  "'v snap_codec \<Rightarrow> dp_os \<Rightarrow> 'v dataplane \<Rightarrow> 'v dataplane \<times> (rpc_error, unit) result" where
  "dp_persist C E s =
     (case save_to_disk C (os_save E (dp_tick s)) (dp_store s) (dp_socket_dir s) (w_fs (dp_world s)) of
        (fs, r) \<Rightarrow>
          (s\<lparr>dp_world := world_tick (dp_world s)\<lparr>w_fs := fs\<rparr>\<rparr>,
           case r of Inl _ \<Rightarrow> Inl Internal | Inr _ \<Rightarrow> Inr ()))"

section \<open>The WAN process of a port\<close>

text \<open>
  Shutting the socket down, terminating the child (whose outcome is only logged) and dropping
  the handle, which closes the near end.
\<close>

definition stop_passt :: "passt_proc \<Rightarrow> world \<Rightarrow> world" where
  "stop_passt p w =
     world_tick w\<lparr>w_fds := w_fds w - {pp_stream_fd p}, w_stopped := w_stopped w @ [pp_pid p]\<rparr>"

definition u32_saturating_inc :: "u32 \<Rightarrow> u32" where
  "u32_saturating_inc n = (if n = - 1 then n else n + 1)"

definition count_failure :: "nat \<Rightarrow> passt_slot \<Rightarrow> passt_slot" where
  "count_failure now slot =
     (let f = u32_saturating_inc (ps_failures slot) in
      slot\<lparr>ps_failures := f, ps_next_retry := Some (now + restart_backoff f)\<rparr>)"

text \<open>Spawning the desired configuration into a slot, with the bookkeeping of both outcomes.\<close>

definition spawn_into :: "dp_os \<Rightarrow> world \<Rightarrow> passt_slot \<Rightarrow> world \<times> passt_slot \<times> bool" where
  "spawn_into E w slot =
     (case passt_spawn (os_spawn E (w_tick w)) (ps_desired slot) (w_fds w) of
        (fds, Inr (p, argv)) \<Rightarrow>
          (world_tick w\<lparr>w_fds := fds, w_spawned := w_spawned w @ [argv]\<rparr>,
           slot\<lparr>ps_failures := 0, ps_next_retry := None, ps_live := Some p\<rparr>, True)
      | (fds, Inl e) \<Rightarrow>
          (world_tick w\<lparr>w_fds := fds\<rparr>, count_failure (os_now E (w_tick w)) slot, False))"

definition new_slot :: "passt_config \<Rightarrow> passt_slot" where
  "new_slot config =
     \<lparr>ps_desired = config, ps_live = None, ps_failures = 0, ps_next_retry = None, ps_mac = None\<rparr>"

definition ensure_passt ::
  "dp_os \<Rightarrow> 'v dataplane \<Rightarrow> string \<Rightarrow> string \<Rightarrow> (u16, u16) btree_map \<Rightarrow> 'v dataplane \<times> (rpc_error, unit) result" where
  "ensure_passt E s prt vm_ip published =
     try_in s (ok_or NotFound (Option.bind (map_of (in_ports s) prt) lp_network)) (\<lambda>net_nm.
     try_in s (ok_or NotFound (map_of (in_networks s) net_nm)) (\<lambda>net.
       let n = ipam_network (ne_ipam net);
           config = passt_config_for vm_ip (show_ip (cidr_netmask (net_cidr n))) (show_ip (net_gateway n)) published;
           slot = (case map_of (in_passts s) prt of Some sl \<Rightarrow> sl | None \<Rightarrow> new_slot config)
       in if ps_live slot \<noteq> None \<and> ps_desired slot = config then (s, Inr ())
          else let w = (case ps_live slot of Some old \<Rightarrow> stop_passt old (dp_world s) | None \<Rightarrow> dp_world s)
               in case spawn_into E w (slot\<lparr>ps_live := None, ps_desired := config\<rparr>) of
                    (w', slot', spawned) \<Rightarrow>
                      (s\<lparr>in_passts := bm_insert prt slot' (in_passts s), dp_world := w'\<rparr>,
                       if spawned then Inr () else Inl Internal)))"

definition teardown_passt :: "'v dataplane \<Rightarrow> string \<Rightarrow> 'v dataplane" where
  "teardown_passt s prt =
     (case map_of (in_passts s) prt of
        None \<Rightarrow> s
      | Some slot \<Rightarrow>
          let s' = s\<lparr>in_passts := bm_remove prt (in_passts s)\<rparr> in
          (case ps_live slot of
             None \<Rightarrow> s'
           | Some p \<Rightarrow> s'\<lparr>dp_world := stop_passt p (dp_world s)\<rparr>))"

text \<open>Exit detection of one supervision tick; the dropped handle closes its descriptor.\<close>

definition detect_exit :: "dp_os \<Rightarrow> world \<Rightarrow> passt_slot \<Rightarrow> world \<times> passt_slot" where
  "detect_exit E w slot =
     (case ps_live slot of
        None \<Rightarrow> (w, slot)
      | Some p \<Rightarrow>
          if passt_exited (os_poll E (w_tick w))
          then (world_tick w\<lparr>w_fds := w_fds w - {pp_stream_fd p}\<rparr>,
                count_failure (os_now E (w_tick w)) (slot\<lparr>ps_live := None\<rparr>))
          else (world_tick w, slot))"

definition supervise_passt :: "dp_os \<Rightarrow> 'v dataplane \<Rightarrow> string \<Rightarrow> 'v dataplane" where
  "supervise_passt E s prt =
     (case map_of (in_passts s) prt of
        None \<Rightarrow> s
      | Some slot \<Rightarrow>
     (case detect_exit E (dp_world s) slot of
        (w1, slot1) \<Rightarrow>
          let due = (case ps_next_retry slot1 of None \<Rightarrow> True | Some t \<Rightarrow> t \<le> os_now E (w_tick w1));
              (w2, slot2) =
                (if ps_live slot1 = None \<and> due
                 then (case spawn_into E w1 slot1 of (w, sl, _) \<Rightarrow> (w, sl))
                 else (w1, slot1))
          in s\<lparr>in_passts := bm_insert prt slot2 (in_passts s), dp_world := w2\<rparr>))"

section \<open>The control plane\<close>

text \<open>
  Every operation reads its parameters, takes the lock (a poisoned one is an internal error) and
  then works on the state; \<open>try_in\<close> and \<open>and_then\<close> leave early with what was changed so far.
\<close>

definition dp_create_network :: "'v json_api \<Rightarrow> 'v snap_codec \<Rightarrow> dp_os \<Rightarrow> ('v dataplane, 'v) cp_op" where
  "dp_create_network J C E s params =
     try_in s (str_p J params ''name'') (\<lambda>nm.
     try_in s (str_p J params ''cidr'') (\<lambda>cidr.
     try_in s (str_p J params ''gateway'') (\<lambda>gateway.
     try_in s (str_p J params ''poolStart'') (\<lambda>ps.
     try_in s (str_p J params ''poolEnd'') (\<lambda>pe.
     try_in s (dp_lock s) (\<lambda>_.
       case map_of (in_networks s) nm of
         Some e \<Rightarrow> if ne_created_with e = params then (s, Inr (jn_null J)) else (s, Inl Conflict)
       | None \<Rightarrow>
           try_in s (build_network nm cidr gateway ps pe) (\<lambda>net.
             and_then (dp_persist C E
                (s\<lparr>in_gateway := gateway_add_network (in_gateway s) net,
                   in_networks := bm_insert nm \<lparr>ne_ipam = ipam_new net, ne_created_with = params\<rparr> (in_networks s)\<rparr>))
               (\<lambda>s' _. (s', Inr (jn_null J)))))))))) "

definition dp_delete_network :: "'v json_api \<Rightarrow> 'v snap_codec \<Rightarrow> dp_os \<Rightarrow> ('v dataplane, 'v) cp_op" where
  "dp_delete_network J C E s params =
     try_in s (str_p J params ''name'') (\<lambda>nm.
     try_in s (dp_lock s) (\<lambda>_.
       let s1 = s\<lparr>in_gateway := fst (gateway_remove_network (in_gateway s) nm)\<rparr> in
       case map_of (in_networks s1) nm of
         None \<Rightarrow> (s1, Inl NotFound)
       | Some _ \<Rightarrow>
           and_then (dp_persist C E (s1\<lparr>in_networks := bm_remove nm (in_networks s1)\<rparr>))
             (\<lambda>s' _. (s', Inr (jn_null J)))))"

definition dp_get_network :: "'v json_api \<Rightarrow> ('v dataplane, 'v) cp_op" where
  "dp_get_network J s params =
     try_in s (str_p J params ''name'') (\<lambda>nm.
     try_in s (dp_lock s) (\<lambda>_.
     try_in s (ok_or NotFound (map_of (in_networks s) nm)) (\<lambda>e.
       (s, Inr (jn_object J [(''name'', jn_string J nm),
                  (''cidr'', jn_string J (show_cidr (net_cidr (ipam_network (ne_ipam e))))),
                  (''gateway'', jn_string J (show_ip (net_gateway (ipam_network (ne_ipam e)))))])))))"

text \<open>The socket of a port in the socket directory.\<close>

definition dp_sock :: "'v dataplane \<Rightarrow> string \<Rightarrow> string" where
  "dp_sock s nm = path_join (dp_socket_dir s) (nm @ ''.sock'')"

text \<open>
  A bound vhost port: the socket file exists (a stale one is replaced), the device has no MAC yet.
\<close>

definition world_bind :: "string \<Rightarrow> world \<Rightarrow> world" where
  "world_bind sock w =
     w\<lparr>w_fs := (w_fs w)(sock \<mapsto> []),
       w_vhosts := w_vhosts w @ [\<lparr>vo_path = sock, vo_mac = replicate 6 0, vo_inbox = [], vo_kicks = 0, vo_open = True\<rparr>]\<rparr>"

text \<open>A bind that fails may have removed the old socket file at the path before.\<close>

definition world_unbound :: "bool \<Rightarrow> string \<Rightarrow> world \<Rightarrow> world" where
  "world_unbound unlinked sock w = (if unlinked then w\<lparr>w_fs := (w_fs w)(sock := None)\<rparr> else w)"

definition dp_create_port :: "'v json_api \<Rightarrow> 'v snap_codec \<Rightarrow> dp_os \<Rightarrow> ('v dataplane, 'v) cp_op" where
  "dp_create_port J C E s params =
     try_in s (str_p J params ''name'') (\<lambda>nm.
     try_in s (dp_lock s) (\<lambda>_.
       if map_of (in_ports s) nm \<noteq> None then (s, Inr (jn_null J))
       else if \<not> os_bind E (dp_tick s)
       then (s\<lparr>dp_world := world_tick (world_unbound (os_unlinked E (dp_tick s)) (dp_sock s nm) (dp_world s))\<rparr>, Inl Internal)
       else let h = length (w_vhosts (dp_world s));
                prt = in_next_port_id s;
                w = world_tick (world_bind (dp_sock s nm) (dp_world s));
                w = w\<lparr>w_pumps := w_pumps w @ [(nm, prt)], w_readers := w_readers w @ [(nm, h)]\<rparr>
            in and_then (dp_persist C E
                 (s\<lparr>in_next_port_id := prt + 1,
                    in_switch := switch_add_port (in_switch s) (PortId prt) [],
                    in_names := bm_insert prt nm (in_names s),
                    in_ports := bm_insert nm \<lparr>lp_id = prt, lp_network = None, lp_mac = None, lp_vhost = h\<rparr> (in_ports s),
                    dp_world := w\<rparr>))
               (\<lambda>s' _. (s', Inr (jn_null J)))))"

text \<open>\<open>if let (Some(network), Some(mac)) ... && let Some(entry)\<close>: the release whose result is ignored.\<close>

definition dp_release_quiet :: "'v dataplane \<Rightarrow> live_port \<Rightarrow> 'v dataplane" where
  "dp_release_quiet s lp =
     (case (lp_network lp, lp_mac lp) of
        (Some net, Some mac) \<Rightarrow>
          (case map_of (in_networks s) net of
             None \<Rightarrow> s
           | Some e \<Rightarrow> s\<lparr>in_networks := bm_insert net (e\<lparr>ne_ipam := fst (ipam_release (ne_ipam e) mac)\<rparr>) (in_networks s)\<rparr>)
      | _ \<Rightarrow> s)"

definition dp_delete_port :: "'v json_api \<Rightarrow> 'v snap_codec \<Rightarrow> dp_os \<Rightarrow> ('v dataplane, 'v) cp_op" where
  "dp_delete_port J C E s params =
     try_in s (str_p J params ''name'') (\<lambda>nm.
     try_in s (dp_lock s) (\<lambda>_.
       case map_of (in_ports s) nm of
         None \<Rightarrow> (s, Inl NotFound)
       | Some lp \<Rightarrow>
           let s1 = dp_release_quiet (s\<lparr>in_ports := bm_remove nm (in_ports s)\<rparr>) lp;
               s2 = s1\<lparr>in_switch := fst (switch_remove_port (in_switch s1) (PortId (lp_id lp))),
                       in_gateway := fst (gateway_remove_port (in_gateway s1) (PortId (lp_id lp))),
                       in_names := bm_remove (lp_id lp) (in_names s1),
                       in_publish_table := fst (pt_remove_port (in_publish_table s1) nm)\<rparr>
           in and_then (dp_persist C E s2) (\<lambda>s3 _.
                let s4 = teardown_passt s3 nm in
                (s4\<lparr>dp_world := (dp_world s4)\<lparr>w_fs := (w_fs (dp_world s4))(dp_sock s4 nm := None)\<rparr>\<rparr>,
                 Inr (jn_null J)))))"

definition dp_get_port :: "'v json_api \<Rightarrow> ('v dataplane, 'v) cp_op" where
  "dp_get_port J s params =
     try_in s (str_p J params ''name'') (\<lambda>nm.
     try_in s (dp_lock s) (\<lambda>_.
     try_in s (ok_or NotFound (map_of (in_ports s) nm)) (\<lambda>p.
       (s, Inr (jn_object J [(''name'', jn_string J nm),
                  (''network'', jn_opt_string J (lp_network p)),
                  (''mac'', jn_opt_string J (map_option show_mac (lp_mac p)))])))))"

text \<open>\<open>vhost.set_mac\<close> on the object a live port refers to.\<close>

definition world_set_mac :: "nat \<Rightarrow> bytes \<Rightarrow> world \<Rightarrow> world" where
  "world_set_mac h mac w = w\<lparr>w_vhosts := (w_vhosts w)[h := (w_vhosts w ! h)\<lparr>vo_mac := mac\<rparr>]\<rparr>"

definition dp_attach_port :: "'v json_api \<Rightarrow> 'v snap_codec \<Rightarrow> dp_os \<Rightarrow> ('v dataplane, 'v) cp_op" where
  "dp_attach_port J C E s params =
     try_in s (str_p J params ''port'') (\<lambda>nm.
     try_in s (str_p J params ''network'') (\<lambda>net.
     try_in s (mac_p J params ''mac'') (\<lambda>mac.
     try_in s (dp_lock s) (\<lambda>_.
     try_in s (ok_or NotFound (map_of (in_ports s) nm)) (\<lambda>lp.
       if lp_network lp = Some net \<and> lp_mac lp = Some mac then (s, Inr (jn_null J))
       else if lp_network lp \<noteq> None then (s, Inl Conflict)
       else try_in s (ok_or NotFound (map_of (in_networks s) net)) (\<lambda>e.
         case ipam_allocate (ne_ipam e) mac of
           (i, r) \<Rightarrow>
             let s1 = s\<lparr>in_networks := bm_insert net (e\<lparr>ne_ipam := i\<rparr>) (in_networks s)\<rparr> in
             (case r of
                Inl err \<Rightarrow> (s1, Inl (dp_ipam_err err))
              | Inr _ \<Rightarrow>
                  let s2 = s1\<lparr>in_ports := bm_insert nm (lp\<lparr>lp_network := Some net, lp_mac := Some mac\<rparr>) (in_ports s1),
                             in_switch := switch_add_port (in_switch s1) (PortId (lp_id lp)) net,
                             in_gateway := gateway_add_port (in_gateway s1) (PortId (lp_id lp)) net,
                             dp_world := world_set_mac (lp_vhost lp) (mac_octets mac) (dp_world s1)\<rparr>
                  in try_in s2 (ok_or NotFound (ipam_lookup i mac)) (\<lambda>ip.
                       and_then (ensure_passt E s2 nm (show_ip ip) []) (\<lambda>s3 _.
                       and_then (dp_persist C E s3) (\<lambda>s4 _. (s4, Inr (jn_null J)))))))))))) "

text \<open>The release on detach, whose errors end the operation.\<close>

definition dp_release_attached :: "'v dataplane \<Rightarrow> live_port \<Rightarrow> 'v dataplane \<times> (rpc_error, unit) result" where
  "dp_release_attached s lp =
     (case (lp_network lp, lp_mac lp) of
        (Some net, Some mac) \<Rightarrow>
          try_in s (ok_or NotFound (map_of (in_networks s) net)) (\<lambda>e.
            case ipam_release (ne_ipam e) mac of
              (i, r) \<Rightarrow>
                (s\<lparr>in_networks := bm_insert net (e\<lparr>ne_ipam := i\<rparr>) (in_networks s)\<rparr>,
                 case r of Inl err \<Rightarrow> Inl (dp_ipam_err err) | Inr _ \<Rightarrow> Inr ()))
      | _ \<Rightarrow> (s, Inr ()))"

definition dp_detach_port :: "'v json_api \<Rightarrow> 'v snap_codec \<Rightarrow> dp_os \<Rightarrow> ('v dataplane, 'v) cp_op" where
  "dp_detach_port J C E s params =
     try_in s (str_p J params ''name'') (\<lambda>nm.
     try_in s (dp_lock s) (\<lambda>_.
     try_in s (ok_or NotFound (map_of (in_ports s) nm)) (\<lambda>lp.
       let s1 = s\<lparr>in_ports := bm_insert nm (lp\<lparr>lp_network := None, lp_mac := None\<rparr>) (in_ports s),
                  in_gateway := fst (gateway_remove_port (in_gateway s) (PortId (lp_id lp))),
                  in_switch := fst (switch_remove_port (in_switch s) (PortId (lp_id lp)))\<rparr>
       in and_then (dp_release_attached s1 lp) (\<lambda>s2 _.
          and_then (dp_persist C E (s2\<lparr>in_publish_table := fst (pt_remove_port (in_publish_table s2) nm)\<rparr>)) (\<lambda>s3 _.
            (teardown_passt s3 nm, Inr (jn_null J)))))))"

definition dp_allocate_ip :: "'v json_api \<Rightarrow> ('v dataplane, 'v) cp_op" where
  "dp_allocate_ip J s params =
     try_in s (str_p J params ''network'') (\<lambda>net.
     try_in s (mac_p J params ''mac'') (\<lambda>mac.
     try_in s (dp_lock s) (\<lambda>_.
     try_in s (ok_or NotFound (map_of (in_networks s) net)) (\<lambda>e.
       case ipam_allocate (ne_ipam e) mac of
         (i, r) \<Rightarrow>
           (s\<lparr>in_networks := bm_insert net (e\<lparr>ne_ipam := i\<rparr>) (in_networks s)\<rparr>,
            case r of Inl err \<Rightarrow> Inl (dp_ipam_err err) | Inr ip \<Rightarrow> Inr (jn_string J (show_ip ip)))))))"

definition dp_release_ip :: "'v json_api \<Rightarrow> 'v snap_codec \<Rightarrow> dp_os \<Rightarrow> ('v dataplane, 'v) cp_op" where
  "dp_release_ip J C E s params =
     try_in s (str_p J params ''network'') (\<lambda>net.
     try_in s (mac_p J params ''mac'') (\<lambda>mac.
     try_in s (dp_lock s) (\<lambda>_.
     try_in s (ok_or NotFound (map_of (in_networks s) net)) (\<lambda>e.
       case ipam_release (ne_ipam e) mac of
         (i, r) \<Rightarrow>
           let s1 = s\<lparr>in_networks := bm_insert net (e\<lparr>ne_ipam := i\<rparr>) (in_networks s)\<rparr> in
           (case r of
              Inl UnknownMac \<Rightarrow> (s1, Inl NotFound)
            | Inl err \<Rightarrow> (s1, Inl (dp_ipam_err err))
            | Inr _ \<Rightarrow> and_then (dp_persist C E s1) (\<lambda>s2 _. (s2, Inr (jn_null J))))))))"

text \<open>
  The tail that \<open>publish_port\<close> and \<open>unpublish_port\<close> share: bring the port's WAN process in line
  with the entries published for it.
\<close>

definition dp_sync_passt :: "dp_os \<Rightarrow> 'v dataplane \<Rightarrow> string \<Rightarrow> 'v dataplane \<times> (rpc_error, unit) result" where
  "dp_sync_passt E s nm =
     try_in s (ok_or NotFound (map_of (in_ports s) nm)) (\<lambda>lp.
     try_in s (ok_or NotFound (lp_network lp)) (\<lambda>net.
     try_in s (ok_or Internal (lp_mac lp)) (\<lambda>mac.
     try_in s (ok_or NotFound (map_of (in_networks s) net)) (\<lambda>e.
     try_in s (ok_or NotFound (ipam_lookup (ne_ipam e) mac)) (\<lambda>ip.
       ensure_passt E s nm (show_ip ip)
         (case map_of (pt_entries (in_publish_table s)) nm of None \<Rightarrow> [] | Some m \<Rightarrow> m))))))"

text \<open>The recorded host port of a published pair, or a new one.\<close>

definition dp_publish_alloc :: "'v dataplane \<Rightarrow> string \<Rightarrow> u16 \<Rightarrow> publish_table \<times> u16 option" where
  "dp_publish_alloc s nm vm_port =
     (case pt_get (in_publish_table s) nm vm_port of
        Some host \<Rightarrow> (in_publish_table s, Some host)
      | None \<Rightarrow> pt_allocate (in_publish_table s) nm vm_port (in_publish_range s))"

definition dp_publish_port :: "'v json_api \<Rightarrow> 'v snap_codec \<Rightarrow> dp_os \<Rightarrow> ('v dataplane, 'v) cp_op" where
  "dp_publish_port J C E s params =
     try_in s (str_p J params ''port'') (\<lambda>nm.
     try_in s (u16_p J params ''vm_port'') (\<lambda>vm_port.
     try_in s (dp_lock s) (\<lambda>_.
       if Option.bind (map_of (in_ports s) nm) lp_network = None then (s, Inl NotFound)
       else case dp_publish_alloc s nm vm_port of
              (tbl, None) \<Rightarrow> (s\<lparr>in_publish_table := tbl\<rparr>, Inl Conflict)
            | (tbl, Some host) \<Rightarrow>
                and_then (dp_persist C E (s\<lparr>in_publish_table := tbl\<rparr>)) (\<lambda>s1 _.
                and_then (dp_sync_passt E s1 nm) (\<lambda>s2 _.
                  (s2, Inr (jn_object J [(''host_port'', jn_number J (ucast host))])))))))"

definition dp_unpublish_port :: "'v json_api \<Rightarrow> 'v snap_codec \<Rightarrow> dp_os \<Rightarrow> ('v dataplane, 'v) cp_op" where
  "dp_unpublish_port J C E s params =
     try_in s (str_p J params ''port'') (\<lambda>nm.
     try_in s (u16_p J params ''vm_port'') (\<lambda>vm_port.
     try_in s (dp_lock s) (\<lambda>_.
       case pt_remove (in_publish_table s) nm vm_port of
         (tbl, None) \<Rightarrow> (s\<lparr>in_publish_table := tbl\<rparr>, Inl NotFound)
       | (tbl, Some _) \<Rightarrow>
           and_then (dp_persist C E (s\<lparr>in_publish_table := tbl\<rparr>)) (\<lambda>s1 _.
             if (case map_of (pt_entries (in_publish_table s1)) nm of None \<Rightarrow> [] | Some m \<Rightarrow> m) = []
             then (teardown_passt s1 nm, Inr (jn_null J))
             else and_then (dp_sync_passt E s1 nm) (\<lambda>s2 _. (s2, Inr (jn_null J)))))))"

definition dp_control_plane :: "'v json_api \<Rightarrow> 'v snap_codec \<Rightarrow> dp_os \<Rightarrow> ('v dataplane, 'v) control_plane" where
  "dp_control_plane J C E =
     \<lparr>cp_create_network = dp_create_network J C E, cp_delete_network = dp_delete_network J C E,
      cp_get_network = dp_get_network J, cp_create_port = dp_create_port J C E,
      cp_delete_port = dp_delete_port J C E, cp_get_port = dp_get_port J,
      cp_attach_port = dp_attach_port J C E, cp_detach_port = dp_detach_port J C E,
      cp_allocate_ip = dp_allocate_ip J, cp_release_ip = dp_release_ip J C E,
      cp_publish_port = dp_publish_port J C E, cp_unpublish_port = dp_unpublish_port J C E\<rparr>"

end
