(* ===== verification/Dataplane_Pump.thy ===== *)
theory Dataplane_Pump
  imports Dataplane
begin

text \<open>
  The frame path of \<open>crates/k8netd/src/dataplane.rs\<close>: the pump that takes a port's frames through
  the service seam (DHCP, DNS), the gateway seam (ARP, ping, WAN egress) and the switch, and the
  reader that carries the WAN process's frames back into the port. A panic while the lock is
  held poisons the mutex; a panic without it ends the thread.
\<close>

section \<open>Injection and egress\<close>

text \<open>Sending into a vhost port's channel and waking its RX worker.\<close>

definition world_inject :: "nat \<Rightarrow> bytes \<Rightarrow> world \<Rightarrow> world" where
  "world_inject h frame w =
     (let v = w_vhosts w ! h in
      if vo_open v
      then w\<lparr>w_vhosts := (w_vhosts w)[h := v\<lparr>vo_inbox := vo_inbox v @ [frame], vo_kicks := Suc (vo_kicks v)\<rparr>]\<rparr>
      else w)"

definition inject_to :: "'v dataplane \<Rightarrow> string \<Rightarrow> bytes \<Rightarrow> 'v dataplane \<times> bool" where
  "inject_to s prt frame =
     (case map_of (in_ports s) prt of
        None \<Rightarrow> (s, False)
      | Some lp \<Rightarrow>
          (s\<lparr>dp_world := world_inject (lp_vhost lp) frame (dp_world s)\<rparr>,
           vo_open (w_vhosts (dp_world s) ! lp_vhost lp)))"

definition passt_egress :: "dp_os \<Rightarrow> 'v dataplane \<Rightarrow> string \<Rightarrow> bytes \<Rightarrow> 'v dataplane" where
  "passt_egress E s prt frame =
     (case map_of (in_passts s) prt of
        None \<Rightarrow> s
      | Some slot \<Rightarrow>
     (case ps_live slot of
        None \<Rightarrow> s
      | Some p \<Rightarrow>
          let framed = encode_frame frame;
              sent = (case os_write E (dp_tick s) of
                        WriteOk \<Rightarrow> framed | OpenFails \<Rightarrow> [] | WriteStops n \<Rightarrow> take n framed)
          in s\<lparr>dp_world := world_tick (dp_world s)
                 \<lparr>w_wan := w_wan (dp_world s) @ [(pp_stream_fd p, sent)]\<rparr>\<rparr>))"

section \<open>Services\<close>

abbreviation DHCP_SERVER_PORT :: u16 where "DHCP_SERVER_PORT \<equiv> 67"
abbreviation DHCP_CLIENT_PORT :: u16 where "DHCP_CLIENT_PORT \<equiv> 68"
abbreviation DNS_PORT :: u16 where "DNS_PORT \<equiv> 53"

text \<open>The network and the MAC of an attached port: the lookups at the head of both seams.\<close>

definition port_binding :: "'v dataplane \<Rightarrow> string \<Rightarrow> (ipam \<times> mac_addr) option" where
  "port_binding s prt =
     Option.bind (map_of (in_ports s) prt) (\<lambda>lp.
     Option.bind (lp_network lp) (\<lambda>net.
     Option.bind (map_of (in_networks s) net) (\<lambda>e.
     Option.bind (lp_mac lp) (\<lambda>mac. Some (ne_ipam e, mac)))))"

text \<open>The DHCP branch: a server on a copy of the allocator, answering the sender's MAC.\<close>

definition dhcp_service :: "dhcp_codec \<Rightarrow> ipam \<Rightarrow> mac_addr \<Rightarrow> bytes \<Rightarrow> bytes \<Rightarrow> bytes option" where
  "dhcp_service D i vm_mac frame udp_payload =
     (case snd (dhcp_handle D (dhcp_server_new i) udp_payload) of
        None \<Rightarrow> None
      | Some reply \<Rightarrow>
          let yiaddr = (case slice_get reply 16 20 of Some d \<Rightarrow> octets_at d 0 | None \<Rightarrow> ip_unspecified);
              sender_mac = (case Option.bind (slice_get frame 6 12) mac_from_bytes of
                              Some m \<Rightarrow> m | None \<Rightarrow> vm_mac)
          in Some (wrap_udp_reply reply sender_mac (net_gateway (ipam_network i)) yiaddr
                     DHCP_SERVER_PORT DHCP_CLIENT_PORT))"

definition service_reply ::
  "dhcp_codec \<Rightarrow> dns_codec \<Rightarrow> 'v dataplane \<Rightarrow> string \<Rightarrow> bytes \<Rightarrow> bytes option outcome" where
  "service_reply D N s prt frame =
     (case port_binding s prt of
        None \<Rightarrow> Done None
      | Some (i, vm_mac) \<Rightarrow>
     (case parse_ipv4 frame of
        Panicked \<Rightarrow> Panicked
      | Done None \<Rightarrow> Done None
      | Done (Some ip) \<Rightarrow>
          let gateway_ip = net_gateway (ipam_network i); p = i4_payload ip in
          if i4_proto ip \<noteq> 17 \<or> length p < 8 then Done None
          else let sport = be16 (p ! 0) (p ! 1); dport = be16 (p ! 2) (p ! 3);
                   ulen = max (unat (be16 (p ! 4) (p ! 5))) 8;
                   udp_payload = drop 8 (take (min ulen (length p)) p)
               in if dport = DHCP_SERVER_PORT \<and> sport = DHCP_CLIENT_PORT
                  then Done (dhcp_service D i vm_mac frame udp_payload)
                  else if dport = DNS_PORT \<and> i4_dst ip = gateway_ip
                  then Done (map_option (\<lambda>answer. wrap_udp_reply answer vm_mac gateway_ip (i4_src ip) DNS_PORT sport)
                         (dns_handle N (in_dns s) udp_payload))
                  else Done None))"

definition gateway_icmp_reply :: "'v dataplane \<Rightarrow> string \<Rightarrow> bytes \<Rightarrow> bytes option outcome" where
  "gateway_icmp_reply s prt frame =
     (case port_binding s prt of
        None \<Rightarrow> Done None
      | Some (i, vm_mac) \<Rightarrow> icmp_echo_reply (net_gateway (ipam_network i)) vm_mac frame)"

section \<open>The pump\<close>

text \<open>The switch's egress resolved to port names and injected one after the other.\<close>

definition pump_switch :: "'v dataplane \<Rightarrow> u32 \<Rightarrow> bytes \<Rightarrow> 'v dataplane" where
  "pump_switch s me frame =
     (case switch_forward (in_switch s) (PortId me) frame of
        (sw, out) \<Rightarrow>
          let targets = List.map_filter (\<lambda>(pid, f).
                map_option (\<lambda>n. (n, f)) (map_of (in_names s) (port_num pid)))
                (filter (\<lambda>(pid, _). port_num pid \<noteq> me) out)
          in fold (\<lambda>(peer, f) st. fst (inject_to st peer f)) targets (s\<lparr>in_switch := sw\<rparr>))"

definition wan_uplink :: "'v dataplane \<Rightarrow> string \<Rightarrow> bytes \<Rightarrow> bool" where
  "wan_uplink s name frame =
     (case Option.bind (map_of (in_passts s) name) ps_mac of
        None \<Rightarrow> False
      | Some mac \<Rightarrow> 6 \<le> length frame \<and> take 6 frame = mac)"

definition pump_frame ::
  "dhcp_codec \<Rightarrow> dns_codec \<Rightarrow> dp_os \<Rightarrow> 'v dataplane \<Rightarrow> string \<Rightarrow> u32 \<Rightarrow> bytes \<Rightarrow> 'v dataplane" where
  "pump_frame D N E s name me frame =
     (if dp_poisoned s then s
      else case service_reply D N s name frame of
        Panicked \<Rightarrow> s\<lparr>dp_poisoned := True\<rparr>
      | Done (Some reply) \<Rightarrow> fst (inject_to s name reply)
      | Done None \<Rightarrow>
          let act = gateway_handle_frame (in_gateway s) (PortId me) frame;
              arp = (if ethertype frame = Some ETHERTYPE_ARP
                     then (case act of ActArpReply reply \<Rightarrow> Some reply | _ \<Rightarrow> None) else None)
          in case arp of
               Some reply \<Rightarrow> fst (inject_to s name reply)
             | None \<Rightarrow>
          let icmp = (if ethertype frame = Some ETHERTYPE_IPV4 then gateway_icmp_reply s name frame else Done None)
          in case icmp of
               Panicked \<Rightarrow> s\<lparr>dp_poisoned := True\<rparr>
             | Done (Some reply) \<Rightarrow> fst (inject_to s name reply)
             | Done None \<Rightarrow>
          let wan = (if ethertype frame = Some ETHERTYPE_IPV4
                     then (case act of ActWan out \<Rightarrow> Some out | _ \<Rightarrow> None) else None)
          in case wan of
               Some out \<Rightarrow> passt_egress E s name out
             | None \<Rightarrow>
                 if wan_uplink s name frame then passt_egress E s name frame
                 else pump_switch s me frame)"

text \<open>
  The loop of \<open>spawn_pump\<close> over what the delivery channel yields: a message (one for the guest is
  only sent in the other direction, and ignored), nothing within the tick, or the end of the channel; the
  flag says whether the supervision interval has passed by then. A panic in the frame path ends
  the thread with the mutex poisoned.
\<close>

datatype delivery = Received port_message | TickTimeout | Disconnected

definition pump_turn ::
  "dhcp_codec \<Rightarrow> dns_codec \<Rightarrow> dp_os \<Rightarrow> string \<Rightarrow> u32 \<Rightarrow> delivery \<times> bool \<Rightarrow> 'v dataplane \<Rightarrow> 'v dataplane \<times> bool" where
  "pump_turn D N E name me ev s =
     (let (msg, elapsed) = ev;
          s1 = (case msg of Received (FromVm frame) \<Rightarrow> pump_frame D N E s name me frame | _ \<Rightarrow> s)
      in if msg = Disconnected then (s, False)
         else if dp_poisoned s1 \<and> \<not> dp_poisoned s then (s1, False)
         else (if elapsed \<and> \<not> dp_poisoned s1 then supervise_passt E s1 name else s1, True))"

fun pump_loop ::
  "dhcp_codec \<Rightarrow> dns_codec \<Rightarrow> dp_os \<Rightarrow> string \<Rightarrow> u32 \<Rightarrow> (delivery \<times> bool) list \<Rightarrow> 'v dataplane \<Rightarrow> 'v dataplane \<times> bool" where
  "pump_loop D N E name me [] s = (s, True)"
| "pump_loop D N E name me (ev # evs) s =
     (case pump_turn D N E name me ev s of
        (s', True) \<Rightarrow> pump_loop D N E name me evs s'
      | (s', False) \<Rightarrow> (s', False))"

section \<open>The WAN ingress reader\<close>

definition MAX_PASST_PENDING :: nat where
  "MAX_PASST_PENDING = 1048576"

datatype reader_status = ReaderGoes | ReaderReturns | ReaderPanics

text \<open>
  One decoded frame: learn the uplink's MAC from its source and inject it. The guard admits six
  bytes, the slice needs twelve; the slice is taken before the lock, so a panic here does not
  poison it.
\<close>

definition ingress_frame :: "'v dataplane \<Rightarrow> string \<Rightarrow> nat \<Rightarrow> bytes \<Rightarrow> 'v dataplane \<times> reader_status" where
  "ingress_frame s name h payload =
     (if 6 \<le> length payload \<and> length payload < 12 then (s, ReaderPanics)
      else let s1 =
            (if 6 \<le> length payload \<and> \<not> dp_poisoned s
             then (case map_of (in_passts s) name of
                     None \<Rightarrow> s
                   | Some slot \<Rightarrow>
                       let mac = take 6 (drop 6 payload) in
                       if ps_mac slot \<noteq> Some mac
                       then s\<lparr>in_passts := bm_insert name (slot\<lparr>ps_mac := Some mac\<rparr>) (in_passts s)\<rparr>
                       else s)
             else s)
        in if vo_open (w_vhosts (dp_world s1) ! h)
           then (s1\<lparr>dp_world := world_inject h payload (dp_world s1)\<rparr>, ReaderGoes)
           else (s1, ReaderReturns))"

text \<open>The inner loop over the frames at the front of the buffer.\<close>

function ingress_drain :: "'v dataplane \<Rightarrow> string \<Rightarrow> nat \<Rightarrow> bytes \<Rightarrow> 'v dataplane \<times> bytes \<times> reader_status" where
  "ingress_drain s name h pending =
     (case next_frame pending of
        None \<Rightarrow> (s, pending, ReaderGoes)
      | Some (consumed, payload) \<Rightarrow>
          (case ingress_frame s name h payload of
             (s', ReaderGoes) \<Rightarrow> ingress_drain s' name h (drop consumed pending)
           | (s', st) \<Rightarrow> (s', drop consumed pending, st)))"
  by pat_completeness auto
termination
  by (relation "measure (\<lambda>(_, _, _, p). length p)") (auto dest: next_frame_consumes)

declare ingress_drain.simps [simp del]

datatype read_event = ReadData bytes | ReadEof | ReadInterrupted | ReadFails

text \<open>One turn of the read loop, then the loop over what the reads return.\<close>

definition read_turn ::
  "string \<Rightarrow> nat \<Rightarrow> read_event \<Rightarrow> 'v dataplane \<times> bytes \<Rightarrow> 'v dataplane \<times> bytes \<times> reader_status" where
  "read_turn name h ev sp =
     (case sp of (s, pending) \<Rightarrow>
     (case ev of
        ReadEof \<Rightarrow> (s, pending, ReaderReturns)
      | ReadFails \<Rightarrow> (s, pending, ReaderReturns)
      | ReadInterrupted \<Rightarrow> (s, pending, ReaderGoes)
      | ReadData chunk \<Rightarrow>
          (case ingress_drain s name h (pending @ chunk) of
             (s', rest, ReaderGoes) \<Rightarrow>
               (s', if length rest > MAX_PASST_PENDING then [] else rest, ReaderGoes)
           | (s', rest, st) \<Rightarrow> (s', rest, st))))"

fun read_passt_frames ::
  "string \<Rightarrow> nat \<Rightarrow> read_event list \<Rightarrow> 'v dataplane \<times> bytes \<Rightarrow> 'v dataplane \<times> bytes \<times> reader_status" where
  "read_passt_frames name h [] (s, pending) = (s, pending, ReaderGoes)"
| "read_passt_frames name h (ev # evs) (s, pending) =
     (case read_turn name h ev (s, pending) of
        (s', pending', ReaderGoes) \<Rightarrow> read_passt_frames name h evs (s', pending')
      | (s', pending', st) \<Rightarrow> (s', pending', st))"

text \<open>
  The outer loop of \<open>spawn_passt_reader\<close> at the top of a turn: adopt the stream the slot holds,
  sleep, or retire when the slot has none and no port has the name it was spawned for.
\<close>

datatype reader_poll = Adopt int | ReaderSleeps | ReaderRetires

definition reader_poll :: "'v dataplane \<Rightarrow> string \<Rightarrow> bool \<Rightarrow> reader_poll" where
  "reader_poll s name clone_ok =
     (if dp_poisoned s then ReaderSleeps
      else case Option.bind (map_of (in_passts s) name) ps_live of
        Some p \<Rightarrow> if clone_ok then Adopt (pp_stream_fd p) else ReaderSleeps
      | None \<Rightarrow> if map_of (in_ports s) name = None then ReaderRetires else ReaderSleeps)"

text \<open>
  A reader that retires drops its handle on the vhost port. The port's own handle is gone by
  then, so the object is dropped: its receiving end closes and its socket path is unlinked.
\<close>

definition reader_retire :: "'v dataplane \<Rightarrow> string \<Rightarrow> nat \<Rightarrow> 'v dataplane" where
  "reader_retire s name h =
     (let w = dp_world s; v = w_vhosts w ! h;
          last_ref = (\<forall>lp \<in> snd ` set (in_ports s). lp_vhost lp \<noteq> h);
          w1 = w\<lparr>w_readers := remove1 (name, h) (w_readers w)\<rparr>
      in s\<lparr>dp_world :=
           (if last_ref
            then w1\<lparr>w_vhosts := (w_vhosts w)[h := v\<lparr>vo_open := False\<rparr>], w_fs := (w_fs w)(vo_path v := None)\<rparr>
            else w1)\<rparr>)"

text \<open>
  The whole reader thread over what its turns meet: whether the descriptor could be cloned, and what
  the reads of an adopted stream return until the stream ends. Each adoption starts with an empty
  buffer; a panic ends the thread, and so does the retirement.
\<close>

fun passt_reader :: "string \<Rightarrow> nat \<Rightarrow> (bool \<times> read_event list) list \<Rightarrow> 'v dataplane \<Rightarrow> 'v dataplane \<times> bool" where
  "passt_reader name h [] s = (s, True)"
| "passt_reader name h ((clone_ok, evs) # turns) s =
     (case reader_poll s name clone_ok of
        ReaderRetires \<Rightarrow> (reader_retire s name h, False)
      | ReaderSleeps \<Rightarrow> passt_reader name h turns s
      | Adopt _ \<Rightarrow>
          (case read_passt_frames name h evs (s, []) of
             (s', _, ReaderPanics) \<Rightarrow> (s', False)
           | (s', _, _) \<Rightarrow> passt_reader name h turns s'))"

end
