(* ===== verification/Dataplane_Inv.thy ===== *)
theory Dataplane_Inv
  imports Dataplane_Pump
begin

text \<open>
  The invariant of the dataplane and the proof that every control-plane operation, every pumped
  frame, every supervision tick and every WAN chunk keeps it, whatever the operating system
  answers. The invariant is a conjunction of predicates on single fields of the state, so that
  an operation's proof looks only at the fields it writes.
\<close>

section \<open>Field-wise invariants\<close>

definition net_entry_ok :: "string \<Rightarrow> 'v network_entry \<Rightarrow> bool" where
  "net_entry_ok nm e =
     (network_ok (ipam_network (ne_ipam e)) \<and> net_name (ipam_network (ne_ipam e)) = nm \<and> ipam_inv (ne_ipam e))"

text \<open>Sound networks, each mirrored in the gateway function.\<close>

definition nets_ok :: "(string, 'v network_entry) btree_map \<Rightarrow> gateway \<Rightarrow> bool" where
  "nets_ok nets gw =
     (bm_wf nets \<and> gateway_inv gw \<and> (\<forall>nm e. map_of nets nm = Some e \<longrightarrow> net_entry_ok nm e)
      \<and> (\<forall>nm. map_of (gw_networks gw) nm = map_option (\<lambda>e. ipam_network (ne_ipam e)) (map_of nets nm)))"

text \<open>Ports are attached completely or not at all; each has its own open vhost port.\<close>

definition live_port_ok :: "vhost_obj list \<Rightarrow> live_port \<Rightarrow> bool" where
  "live_port_ok vs lp =
     ((lp_network lp = None \<longleftrightarrow> lp_mac lp = None) \<and> lp_vhost lp < length vs \<and> vo_open (vs ! lp_vhost lp))"

definition lports_ok :: "(string, live_port) btree_map \<Rightarrow> vhost_obj list \<Rightarrow> bool" where
  "lports_ok ports vs =
     (bm_wf ports \<and> (\<forall>nm lp. map_of ports nm = Some lp \<longrightarrow> live_port_ok vs lp)
      \<and> (\<forall>nm nm' lp lp'. map_of ports nm = Some lp \<longrightarrow> map_of ports nm' = Some lp' \<longrightarrow>
            lp_vhost lp = lp_vhost lp' \<longrightarrow> nm = nm'))"

text \<open>A slot runs a process with no failures counted, or waits for a retry.\<close>

definition slot_ok :: "passt_slot \<Rightarrow> bool" where
  "slot_ok sl =
     (case ps_live sl of
        Some _ \<Rightarrow> ps_failures sl = 0 \<and> ps_next_retry sl = None
      | None \<Rightarrow> ps_failures sl \<noteq> 0 \<and> ps_next_retry sl \<noteq> None)"

definition slots_ok :: "(string, passt_slot) btree_map \<Rightarrow> bool" where
  "slots_ok m = (bm_wf m \<and> (\<forall>nm sl. map_of m nm = Some sl \<longrightarrow> slot_ok sl))"

definition table_ok :: "publish_table \<Rightarrow> bool" where
  "table_ok t = (pt_wf t \<and> pt_inj t)"

definition dp_inv :: "'v dataplane \<Rightarrow> bool" where
  "dp_inv s =
     (nets_ok (in_networks s) (in_gateway s) \<and> lports_ok (in_ports s) (w_vhosts (dp_world s))
      \<and> bm_wf (in_names s) \<and> slots_ok (in_passts s) \<and> table_ok (in_publish_table s) \<and> switch_inv (in_switch s))"

section \<open>Sequencing\<close>

lemma and_then_inv:
  "P (fst m) \<Longrightarrow> (\<And>s v. m = (s, Inr v) \<Longrightarrow> P (fst (f s v))) \<Longrightarrow> P (fst (and_then m f))"
  by (auto simp: and_then_def split: prod.splits sum.splits)

lemma try_in_inv: "P s \<Longrightarrow> (\<And>v. r = Inr v \<Longrightarrow> P (fst (f v))) \<Longrightarrow> P (fst (try_in s r f))"
  by (auto simp: try_in_def split: sum.splits)

section \<open>What the helpers leave alone\<close>

lemma world_tick_simps [simp]:
  "w_fs (world_tick w) = w_fs w" "w_fds (world_tick w) = w_fds w" "w_vhosts (world_tick w) = w_vhosts w"
  "w_wan (world_tick w) = w_wan w" "w_stopped (world_tick w) = w_stopped w" "w_spawned (world_tick w) = w_spawned w"
  "w_readers (world_tick w) = w_readers w" "w_pumps (world_tick w) = w_pumps w"
  by (simp_all add: world_tick_def)

lemma world_unbound_simps [simp]:
  "w_tick (world_unbound u p w) = w_tick w" "w_fds (world_unbound u p w) = w_fds w" "w_wan (world_unbound u p w) = w_wan w"
  "w_vhosts (world_unbound u p w) = w_vhosts w" "w_stopped (world_unbound u p w) = w_stopped w"
  "w_pumps (world_unbound u p w) = w_pumps w" "w_readers (world_unbound u p w) = w_readers w"
  by (simp_all add: world_unbound_def)

lemma stop_passt_simps [simp]:
  "w_vhosts (stop_passt p w) = w_vhosts w" "w_fs (stop_passt p w) = w_fs w"
  by (simp_all add: stop_passt_def)

lemma persist_fields [simp]:
  "in_networks (fst (dp_persist C E s)) = in_networks s" "in_ports (fst (dp_persist C E s)) = in_ports s"
  "in_names (fst (dp_persist C E s)) = in_names s" "in_next_port_id (fst (dp_persist C E s)) = in_next_port_id s"
  "in_switch (fst (dp_persist C E s)) = in_switch s" "in_gateway (fst (dp_persist C E s)) = in_gateway s"
  "in_passts (fst (dp_persist C E s)) = in_passts s" "in_dns (fst (dp_persist C E s)) = in_dns s"
  "in_publish_range (fst (dp_persist C E s)) = in_publish_range s"
  "in_publish_table (fst (dp_persist C E s)) = in_publish_table s"
  "dp_socket_dir (fst (dp_persist C E s)) = dp_socket_dir s" "dp_poisoned (fst (dp_persist C E s)) = dp_poisoned s"
  "w_vhosts (dp_world (fst (dp_persist C E s))) = w_vhosts (dp_world s)"
  by (simp_all add: dp_persist_def split: prod.splits)

lemma persist_inv [simp]: "dp_inv (fst (dp_persist C E s)) = dp_inv s"
  by (simp add: dp_inv_def)

lemma persist_invD: "dp_persist C E s = (s', r) \<Longrightarrow> dp_inv s' = dp_inv s"
  by (metis fst_conv persist_inv)

section \<open>WAN slots\<close>

lemma count_failure_facts [simp]:
  "ps_live (count_failure t sl) = ps_live sl" "ps_desired (count_failure t sl) = ps_desired sl"
  "ps_mac (count_failure t sl) = ps_mac sl"
  "ps_next_retry (count_failure t sl) = Some (t + restart_backoff (u32_saturating_inc (ps_failures sl)))"
  "ps_failures (count_failure t sl) = u32_saturating_inc (ps_failures sl)"
  by (simp_all add: count_failure_def Let_def)

lemma saturating_inc_pos [simp]: "u32_saturating_inc n \<noteq> 0"
proof (cases "n = - 1")
  case False
  have "n + 1 \<noteq> 0" using False by (metis add.inverse_unique add.commute minus_equation_iff)
  then show ?thesis by (simp add: u32_saturating_inc_def False)
qed (simp add: u32_saturating_inc_def)

lemma spawn_into_facts:
  assumes "spawn_into E w sl = (w', sl', ok)" "ps_live sl = None"
  shows "slot_ok sl'" "w_vhosts w' = w_vhosts w" "w_fs w' = w_fs w" "ok = (ps_live sl' \<noteq> None)"
    "ps_desired sl' = ps_desired sl" "ps_mac sl' = ps_mac sl"
  using assms by (auto simp: spawn_into_def slot_ok_def split: prod.splits sum.splits)

lemma slots_ok_insert: "slots_ok m \<Longrightarrow> slot_ok sl \<Longrightarrow> slots_ok (bm_insert nm sl m)"
  by (auto simp: slots_ok_def)

lemma slots_okD: "slots_ok m \<Longrightarrow> map_of m nm = Some sl \<Longrightarrow> slot_ok sl"
  by (simp add: slots_ok_def)

lemma slot_ok_mac [simp]: "slot_ok (sl\<lparr>ps_mac := m\<rparr>) = slot_ok sl"
  by (simp add: slot_ok_def split: option.split)

lemma slots_ok_remove: "slots_ok m \<Longrightarrow> slots_ok (bm_remove nm m)"
  by (auto simp: slots_ok_def split: if_splits)

text \<open>Changing only WAN slots and the world outside the vhost ports keeps the invariant.\<close>

lemma dp_inv_slots:
  assumes "dp_inv s" "slots_ok m" "w_vhosts w = w_vhosts (dp_world s)"
  shows "dp_inv (s\<lparr>in_passts := m, dp_world := w\<rparr>)"
  using assms by (simp add: dp_inv_def)

text \<open>The three ways \<open>ensure_passt\<close> ends: no network, nothing to do, or one spawn.\<close>

lemma ensure_passt_cases:
  obtains (missing) "ensure_passt E s prt ip pub = (s, Inl NotFound)"
      "\<And>lp net. map_of (in_ports s) prt = Some lp \<Longrightarrow> lp_network lp = Some net \<Longrightarrow> map_of (in_networks s) net = None"
  | (running) sl p where "ensure_passt E s prt ip pub = (s, Inr ())" "map_of (in_passts s) prt = Some sl" "ps_live sl = Some p"
  | (spawn) sl sl' w w' ok where
      "ensure_passt E s prt ip pub =
         (s\<lparr>in_passts := bm_insert prt sl' (in_passts s), dp_world := w'\<rparr>, if ok then Inr () else Inl Internal)"
      "spawn_into E w sl = (w', sl', ok)" "ps_live sl = None" "w_vhosts w = w_vhosts (dp_world s)"
      "w_fs w = w_fs (dp_world s)"
proof (cases "Option.bind (map_of (in_ports s) prt) lp_network")
  case None
  then show ?thesis by (intro missing) (auto simp: ensure_passt_def)
next
  case (Some net)
  note n = this
  show ?thesis
  proof (cases "map_of (in_networks s) net")
    case None
    then show ?thesis using n by (intro missing) (auto simp: ensure_passt_def)
  next
    case (Some e)
    let ?n = "ipam_network (ne_ipam e)"
    define config where "config = passt_config_for ip (show_ip (cidr_netmask (net_cidr ?n))) (show_ip (net_gateway ?n)) pub"
    define sl where "sl = (case map_of (in_passts s) prt of Some sl \<Rightarrow> sl | None \<Rightarrow> new_slot config)"
    define w where "w = (case ps_live sl of Some old \<Rightarrow> stop_passt old (dp_world s) | None \<Rightarrow> dp_world s)"
    have e: "ensure_passt E s prt ip pub =
        (if ps_live sl \<noteq> None \<and> ps_desired sl = config then (s, Inr ())
         else case spawn_into E w (sl\<lparr>ps_live := None, ps_desired := config\<rparr>) of
           (w', slot', spawned) \<Rightarrow>
             (s\<lparr>in_passts := bm_insert prt slot' (in_passts s), dp_world := w'\<rparr>, if spawned then Inr () else Inl Internal))"
      unfolding w_def sl_def config_def ensure_passt_def Let_def using n Some by simp
    show ?thesis
    proof (cases "ps_live sl \<noteq> None \<and> ps_desired sl = config")
      case True
      then have "map_of (in_passts s) prt = Some sl" by (auto simp: sl_def new_slot_def split: option.splits)
      then show ?thesis using True e running by auto
    next
      case False
      obtain w' sl' ok where "spawn_into E w (sl\<lparr>ps_live := None, ps_desired := config\<rparr>) = (w', sl', ok)"
        by (cases "spawn_into E w (sl\<lparr>ps_live := None, ps_desired := config\<rparr>)")
      then show ?thesis using False e
        by (intro spawn [where sl = "sl\<lparr>ps_live := None, ps_desired := config\<rparr>" and w = w and sl' = sl' and w' = w'])
          (simp_all add: w_def split: option.splits)
    qed
  qed
qed

lemma ensure_passt_shape:
  obtains (same) "fst (ensure_passt E s prt ip pub) = s"
  | (slot) sl w where "fst (ensure_passt E s prt ip pub) = s\<lparr>in_passts := bm_insert prt sl (in_passts s), dp_world := w\<rparr>"
      "slot_ok sl" "w_vhosts w = w_vhosts (dp_world s)" "w_fs w = w_fs (dp_world s)"
proof (cases rule: ensure_passt_cases [of E s prt ip pub])
  case (spawn sl sl' w w' ok)
  note f = spawn_into_facts [OF spawn(2,3)]
  show ?thesis using slot [where sl = sl' and w = w'] spawn f by simp
qed (use same in simp_all)

lemma ensure_passt_fields [simp]:
  "in_networks (fst (ensure_passt E s prt ip pub)) = in_networks s" "in_ports (fst (ensure_passt E s prt ip pub)) = in_ports s"
  "in_names (fst (ensure_passt E s prt ip pub)) = in_names s"
  "in_next_port_id (fst (ensure_passt E s prt ip pub)) = in_next_port_id s"
  "in_switch (fst (ensure_passt E s prt ip pub)) = in_switch s" "in_gateway (fst (ensure_passt E s prt ip pub)) = in_gateway s"
  "in_publish_table (fst (ensure_passt E s prt ip pub)) = in_publish_table s"
  "in_publish_range (fst (ensure_passt E s prt ip pub)) = in_publish_range s"
  "dp_socket_dir (fst (ensure_passt E s prt ip pub)) = dp_socket_dir s"
  "dp_poisoned (fst (ensure_passt E s prt ip pub)) = dp_poisoned s"
  "w_vhosts (dp_world (fst (ensure_passt E s prt ip pub))) = w_vhosts (dp_world s)"
  "w_fs (dp_world (fst (ensure_passt E s prt ip pub))) = w_fs (dp_world s)"
  by (cases rule: ensure_passt_shape [of E s prt ip pub]; simp)+

lemma ensure_passt_inv: "dp_inv s \<Longrightarrow> dp_inv (fst (ensure_passt E s prt ip pub))"
  by (cases rule: ensure_passt_shape [of E s prt ip pub])
    (auto intro: dp_inv_slots slots_ok_insert simp: dp_inv_def)

lemma teardown_fields [simp]:
  "in_networks (teardown_passt s prt) = in_networks s" "in_ports (teardown_passt s prt) = in_ports s"
  "in_names (teardown_passt s prt) = in_names s" "in_next_port_id (teardown_passt s prt) = in_next_port_id s"
  "in_switch (teardown_passt s prt) = in_switch s" "in_gateway (teardown_passt s prt) = in_gateway s"
  "in_publish_table (teardown_passt s prt) = in_publish_table s" "in_publish_range (teardown_passt s prt) = in_publish_range s"
  "dp_socket_dir (teardown_passt s prt) = dp_socket_dir s" "dp_poisoned (teardown_passt s prt) = dp_poisoned s"
  "w_vhosts (dp_world (teardown_passt s prt)) = w_vhosts (dp_world s)"
  "w_fs (dp_world (teardown_passt s prt)) = w_fs (dp_world s)"
  by (simp_all add: teardown_passt_def Let_def split: option.splits)

lemma teardown_passts:
  "bm_wf (in_passts s) \<Longrightarrow> in_passts (teardown_passt s prt) = bm_remove prt (in_passts s) \<or> in_passts (teardown_passt s prt) = in_passts s"
  by (simp add: teardown_passt_def Let_def split: option.splits)

lemma teardown_slots: "slots_ok (in_passts s) \<Longrightarrow> slots_ok (in_passts (teardown_passt s prt))"
  using teardown_passts [of s prt] slots_ok_remove [of "in_passts s" prt] by (auto simp: slots_ok_def)

lemma teardown_inv: "dp_inv s \<Longrightarrow> dp_inv (teardown_passt s prt)"
  by (simp add: dp_inv_def teardown_slots)

section \<open>Networks\<close>

lemma nets_ok_add:
  assumes "nets_ok nets gw" "network_ok net" "net_name net = nm"
  shows "nets_ok (bm_insert nm \<lparr>ne_ipam = ipam_new net, ne_created_with = v\<rparr> nets) (gateway_add_network gw net)"
  using assms
  by (auto simp: nets_ok_def net_entry_ok_def gateway_inv_def gateway_add_network_def ipam_new_def [of net]
      intro: ipam_new_inv(1) [unfolded ipam_new_def])

lemma nets_ok_remove:
  assumes "nets_ok nets gw"
  shows "nets_ok (bm_remove nm nets) (fst (gateway_remove_network gw nm))"
    and "map_of nets nm = None \<Longrightarrow> nets_ok nets (fst (gateway_remove_network gw nm))"
  using assms by (auto simp: nets_ok_def gateway_inv_def gateway_remove_network_def)

lemma nets_ok_ipam:
  assumes "nets_ok nets gw" "map_of nets nm = Some e" "ipam_inv i" "ipam_network i = ipam_network (ne_ipam e)"
  shows "nets_ok (bm_insert nm (e\<lparr>ne_ipam := i\<rparr>) nets) gw"
  using assms by (auto simp: nets_ok_def net_entry_ok_def)

lemma nets_okD: "nets_ok nets gw \<Longrightarrow> map_of nets nm = Some e \<Longrightarrow> net_entry_ok nm e"
  by (simp add: nets_ok_def)

lemma nets_ok_allocate:
  assumes "nets_ok nets gw" "map_of nets nm = Some e" "ipam_allocate (ne_ipam e) mac = (i, r)"
  shows "nets_ok (bm_insert nm (e\<lparr>ne_ipam := i\<rparr>) nets) gw"
proof -
  have "ipam_inv i \<and> ipam_network i = ipam_network (ne_ipam e)"
    using ipam_allocate_inv [of "ne_ipam e" mac] nets_okD [OF assms(1,2)] assms(3) by (simp add: net_entry_ok_def)
  then show ?thesis using nets_ok_ipam [OF assms(1,2)] by blast
qed

lemma nets_ok_release:
  assumes "nets_ok nets gw" "map_of nets nm = Some e"
  shows "nets_ok (bm_insert nm (e\<lparr>ne_ipam := fst (ipam_release (ne_ipam e) mac)\<rparr>) nets) gw"
  using nets_ok_ipam [OF assms] ipam_release_inv [of "ne_ipam e" mac] ipam_release_spec(2) [of "ne_ipam e" mac]
    nets_okD [OF assms] by (simp add: net_entry_ok_def)

lemma nets_ok_gateway_ports [simp]:
  "nets_ok nets (gateway_add_port gw p net) = nets_ok nets gw"
  "nets_ok nets (fst (gateway_remove_port gw p)) = nets_ok nets gw" if "gateway_inv gw"
  using that by (auto simp: nets_ok_def gateway_inv_def gateway_add_port_def gateway_remove_port_def)

lemma nets_ok_gateway [simp]: "nets_ok nets gw \<Longrightarrow> gateway_inv gw"
  by (simp add: nets_ok_def)

section \<open>Ports\<close>

lemma lports_ok_new:
  assumes "lports_ok ports vs" "map_of ports nm = None" "vo_open v"
  shows "lports_ok (bm_insert nm \<lparr>lp_id = i, lp_network = None, lp_mac = None, lp_vhost = length vs\<rparr> ports) (vs @ [v])"
  using assms by (force simp: lports_ok_def live_port_ok_def nth_append)

lemma lports_ok_remove: "lports_ok ports vs \<Longrightarrow> lports_ok (bm_remove nm ports) vs"
  by (auto simp: lports_ok_def)

lemma lports_ok_update:
  assumes "lports_ok ports vs" "map_of ports nm = Some lp" "lp_vhost lp' = lp_vhost lp"
    "(lp_network lp' = None) = (lp_mac lp' = None)"
  shows "lports_ok (bm_insert nm lp' ports) vs"
  using assms by (auto simp: lports_ok_def live_port_ok_def)

lemma lports_ok_vhost:
  assumes "lports_ok ports vs" "vo_open v = vo_open (vs ! h)"
  shows "lports_ok ports (vs[h := v])"
proof -
  have "vo_open (vs[h := v] ! k) = vo_open (vs ! k)" if "k < length vs" for k
    using that assms(2) by (cases "k = h") auto
  then show ?thesis using assms(1) by (auto simp: lports_ok_def live_port_ok_def)
qed

lemma lports_okD: "lports_ok ports vs \<Longrightarrow> map_of ports nm = Some lp \<Longrightarrow> live_port_ok vs lp"
  by (simp add: lports_ok_def)

section \<open>The control-plane operations\<close>

lemma dp_invD:
  assumes "dp_inv s"
  shows "nets_ok (in_networks s) (in_gateway s)" "lports_ok (in_ports s) (w_vhosts (dp_world s))"
    "bm_wf (in_names s)" "slots_ok (in_passts s)" "table_ok (in_publish_table s)" "switch_inv (in_switch s)"
  using assms by (simp_all add: dp_inv_def)

text \<open>Leaving early, and the persist step, keep the invariant.\<close>

lemma inv_try: "dp_inv s \<Longrightarrow> (\<And>v. r = Inr v \<Longrightarrow> dp_inv (fst (f v))) \<Longrightarrow> dp_inv (fst (try_in s r f))"
  by (rule try_in_inv)

lemma inv_persist:
  assumes "dp_inv s" "\<And>s'. dp_inv s' \<Longrightarrow> dp_inv (fst (f s' ()))"
  shows "dp_inv (fst (and_then (dp_persist C E s) f))"
proof (rule and_then_inv [where P = dp_inv])
  show "dp_inv (fst (dp_persist C E s))" using assms(1) by simp
  show "dp_inv (fst (f s' v))" if "dp_persist C E s = (s', Inr v)" for s' v
    using assms persist_invD [OF that] by (cases v) simp
qed

lemma inv_ensure:
  assumes "dp_inv s" "\<And>s'. dp_inv s' \<Longrightarrow> dp_inv (fst (f s' ()))"
  shows "dp_inv (fst (and_then (ensure_passt E s prt ip pub) f))"
proof (rule and_then_inv [where P = dp_inv])
  show i: "dp_inv (fst (ensure_passt E s prt ip pub))" using assms(1) by (rule ensure_passt_inv)
  show "dp_inv (fst (f s' v))" if "ensure_passt E s prt ip pub = (s', Inr v)" for s' v
    using assms(2) [of s'] i that by (cases v) simp
qed

lemma inv_case_option:
  "(x = None \<Longrightarrow> dp_inv (fst a)) \<Longrightarrow> (\<And>v. x = Some v \<Longrightarrow> dp_inv (fst (b v))) \<Longrightarrow>
     dp_inv (fst (case x of None \<Rightarrow> a | Some v \<Rightarrow> b v))"
  by (cases x) auto

lemmas inv_rules = inv_try inv_persist inv_ensure inv_case_option

lemma dp_create_network_inv:
  assumes i: "dp_inv s"
  shows "dp_inv (fst (dp_create_network J C E s p))"
proof -
  have "dp_inv (s\<lparr>in_gateway := gateway_add_network (in_gateway s) net,
      in_networks := bm_insert nm \<lparr>ne_ipam = ipam_new net, ne_created_with = v\<rparr> (in_networks s)\<rparr>)"
    if "build_network nm c g a b = Inr net" for nm c g a b net v
    using i nets_ok_add [OF dp_invD(1) [OF i]] build_network_ok [OF that] by (simp add: dp_inv_def)
  then show ?thesis
    unfolding dp_create_network_def by (intro inv_rules i) (simp_all add: i)
qed

lemma dp_delete_network_inv:
  assumes i: "dp_inv s"
  shows "dp_inv (fst (dp_delete_network J C E s p))"
  unfolding dp_delete_network_def Let_def
  by (intro inv_rules i) (use i in \<open>auto simp: dp_inv_def intro: nets_ok_remove\<close>)

lemma dp_reads_inv [simp]: "fst (dp_get_network J s p) = s" "fst (dp_get_port J s p) = s"
  by (simp_all add: dp_get_network_def dp_get_port_def try_in_def split: sum.splits)

lemma dp_create_port_inv:
  assumes i: "dp_inv s"
  shows "dp_inv (fst (dp_create_port J C E s p))"
proof -
  have new: "dp_inv (s\<lparr>in_next_port_id := k, in_switch := switch_add_port (in_switch s) q [],
      in_names := bm_insert r nm (in_names s), in_ports := bm_insert nm \<lparr>lp_id = r, lp_network = None,
        lp_mac = None, lp_vhost = length (w_vhosts (dp_world s))\<rparr> (in_ports s), dp_world := w\<rparr>)"
    if "map_of (in_ports s) nm = None" "w_vhosts w = w_vhosts (dp_world s) @ [v]" "vo_open v" for k q r nm w v
    using i that lports_ok_new by (simp add: dp_inv_def)
  show ?thesis
    unfolding dp_create_port_def Let_def
    by (intro inv_try i) (use i in \<open>auto intro!: inv_persist new simp: world_bind_def\<close>, auto simp: dp_inv_def)
qed

lemma dp_release_quiet_fields [simp]:
  "in_ports (dp_release_quiet s lp) = in_ports s" "in_names (dp_release_quiet s lp) = in_names s"
  "in_switch (dp_release_quiet s lp) = in_switch s" "in_gateway (dp_release_quiet s lp) = in_gateway s"
  "in_passts (dp_release_quiet s lp) = in_passts s" "in_publish_table (dp_release_quiet s lp) = in_publish_table s"
  "in_next_port_id (dp_release_quiet s lp) = in_next_port_id s" "dp_world (dp_release_quiet s lp) = dp_world s"
  "dp_socket_dir (dp_release_quiet s lp) = dp_socket_dir s" "dp_poisoned (dp_release_quiet s lp) = dp_poisoned s"
  by (simp_all add: dp_release_quiet_def split: option.splits)

lemma dp_release_quiet_nets:
  "nets_ok (in_networks s) gw \<Longrightarrow> nets_ok (in_networks (dp_release_quiet s lp)) gw"
  by (auto simp: dp_release_quiet_def intro: nets_ok_release split: option.splits)

lemma table_ok_remove_port: "table_ok t \<Longrightarrow> table_ok (fst (pt_remove_port t nm))"
  using pt_remove_inv(2) by (simp add: table_ok_def)

lemma dp_delete_port_inv:
  assumes i: "dp_inv s"
  shows "dp_inv (fst (dp_delete_port J C E s p))"
proof -
  have nets: "nets_ok (in_networks (dp_release_quiet (s\<lparr>in_ports := m\<rparr>) lp)) (in_gateway s)" for m lp
    using i dp_release_quiet_nets [of "s\<lparr>in_ports := m\<rparr>"] by (simp add: dp_inv_def)
  show ?thesis
    unfolding dp_delete_port_def Let_def
    by (intro inv_rules i)
      (use i nets in \<open>auto simp: dp_inv_def lports_ok_remove table_ok_remove_port teardown_slots\<close>)
qed

lemma dp_attach_port_inv:
  assumes i: "dp_inv s"
  shows "dp_inv (fst (dp_attach_port J C E s p))"
proof -
  have nets: "dp_inv (s\<lparr>in_networks := bm_insert net (e\<lparr>ne_ipam := a\<rparr>) (in_networks s)\<rparr>)"
    if "map_of (in_networks s) net = Some e" "ipam_allocate (ne_ipam e) mac = (a, r)" for net e mac a r
    using i nets_ok_allocate [OF dp_invD(1) [OF i] that] by (simp add: dp_inv_def)
  have att: "dp_inv (s'\<lparr>in_ports := bm_insert nm (lp\<lparr>lp_network := Some net, lp_mac := Some mac\<rparr>) (in_ports s'),
      in_switch := switch_add_port (in_switch s') q net, in_gateway := gateway_add_port (in_gateway s') q net,
      dp_world := world_set_mac (lp_vhost lp) (mac_octets mac) (dp_world s')\<rparr>)"
    if "dp_inv s'" "map_of (in_ports s') nm = Some lp" for s' :: "'a dataplane" and nm lp net mac q
    using that by (auto simp: dp_inv_def world_set_mac_def intro!: lports_ok_vhost intro: lports_ok_update)
  have alloc: "dp_inv (fst (case ipam_allocate (ne_ipam e) mac of
           (a, r) \<Rightarrow>
             let s1 = s\<lparr>in_networks := bm_insert net (e\<lparr>ne_ipam := a\<rparr>) (in_networks s)\<rparr> in
             (case r of
                Inl err \<Rightarrow> (s1, Inl (dp_ipam_err err))
              | Inr _ \<Rightarrow>
                  let s2 = s1\<lparr>in_ports := bm_insert nm (lp\<lparr>lp_network := Some net, lp_mac := Some mac\<rparr>) (in_ports s1),
                             in_switch := switch_add_port (in_switch s1) (PortId (lp_id lp)) net,
                             in_gateway := gateway_add_port (in_gateway s1) (PortId (lp_id lp)) net,
                             dp_world := world_set_mac (lp_vhost lp) (mac_octets mac) (dp_world s1)\<rparr>
                  in try_in s2 (ok_or NotFound (ipam_lookup a mac)) (\<lambda>ip.
                       and_then (ensure_passt E s2 nm (show_ip ip) []) (\<lambda>s3 _.
                       and_then (dp_persist C E s3) (\<lambda>s4 _. (s4, Inr (jn_null J))))))))"
    if "map_of (in_networks s) net = Some e" "map_of (in_ports s) nm = Some lp" for net e nm lp mac
  proof -
    obtain a r where a: "ipam_allocate (ne_ipam e) mac = (a, r)" by (cases "ipam_allocate (ne_ipam e) mac")
    note n = nets [OF that(1) a]
    show ?thesis
    proof (cases r)
      case (Inr ip)
      show ?thesis
        unfolding Let_def a prod.case Inr sum.case
        by (intro inv_rules att n) (simp_all add: that(2))
    qed (use n a in simp)
  qed
  show ?thesis
    unfolding dp_attach_port_def by (intro inv_try i) (use i alloc in \<open>auto intro!: inv_try\<close>)
qed

lemma dp_release_attached_inv: "dp_inv s \<Longrightarrow> dp_inv (fst (dp_release_attached s lp))"
proof -
  assume i: "dp_inv s"
  have "dp_inv (s\<lparr>in_networks := bm_insert net (e\<lparr>ne_ipam := fst (ipam_release (ne_ipam e) mac)\<rparr>) (in_networks s)\<rparr>)"
    if "map_of (in_networks s) net = Some e" for net e mac
    using i nets_ok_release [OF dp_invD(1) [OF i] that] by (simp add: dp_inv_def)
  then show ?thesis
    unfolding dp_release_attached_def
    by (cases "lp_network lp"; cases "lp_mac lp") (auto simp: case_prod_unfold i intro!: inv_try)
qed

lemma inv_release:
  assumes "dp_inv s" "\<And>s'. dp_inv s' \<Longrightarrow> dp_inv (fst (f s' ()))"
  shows "dp_inv (fst (and_then (dp_release_attached s lp) f))"
proof (rule and_then_inv [where P = dp_inv])
  show i: "dp_inv (fst (dp_release_attached s lp))" using assms(1) by (rule dp_release_attached_inv)
  show "dp_inv (fst (f s' v))" if "dp_release_attached s lp = (s', Inr v)" for s' v
    using assms(2) [of s'] i that by (cases v) simp
qed

lemma dp_detach_port_inv:
  assumes i: "dp_inv s"
  shows "dp_inv (fst (dp_detach_port J C E s p))"
proof -
  have "dp_inv (s\<lparr>in_ports := bm_insert nm (lp\<lparr>lp_network := None, lp_mac := None\<rparr>) (in_ports s),
      in_gateway := fst (gateway_remove_port (in_gateway s) q), in_switch := fst (switch_remove_port (in_switch s) q)\<rparr>)"
    if "map_of (in_ports s) nm = Some lp" for nm lp q
    using i that by (auto simp: dp_inv_def intro: lports_ok_update)
  then show ?thesis
    unfolding dp_detach_port_def Let_def
    by (intro inv_try inv_release inv_persist i) (simp_all add: dp_inv_def table_ok_remove_port teardown_slots)
qed

lemma dp_ip_ops_inv:
  assumes i: "dp_inv s"
  shows "dp_inv (fst (dp_allocate_ip J s p))" "dp_inv (fst (dp_release_ip J C E s p))"
proof -
  have a: "dp_inv (s\<lparr>in_networks := bm_insert net (e\<lparr>ne_ipam := a\<rparr>) (in_networks s)\<rparr>)"
    if "map_of (in_networks s) net = Some e" "ipam_allocate (ne_ipam e) mac = (a, r)" for net e mac a r
    using i nets_ok_allocate [OF dp_invD(1) [OF i] that] by (simp add: dp_inv_def)
  then show "dp_inv (fst (dp_allocate_ip J s p))"
    unfolding dp_allocate_ip_def by (intro inv_try i) (auto split: prod.splits)
  have r: "dp_inv (s\<lparr>in_networks := bm_insert net (e\<lparr>ne_ipam := a\<rparr>) (in_networks s)\<rparr>)"
    if "map_of (in_networks s) net = Some e" "ipam_release (ne_ipam e) mac = (a, r)" for net e mac a r
    using i nets_ok_release [OF dp_invD(1) [OF i] that(1), of mac] that(2) by (simp add: dp_inv_def)
  show "dp_inv (fst (dp_release_ip J C E s p))"
    unfolding dp_release_ip_def Let_def
    by (intro inv_try i) (auto split: prod.splits sum.splits ipam_error.splits intro!: inv_persist r)
qed

lemma dp_sync_passt_inv: "dp_inv s \<Longrightarrow> dp_inv (fst (dp_sync_passt E s nm))"
  unfolding dp_sync_passt_def by (intro inv_try ensure_passt_inv)

lemma inv_sync:
  assumes "dp_inv s" "\<And>s'. dp_inv s' \<Longrightarrow> dp_inv (fst (f s' ()))"
  shows "dp_inv (fst (and_then (dp_sync_passt E s nm) f))"
proof (rule and_then_inv [where P = dp_inv])
  show i: "dp_inv (fst (dp_sync_passt E s nm))" using assms(1) by (rule dp_sync_passt_inv)
  show "dp_inv (fst (f s' v))" if "dp_sync_passt E s nm = (s', Inr v)" for s' v
    using assms(2) [of s'] i that by (cases v) simp
qed

lemma dp_publish_port_inv:
  assumes i: "dp_inv s"
  shows "dp_inv (fst (dp_publish_port J C E s p))"
proof -
  have t: "dp_inv (s\<lparr>in_publish_table := tbl\<rparr>)"
    if "dp_publish_alloc s nm v = (tbl, r)" for nm v tbl r
    using i that pt_allocate_inv [of "in_publish_table s" nm v "in_publish_range s"]
    by (auto simp: dp_inv_def table_ok_def dp_publish_alloc_def split: option.splits)
  have "dp_inv (fst (case dp_publish_alloc s nm v of
              (tbl, None) \<Rightarrow> (s\<lparr>in_publish_table := tbl\<rparr>, Inl Conflict)
            | (tbl, Some host) \<Rightarrow>
                and_then (dp_persist C E (s\<lparr>in_publish_table := tbl\<rparr>)) (\<lambda>s1 _.
                and_then (dp_sync_passt E s1 nm) (\<lambda>s2 _.
                  (s2, Inr (jn_object J [(''host_port'', jn_number J (ucast host))]))))))"
    for nm v
  proof -
    obtain tbl r where a: "dp_publish_alloc s nm v = (tbl, r)" by (cases "dp_publish_alloc s nm v")
    show ?thesis
    proof (cases r)
      case (Some host)
      show ?thesis unfolding a Some prod.case option.case by (intro inv_persist inv_sync t [OF a]) simp_all
    qed (use t [OF a] a in simp)
  qed
  then show ?thesis
    unfolding dp_publish_port_def by (intro inv_try i) (simp add: i)
qed

lemma dp_unpublish_port_inv:
  assumes i: "dp_inv s"
  shows "dp_inv (fst (dp_unpublish_port J C E s p))"
proof -
  have t: "dp_inv (s\<lparr>in_publish_table := tbl\<rparr>)" if "pt_remove (in_publish_table s) nm v = (tbl, r)" for nm v tbl r
    using i that pt_remove_inv(1) [of "in_publish_table s" nm v] by (auto simp: dp_inv_def table_ok_def)
  have "dp_inv (fst (case pt_remove (in_publish_table s) nm v of
         (tbl, None) \<Rightarrow> (s\<lparr>in_publish_table := tbl\<rparr>, Inl NotFound)
       | (tbl, Some _) \<Rightarrow>
           and_then (dp_persist C E (s\<lparr>in_publish_table := tbl\<rparr>)) (\<lambda>s1 _.
             if (case map_of (pt_entries (in_publish_table s1)) nm of None \<Rightarrow> [] | Some m \<Rightarrow> m) = []
             then (teardown_passt s1 nm, Inr (jn_null J))
             else and_then (dp_sync_passt E s1 nm) (\<lambda>s2 _. (s2, Inr (jn_null J))))))"
    for nm v
  proof -
    obtain tbl r where a: "pt_remove (in_publish_table s) nm v = (tbl, r)" by (cases "pt_remove (in_publish_table s) nm v")
    show ?thesis
    proof (cases r)
      case (Some host)
      show ?thesis unfolding a Some prod.case option.case
        by (intro inv_persist t [OF a]) (auto intro!: inv_sync teardown_inv)
    qed (use t [OF a] a in simp)
  qed
  then show ?thesis
    unfolding dp_unpublish_port_def by (intro inv_try i)
qed

text \<open>The dataplane is an implementation of the control plane.\<close>

interpretation dpl: control_plane_impl "dp_control_plane J C E" dp_inv for J :: "'v json_api" and C E
proof
  fix m :: string and f :: "('v dataplane, 'v) cp_op" and s :: "'v dataplane" and p :: 'v
  assume "(m, f) \<in> set (cp_methods (dp_control_plane J C E))" and i: "dp_inv s"
  then show "dp_inv (fst (f s p))"
    using dp_create_network_inv [OF i] dp_delete_network_inv [OF i] dp_create_port_inv [OF i] dp_delete_port_inv [OF i]
      dp_attach_port_inv [OF i] dp_detach_port_inv [OF i] dp_ip_ops_inv [OF i] dp_publish_port_inv [OF i]
      dp_unpublish_port_inv [OF i]
    by (auto simp: cp_methods_def dp_control_plane_def)
qed

section \<open>Frames, supervision and WAN ingress\<close>

lemma world_inject_vhosts:
  "w_vhosts (world_inject h f w) =
     (if vo_open (w_vhosts w ! h)
      then (w_vhosts w)[h := (w_vhosts w ! h)\<lparr>vo_inbox := vo_inbox (w_vhosts w ! h) @ [f],
        vo_kicks := Suc (vo_kicks (w_vhosts w ! h))\<rparr>]
      else w_vhosts w)"
  by (simp add: world_inject_def Let_def)

lemma inject_to_fields [simp]:
  "in_networks (fst (inject_to s p f)) = in_networks s" "in_ports (fst (inject_to s p f)) = in_ports s"
  "in_names (fst (inject_to s p f)) = in_names s" "in_next_port_id (fst (inject_to s p f)) = in_next_port_id s"
  "in_switch (fst (inject_to s p f)) = in_switch s" "in_gateway (fst (inject_to s p f)) = in_gateway s"
  "in_passts (fst (inject_to s p f)) = in_passts s" "in_publish_table (fst (inject_to s p f)) = in_publish_table s"
  "dp_poisoned (fst (inject_to s p f)) = dp_poisoned s"
  by (simp_all add: inject_to_def split: option.splits)

lemma lports_ok_inject: "lports_ok ports (w_vhosts w) \<Longrightarrow> lports_ok ports (w_vhosts (world_inject h f w))"
  by (simp add: world_inject_vhosts lports_ok_vhost)

lemma inject_to_inv: "dp_inv s \<Longrightarrow> dp_inv (fst (inject_to s p f))"
  by (auto simp: dp_inv_def inject_to_def lports_ok_inject split: option.splits)

lemma passt_egress_inv: "dp_inv s \<Longrightarrow> dp_inv (passt_egress E s p f)"
  by (simp add: dp_inv_def passt_egress_def Let_def split: option.splits)

lemma inject_all_inv: "dp_inv s \<Longrightarrow> dp_inv (fold (\<lambda>(peer, f) st. fst (inject_to st peer f)) targets s)"
  by (induction targets arbitrary: s) (auto intro: inject_to_inv)

lemma pump_switch_inv:
  assumes "dp_inv s"
  shows "dp_inv (pump_switch s me f)"
proof -
  have "switch_inv (fst (switch_forward (in_switch s) (PortId me) f))"
    using assms switch_forward_inv by (simp add: dp_inv_def)
  then have "dp_inv (s\<lparr>in_switch := fst (switch_forward (in_switch s) (PortId me) f)\<rparr>)"
    using assms by (simp add: dp_inv_def)
  then show ?thesis by (simp add: pump_switch_def case_prod_unfold Let_def inject_all_inv [unfolded case_prod_unfold])
qed

lemma poison_inv [simp]: "dp_inv (s\<lparr>dp_poisoned := b\<rparr>) = dp_inv s"
  by (simp add: dp_inv_def)

lemma pump_frame_inv: "dp_inv s \<Longrightarrow> dp_inv (pump_frame D N E s name me f)"
  unfolding pump_frame_def Let_def
  by (simp add: inject_to_inv passt_egress_inv pump_switch_inv split: outcome.split option.split)

lemma detect_exit_facts:
  assumes "detect_exit E w sl = (w', sl')" "slot_ok sl"
  shows "slot_ok sl'" "w_vhosts w' = w_vhosts w"
  using assms by (auto simp: detect_exit_def slot_ok_def split: option.splits if_splits)

lemma supervise_inv:
  assumes i: "dp_inv s"
  shows "dp_inv (supervise_passt E s p)"
proof (cases "map_of (in_passts s) p")
  case (Some sl)
  have sl: "slot_ok sl" using dp_invD(4) [OF i] Some by (simp add: slots_ok_def)
  obtain w1 sl1 where d: "detect_exit E (dp_world s) sl = (w1, sl1)" by (cases "detect_exit E (dp_world s) sl")
  note f = detect_exit_facts [OF d sl]
  show ?thesis
  proof (cases "ps_live sl1 = None \<and> (case ps_next_retry sl1 of None \<Rightarrow> True | Some t \<Rightarrow> t \<le> os_now E (w_tick w1))")
    case True
    obtain w2 sl2 ok where sp: "spawn_into E w1 sl1 = (w2, sl2, ok)" by (cases "spawn_into E w1 sl1")
    note g = spawn_into_facts [OF sp]
    have "supervise_passt E s p = s\<lparr>in_passts := bm_insert p sl2 (in_passts s), dp_world := w2\<rparr>"
      using Some d sp True by (simp add: supervise_passt_def Let_def)
    then show ?thesis using True f g i by (simp add: dp_inv_slots slots_ok_insert dp_invD(4))
  next
    case False
    then have "supervise_passt E s p = s\<lparr>in_passts := bm_insert p sl1 (in_passts s), dp_world := w1\<rparr>"
      using Some d by (auto simp: supervise_passt_def Let_def)
    then show ?thesis using f i by (simp add: dp_inv_slots slots_ok_insert dp_invD(4))
  qed
qed (simp add: supervise_passt_def i)

lemma ingress_frame_inv: "dp_inv s \<Longrightarrow> dp_inv (fst (ingress_frame s name h payload))"
proof -
  assume i: "dp_inv s"
  have "dp_inv (s\<lparr>in_passts := bm_insert name (sl\<lparr>ps_mac := m\<rparr>) (in_passts s)\<rparr>)" if "map_of (in_passts s) name = Some sl" for sl m
    using i slots_ok_insert [OF dp_invD(4) [OF i]] slots_okD [OF dp_invD(4) [OF i] that] by (simp add: dp_inv_def)
  moreover have "dp_inv s' \<Longrightarrow> dp_inv (s'\<lparr>dp_world := world_inject h payload (dp_world s')\<rparr>)" for s' :: "'a dataplane"
    by (simp add: dp_inv_def lports_ok_inject)
  ultimately show ?thesis using i unfolding ingress_frame_def Let_def by (simp split: option.split)
qed

text \<open>What every ingress frame keeps, a turn of the reader keeps.\<close>

lemma ingress_drain_keeps:
  assumes "\<And>s payload. P s \<Longrightarrow> P (fst (ingress_frame s name h payload))"
  shows "P s \<Longrightarrow> P (fst (ingress_drain s name h pending))"
proof (induction "length pending" arbitrary: s pending rule: less_induct)
  case less
  show ?case
  proof (cases "next_frame pending")
    case None
    then show ?thesis using less.prems by (subst ingress_drain.simps) simp
  next
    case (Some cp)
    obtain c payload where cp: "cp = (c, payload)" by (cases cp)
    obtain s' st where f: "ingress_frame s name h payload = (s', st)" by (cases "ingress_frame s name h payload")
    have "P s'" using assms [OF less.prems, of payload] f by simp
    moreover have "length (drop c pending) < length pending" using next_frame_consumes Some cp by fastforce
    ultimately have "P (fst (ingress_drain s' name h (drop c pending)))" "P s'" using less.hyps by blast+
    then show ?thesis using Some cp f by (subst ingress_drain.simps) (cases st; simp)
  qed
qed

lemma read_turn_keeps:
  assumes "\<And>s payload. P s \<Longrightarrow> P (fst (ingress_frame s name h payload))"
  shows "P s \<Longrightarrow> P (fst (read_turn name h ev (s, pending)))"
  using ingress_drain_keeps [of P name h s, OF assms]
  by (cases ev) (auto simp: read_turn_def split: prod.splits reader_status.splits, (metis fst_conv)+)

lemma read_turn_inv: "dp_inv s \<Longrightarrow> dp_inv (fst (read_turn name h ev (s, pending)))"
  using ingress_frame_inv by (rule read_turn_keeps)

lemma reader_retire_inv: "dp_inv s \<Longrightarrow> dp_inv (reader_retire s name h)"
proof -
  assume i: "dp_inv s"
  show ?thesis
  proof (cases "\<forall>lp \<in> snd ` set (in_ports s). lp_vhost lp \<noteq> h")
    case True
    have "h \<noteq> lp_vhost lp" if "map_of (in_ports s) nm = Some lp" for nm lp
      using True map_of_SomeD [OF that] by force
    then have "lports_ok (in_ports s) ((w_vhosts (dp_world s))[h := v])" for v
      using dp_invD(2) [OF i] by (auto simp: lports_ok_def live_port_ok_def)
    then show ?thesis using i True by (simp add: reader_retire_def Let_def dp_inv_def)
  qed (use i in \<open>auto simp: reader_retire_def Let_def dp_inv_def\<close>)
qed

end
