(* ===== verification/Dataplane_Topo.thy ===== *)
theory Dataplane_Topo
  imports Dataplane_Inv
begin

text \<open>
  The topology invariant: port names, switch ids, switch membership and gateway membership stay
  in step. It holds as long as the 32-bit port counter has not wrapped around, that is for the
  first \<open>2 ^ 32 - 1\<close> ports created.
\<close>

section \<open>The topology\<close>

type_synonym topology =
  "(string, live_port) btree_map \<times> (u32, string) btree_map \<times> (port_id, string) hash_map \<times> (port_id, string) hash_map \<times> u32"

definition topo_view :: "'v dataplane \<Rightarrow> topology" where
  "topo_view s = (in_ports s, in_names s, sw_ports (in_switch s), gw_ports (in_gateway s), in_next_port_id s)"

text \<open>
  An attached port is in its network's segment on both tables; an unattached one is in none or in
  the unnamed one that port creation puts it into.
\<close>

definition port_placed :: "(port_id, string) hash_map \<Rightarrow> (port_id, string) hash_map \<Rightarrow> live_port \<Rightarrow> bool" where
  "port_placed sw gw lp =
     (case lp_network lp of
        Some n \<Rightarrow> n \<noteq> [] \<and> map_of sw (PortId (lp_id lp)) = Some n \<and> map_of gw (PortId (lp_id lp)) = Some n
      | None \<Rightarrow> (map_of sw (PortId (lp_id lp)) = None \<or> map_of sw (PortId (lp_id lp)) = Some [])
          \<and> map_of gw (PortId (lp_id lp)) = None)"

definition topo_ok :: "topology \<Rightarrow> bool" where
  "topo_ok V =
     (case V of (ports, names, sw, gw, nxt) \<Rightarrow>
        (\<forall>nm lp. map_of ports nm = Some lp \<longrightarrow>
           lp_id lp < nxt \<and> map_of names (lp_id lp) = Some nm \<and> port_placed sw gw lp)
      \<and> (\<forall>i nm. map_of names i = Some nm \<longrightarrow> (\<exists>lp. map_of ports nm = Some lp \<and> lp_id lp = i))
      \<and> (\<forall>i. map_of names i = None \<longrightarrow> map_of sw (PortId i) = None \<and> map_of gw (PortId i) = None))"

lemma topo_okD:
  assumes "topo_ok (ports, names, sw, gw, nxt)"
  shows "map_of ports nm = Some lp \<Longrightarrow> lp_id lp < nxt" "map_of ports nm = Some lp \<Longrightarrow> map_of names (lp_id lp) = Some nm"
    "map_of ports nm = Some lp \<Longrightarrow> port_placed sw gw lp"
    "map_of names i = Some nm \<Longrightarrow> \<exists>lp. map_of ports nm = Some lp \<and> lp_id lp = i"
    "map_of names i = None \<Longrightarrow> map_of sw (PortId i) = None"
    "map_of names i = None \<Longrightarrow> map_of gw (PortId i) = None"
  using assms unfolding topo_ok_def by auto

lemma topo_id_inj:
  "topo_ok (ports, names, sw, gw, nxt) \<Longrightarrow> map_of ports nm = Some lp \<Longrightarrow> map_of ports nm' = Some lp' \<Longrightarrow>
     lp_id lp = lp_id lp' \<Longrightarrow> nm = nm'"
  using topo_okD(2) by (metis option.inject)

lemma port_placed_other:
  "lp_id lp \<noteq> i \<Longrightarrow> port_placed (hm_insert (PortId i) n sw) gw lp = port_placed sw gw lp"
  "lp_id lp \<noteq> i \<Longrightarrow> port_placed sw (hm_insert (PortId i) n gw) lp = port_placed sw gw lp"
  "lp_id lp \<noteq> i \<Longrightarrow> port_placed (hm_remove (PortId i) sw) gw lp = port_placed sw gw lp"
  "lp_id lp \<noteq> i \<Longrightarrow> port_placed sw (hm_remove (PortId i) gw) lp = port_placed sw gw lp"
  by (auto simp: port_placed_def split: option.splits)

lemma next_id_grows:
  assumes "nxt \<noteq> (- 1 :: u32)"
  shows "unat (nxt + 1) = Suc (unat nxt)" "nxt < nxt + 1" "i < nxt \<Longrightarrow> i < nxt + 1"
proof -
  have "nxt + 1 \<noteq> 0" using assms by (metis add.inverse_unique add.commute minus_equation_iff)
  then show u: "unat (nxt + 1) = Suc (unat nxt)" using unatSuc [of nxt] by (simp add: add.commute)
  show "nxt < nxt + 1" "i < nxt \<Longrightarrow> i < nxt + 1" by (simp_all only: word_less_nat_alt u)
qed

section \<open>The four updates\<close>

lemma topo_new:
  assumes t: "topo_ok (ports, names, sw, gw, nxt)" and "nxt \<noteq> - 1" "map_of ports nm = None"
  shows "topo_ok (bm_insert nm \<lparr>lp_id = nxt, lp_network = None, lp_mac = None, lp_vhost = h\<rparr> ports,
    bm_insert nxt nm names, hm_insert (PortId nxt) [] sw, gw, nxt + 1)"
proof -
  have none: "map_of names nxt = None"
  proof (rule ccontr)
    assume "map_of names nxt \<noteq> None"
    then obtain q where "map_of names nxt = Some q" by auto
    then obtain lp where "map_of ports q = Some lp" "lp_id lp = nxt" using topo_okD(4) [OF t] by blast
    then show False using topo_okD(1) [OF t] by fastforce
  qed
  have ne: "lp_id lp \<noteq> nxt" if "map_of ports q = Some lp" for q lp using topo_okD(1) [OF t that] by auto
  have p: "port_placed (hm_insert (PortId nxt) [] sw) gw \<lparr>lp_id = nxt, lp_network = None, lp_mac = None, lp_vhost = h\<rparr>"
    using topo_okD(6) [OF t none] by (simp add: port_placed_def)
  show ?thesis
    using p ne next_id_grows [OF assms(2)] topo_okD [OF t] assms(3)
    unfolding topo_ok_def by (auto simp: port_placed_other) (metis option.distinct(1))+
qed

lemma topo_remove:
  assumes t: "topo_ok (ports, names, sw, gw, nxt)" and wf: "bm_wf ports" "bm_wf names" and lp: "map_of ports nm = Some lp"
  shows "topo_ok (bm_remove nm ports, bm_remove (lp_id lp) names, hm_remove (PortId (lp_id lp)) sw,
    hm_remove (PortId (lp_id lp)) gw, nxt)"
proof -
  have "lp_id lp' \<noteq> lp_id lp" if "map_of ports q = Some lp'" "q \<noteq> nm" for q lp'
    using topo_id_inj [OF t that(1) lp] that(2) by auto
  moreover have "q \<noteq> nm" if "map_of names i = Some q" "i \<noteq> lp_id lp" for i q
    using topo_okD(4) [OF t that(1)] lp that(2) by auto
  ultimately show ?thesis
    using topo_okD [OF t] wf unfolding topo_ok_def by (auto simp: port_placed_other)
qed

lemma topo_place:
  assumes t: "topo_ok (ports, names, sw, gw, nxt)" and lp: "map_of ports nm = Some lp"
    and lp': "lp_id lp' = lp_id lp" "port_placed sw' gw' lp'"
    and oth: "\<And>l. lp_id l \<noteq> lp_id lp \<Longrightarrow> port_placed sw' gw' l = port_placed sw gw l"
      "\<And>i. i \<noteq> lp_id lp \<Longrightarrow> map_of sw' (PortId i) = map_of sw (PortId i) \<and> map_of gw' (PortId i) = map_of gw (PortId i)"
  shows "topo_ok (bm_insert nm lp' ports, names, sw', gw', nxt)"
proof -
  have "lp_id l \<noteq> lp_id lp" if "map_of ports q = Some l" "q \<noteq> nm" for q l
    using topo_id_inj [OF t that(1) lp] that(2) by auto
  moreover have "i \<noteq> lp_id lp" if "map_of names i = None" for i using topo_okD(2) [OF t lp] that by auto
  ultimately show ?thesis
    using topo_okD [OF t] lp lp' oth unfolding topo_ok_def by auto (metis option.inject)
qed

section \<open>What the operations do to the topology\<close>

lemma topo_view_simps [simp]:
  "topo_view (fst (dp_persist C E s)) = topo_view s" "topo_view (fst (ensure_passt E s prt ip pub)) = topo_view s"
  "topo_view (teardown_passt s prt) = topo_view s" "topo_view (s\<lparr>dp_world := w\<rparr>) = topo_view s"
  "topo_view (s\<lparr>in_networks := n\<rparr>) = topo_view s" "topo_view (s\<lparr>in_publish_table := t\<rparr>) = topo_view s"
  "topo_view (s\<lparr>in_passts := m\<rparr>) = topo_view s" "topo_view (s\<lparr>dp_poisoned := b\<rparr>) = topo_view s"
  "topo_view (fst (inject_to s p f)) = topo_view s"
  by (simp_all add: topo_view_def)

lemma view_try: "topo_view s = V \<Longrightarrow> (\<And>v. r = Inr v \<Longrightarrow> topo_view (fst (f v)) = V) \<Longrightarrow> topo_view (fst (try_in s r f)) = V"
  by (cases r) simp_all

lemma view_then:
  "topo_view (fst m) = V \<Longrightarrow> (\<And>s' v. topo_view s' = V \<Longrightarrow> topo_view (fst (f s' v)) = V) \<Longrightarrow>
     topo_view (fst (and_then m f)) = V"
  by (auto simp: and_then_def split: prod.splits sum.splits)

lemma topo_view_sync [simp]: "topo_view (fst (dp_sync_passt E s nm)) = topo_view s"
  unfolding dp_sync_passt_def by (intro view_try) simp_all

lemma topo_view_release [simp]:
  "topo_view (dp_release_quiet s lp) = topo_view s" "topo_view (fst (dp_release_attached s lp)) = topo_view s"
  by (auto simp: dp_release_quiet_def dp_release_attached_def try_in_def split: option.splits sum.splits prod.splits)

lemma gw_ports_networks [simp]:
  "gw_ports (gateway_add_network g n) = gw_ports g" "gw_ports (fst (gateway_remove_network g nm)) = gw_ports g"
  by (simp_all add: gateway_add_network_def gateway_remove_network_def)

lemma topo_view_networks [simp]:
  "gw_ports g = gw_ports (in_gateway s) \<Longrightarrow> topo_view (s\<lparr>in_gateway := g, in_networks := n\<rparr>) = topo_view s"
  "gw_ports g = gw_ports (in_gateway s) \<Longrightarrow> topo_view (s\<lparr>in_gateway := g\<rparr>) = topo_view s"
  by (simp_all add: topo_view_def)

lemma view_create_network: "topo_view (fst (dp_create_network J C E s p)) = topo_view s"
  unfolding dp_create_network_def by (intro view_try) (auto intro!: view_try view_then split: option.split)

lemma view_delete_network: "topo_view (fst (dp_delete_network J C E s p)) = topo_view s"
  unfolding dp_delete_network_def Let_def by (intro view_try) (auto intro!: view_then split: option.split)

lemma view_ip_ops:
  "topo_view (fst (dp_allocate_ip J s p)) = topo_view s" "topo_view (fst (dp_release_ip J C E s p)) = topo_view s"
  unfolding dp_allocate_ip_def dp_release_ip_def Let_def
  by (intro view_try; auto intro!: view_then split: prod.split sum.split ipam_error.split)+

lemma view_publish_ops:
  "topo_view (fst (dp_publish_port J C E s p)) = topo_view s" "topo_view (fst (dp_unpublish_port J C E s p)) = topo_view s"
  unfolding dp_publish_port_def dp_unpublish_port_def
  by (intro view_try; auto intro!: view_then split: prod.split option.split)+

lemma view_create_port:
  "topo_view (fst (dp_create_port J C E s p)) = topo_view s
   \<or> (\<exists>nm h. map_of (in_ports s) nm = None \<and> topo_view (fst (dp_create_port J C E s p)) =
        (bm_insert nm \<lparr>lp_id = in_next_port_id s, lp_network = None, lp_mac = None, lp_vhost = h\<rparr> (in_ports s),
         bm_insert (in_next_port_id s) nm (in_names s), hm_insert (PortId (in_next_port_id s)) [] (sw_ports (in_switch s)),
         gw_ports (in_gateway s), in_next_port_id s + 1))"
proof (cases "str_p J p ''name''")
  case (Inr nm)
  let ?new = "\<lparr>lp_id = in_next_port_id s, lp_network = None, lp_mac = None, lp_vhost = length (w_vhosts (dp_world s))\<rparr>"
  have "topo_view (fst (and_then (dp_persist C E (s\<lparr>in_next_port_id := in_next_port_id s + 1,
      in_switch := switch_add_port (in_switch s) (PortId (in_next_port_id s)) [],
      in_names := bm_insert (in_next_port_id s) nm (in_names s), in_ports := bm_insert nm ?new (in_ports s), dp_world := w\<rparr>))
      (\<lambda>s' _. (s', Inr (jn_null J))))) =
      (bm_insert nm ?new (in_ports s), bm_insert (in_next_port_id s) nm (in_names s),
       hm_insert (PortId (in_next_port_id s)) [] (sw_ports (in_switch s)), gw_ports (in_gateway s), in_next_port_id s + 1)" for w
    by (intro view_then) (simp_all add: topo_view_def switch_add_port_def)
  then show ?thesis
    using Inr by (auto simp: dp_create_port_def Let_def dp_lock_def)
qed (simp add: dp_create_port_def)

lemma view_delete_port:
  "topo_view (fst (dp_delete_port J C E s p)) = topo_view s
   \<or> (\<exists>nm lp. map_of (in_ports s) nm = Some lp \<and> topo_view (fst (dp_delete_port J C E s p)) =
        (bm_remove nm (in_ports s), bm_remove (lp_id lp) (in_names s), hm_remove (PortId (lp_id lp)) (sw_ports (in_switch s)),
         hm_remove (PortId (lp_id lp)) (gw_ports (in_gateway s)), in_next_port_id s))"
proof -
  have v: "topo_view (fst (and_then (dp_persist C E s2) (\<lambda>s3 _.
      ((teardown_passt s3 nm)\<lparr>dp_world := w s3\<rparr>, Inr (jn_null J))))) = topo_view s2" for s2 nm w
    by (intro view_then) simp_all
  show ?thesis
  proof (cases "str_p J p ''name''")
    case (Inr nm)
    show ?thesis
    proof (cases "map_of (in_ports s) nm")
      case (Some lp)
      then show ?thesis
        using Inr by (auto simp: dp_delete_port_def dp_lock_def Let_def v)
          (auto simp: topo_view_def switch_remove_port_def gateway_remove_port_def)
    qed (use Inr in \<open>simp add: dp_delete_port_def dp_lock_def\<close>)
  qed (simp add: dp_delete_port_def)
qed

lemma view_attach_port:
  "topo_view (fst (dp_attach_port J C E s p)) = topo_view s
   \<or> (\<exists>nm lp net mac e. map_of (in_ports s) nm = Some lp \<and> map_of (in_networks s) net = Some e
        \<and> topo_view (fst (dp_attach_port J C E s p)) =
        (bm_insert nm (lp\<lparr>lp_network := Some net, lp_mac := Some mac\<rparr>) (in_ports s), in_names s,
         hm_insert (PortId (lp_id lp)) net (sw_ports (in_switch s)),
         hm_insert (PortId (lp_id lp)) net (gw_ports (in_gateway s)), in_next_port_id s))" (is "?same \<or> ?att")
proof -
  have v: "topo_view (fst (try_in s2 r (\<lambda>ip. and_then (ensure_passt E s2 nm (show_ip ip) []) (\<lambda>s3 _.
      and_then (dp_persist C E s3) (\<lambda>s4 _. (s4, Inr (jn_null J))))))) = topo_view s2" for s2 nm r
    by (intro view_try view_then) simp_all
  show ?thesis
  proof (cases "\<exists>nm net mac lp e i ip. str_p J p ''port'' = Inr nm \<and> str_p J p ''network'' = Inr net \<and> mac_p J p ''mac'' = Inr mac
      \<and> \<not> dp_poisoned s \<and> map_of (in_ports s) nm = Some lp \<and> lp_network lp = None
      \<and> map_of (in_networks s) net = Some e \<and> ipam_allocate (ne_ipam e) mac = (i, Inr ip)")
    case True
    then obtain nm net mac lp e i ip where c: "str_p J p ''port'' = Inr nm" "str_p J p ''network'' = Inr net"
      "mac_p J p ''mac'' = Inr mac" "\<not> dp_poisoned s" "map_of (in_ports s) nm = Some lp" "lp_network lp = None"
      "map_of (in_networks s) net = Some e" "ipam_allocate (ne_ipam e) mac = (i, Inr ip)" by blast
    have "topo_view (fst (dp_attach_port J C E s p)) =
        (bm_insert nm (lp\<lparr>lp_network := Some net, lp_mac := Some mac\<rparr>) (in_ports s), in_names s,
         hm_insert (PortId (lp_id lp)) net (sw_ports (in_switch s)),
         hm_insert (PortId (lp_id lp)) net (gw_ports (in_gateway s)), in_next_port_id s)"
      using c by (simp add: dp_attach_port_def dp_lock_def Let_def v) (simp add: topo_view_def switch_add_port_def gateway_add_port_def)
    then show ?thesis using c by blast
  next
    case False
    have "?same"
      unfolding dp_attach_port_def Let_def
      by (intro view_try) (use False in \<open>auto simp: dp_lock_def split: if_splits sum.splits prod.splits intro!: view_try\<close>)
    then show ?thesis ..
  qed
qed

lemma view_detach_port:
  "topo_view (fst (dp_detach_port J C E s p)) = topo_view s
   \<or> (\<exists>nm lp. map_of (in_ports s) nm = Some lp \<and> topo_view (fst (dp_detach_port J C E s p)) =
        (bm_insert nm (lp\<lparr>lp_network := None, lp_mac := None\<rparr>) (in_ports s), in_names s,
         hm_remove (PortId (lp_id lp)) (sw_ports (in_switch s)),
         hm_remove (PortId (lp_id lp)) (gw_ports (in_gateway s)), in_next_port_id s))"
proof -
  have v: "topo_view (fst (and_then (dp_release_attached s1 lp) (\<lambda>s2 _.
      and_then (dp_persist C E (s2\<lparr>in_publish_table := fst (pt_remove_port (in_publish_table s2) nm)\<rparr>)) (\<lambda>s3 _.
        (teardown_passt s3 nm, Inr (jn_null J)))))) = topo_view s1" for s1 lp nm
    by (intro view_then) simp_all
  show ?thesis
  proof (cases "str_p J p ''name''")
    case (Inr nm)
    show ?thesis
    proof (cases "map_of (in_ports s) nm")
      case (Some lp)
      then show ?thesis
        using Inr by (auto simp: dp_detach_port_def dp_lock_def Let_def v)
          (auto simp: topo_view_def switch_remove_port_def gateway_remove_port_def)
    qed (use Inr in \<open>auto simp: dp_detach_port_def dp_lock_def\<close>)
  qed (simp add: dp_detach_port_def)
qed

section \<open>Frames and ticks leave the topology alone\<close>

lemma inject_all_view [simp]: "topo_view (fold (\<lambda>(peer, f) st. fst (inject_to st peer f)) targets s) = topo_view s"
  by (induction targets arbitrary: s) auto

lemma view_pump_frame [simp]: "topo_view (pump_frame D N E s name me f) = topo_view s"
proof -
  have "topo_view (pump_switch s me f) = topo_view s"
    by (simp add: pump_switch_def case_prod_unfold Let_def inject_all_view [unfolded case_prod_unfold])
      (simp add: topo_view_def)
  moreover have "topo_view (passt_egress E s p g) = topo_view s" for p g
    by (simp add: passt_egress_def Let_def split: option.split)
  ultimately show ?thesis
    by (simp add: pump_frame_def Let_def split: outcome.split option.split)
qed

lemma topo_view_slots [simp]: "topo_view (s\<lparr>in_passts := m, dp_world := w\<rparr>) = topo_view s"
  by (simp add: topo_view_def)

lemma view_supervise [simp]: "topo_view (supervise_passt E s p) = topo_view s"
  by (simp add: supervise_passt_def Let_def split: option.split prod.split)

lemma view_ingress_frame [simp]: "topo_view (fst (ingress_frame s name h payload)) = topo_view s"
  by (simp add: ingress_frame_def Let_def split: option.split)

lemma view_read_turn [simp]: "topo_view (fst (read_turn name h ev (s, pending))) = topo_view s"
  by (rule read_turn_keeps [where P = "\<lambda>t. topo_view t = topo_view s"]) simp_all

lemma view_reader_retire [simp]: "topo_view (reader_retire s name h) = topo_view s"
  by (simp add: reader_retire_def Let_def)

lemma pump_turn_facts:
  "topo_view (fst (pump_turn D N E name me ev s)) = topo_view s"
  "dp_inv s \<Longrightarrow> dp_inv (fst (pump_turn D N E name me ev s))"
  by (auto simp: pump_turn_def Let_def pump_frame_inv supervise_inv split: prod.split delivery.split port_message.split)

section \<open>The daemon as a transition system\<close>

text \<open>
  One step is a whole request under the lock, one turn of a pump thread (a frame, a supervision
  tick), one read of a WAN reader thread with whatever it has buffered, or the retirement of a
  reader. Steps of different threads interleave freely.
\<close>

inductive dp_step ::
  "'v json_api \<Rightarrow> 'v snap_codec \<Rightarrow> dp_os \<Rightarrow> dhcp_codec \<Rightarrow> dns_codec \<Rightarrow> 'v dataplane \<Rightarrow> 'v dataplane \<Rightarrow> bool"
  for J C E D N where
  rpc: "(m, f) \<in> set (cp_methods (dp_control_plane J C E)) \<Longrightarrow> dp_step J C E D N s (fst (f s params))"
| pump: "(name, me) \<in> set (w_pumps (dp_world s)) \<Longrightarrow> dp_step J C E D N s (fst (pump_turn D N E name me ev s))"
| ingress: "(name, h) \<in> set (w_readers (dp_world s)) \<Longrightarrow> dp_step J C E D N s (fst (read_turn name h ev (s, pending)))"
| retire: "(name, h) \<in> set (w_readers (dp_world s)) \<Longrightarrow> reader_poll s name ok = ReaderRetires \<Longrightarrow>
     dp_step J C E D N s (reader_retire s name h)"

inductive_cases dp_stepE: "dp_step J C E D N s s'"

lemma dp_step_inv: "dp_step J C E D N s s' \<Longrightarrow> dp_inv s \<Longrightarrow> dp_inv s'"
  by (induction rule: dp_step.induct)
    (simp_all add: dpl.op_inv pump_turn_facts(2) read_turn_inv reader_retire_inv)

lemma dp_from_parts_inv: "table_ok tbl \<Longrightarrow> dp_inv (dp_from_parts dir tbl w)"
  by (simp add: dp_inv_def dp_from_parts_def nets_ok_def lports_ok_def slots_ok_def gateway_inv_def gateway_new_def)

text \<open>Every operation keeps the topology while the port counter is not at its last value.\<close>

lemma cp_op_topo:
  assumes f: "(m, f) \<in> set (cp_methods (dp_control_plane J C E))"
    and i: "dp_inv s" and t: "topo_ok (topo_view s)" and nx: "in_next_port_id s \<noteq> - 1"
  shows "topo_ok (topo_view (fst (f s p)))
    \<and> (in_next_port_id (fst (f s p)) = in_next_port_id s \<or> in_next_port_id (fst (f s p)) = in_next_port_id s + 1)"
proof -
  note t' = t [unfolded topo_view_def]
  have wf: "bm_wf (in_ports s)" "bm_wf (in_names s)" using i by (simp_all add: dp_inv_def lports_ok_def)
  have nn: "in_next_port_id s' = snd (snd (snd (snd (topo_view s'))))" for s' :: "'a dataplane" by (simp add: topo_view_def)
  have same: ?thesis if "topo_view (fst (f s p)) = topo_view s" using that t by (simp add: nn)
  have cr: "topo_ok (topo_view (fst (dp_create_port J C E s p))) \<and>
     (in_next_port_id (fst (dp_create_port J C E s p)) = in_next_port_id s
      \<or> in_next_port_id (fst (dp_create_port J C E s p)) = in_next_port_id s + 1)"
    using view_create_port [of J C E s p] t topo_new [OF t' nx] by (auto simp: nn)
  have de: "topo_ok (topo_view (fst (dp_delete_port J C E s p))) \<and>
     in_next_port_id (fst (dp_delete_port J C E s p)) = in_next_port_id s"
    using view_delete_port [of J C E s p] t topo_remove [OF t' wf] by (auto simp: nn)
  have at: "topo_ok (topo_view (fst (dp_attach_port J C E s p))) \<and>
     in_next_port_id (fst (dp_attach_port J C E s p)) = in_next_port_id s"
  proof -
    have ne: "net \<noteq> []" if "map_of (in_networks s) net = Some e" for net e
      using nets_okD [OF dp_invD(1) [OF i] that] by (auto simp: net_entry_ok_def network_ok_def trim_eval)
    have "topo_ok (bm_insert nm (lp\<lparr>lp_network := Some net, lp_mac := Some mac\<rparr>) (in_ports s), in_names s,
         hm_insert (PortId (lp_id lp)) net (sw_ports (in_switch s)),
         hm_insert (PortId (lp_id lp)) net (gw_ports (in_gateway s)), in_next_port_id s)"
      if "map_of (in_ports s) nm = Some lp" "map_of (in_networks s) net = Some e" for nm lp net e mac
      by (rule topo_place [OF t' that(1)]) (simp_all add: port_placed_def [of _ _ "_ \<lparr>lp_network := _, lp_mac := _\<rparr>"] ne [OF that(2)] port_placed_other)
    then show ?thesis using view_attach_port [of J C E s p] t by (auto simp: nn)
  qed
  have dt: "topo_ok (topo_view (fst (dp_detach_port J C E s p))) \<and>
     in_next_port_id (fst (dp_detach_port J C E s p)) = in_next_port_id s"
  proof -
    have "topo_ok (bm_insert nm (lp\<lparr>lp_network := None, lp_mac := None\<rparr>) (in_ports s), in_names s,
         hm_remove (PortId (lp_id lp)) (sw_ports (in_switch s)),
         hm_remove (PortId (lp_id lp)) (gw_ports (in_gateway s)), in_next_port_id s)"
      if "map_of (in_ports s) nm = Some lp" for nm lp
      by (rule topo_place [OF t' that]) (simp_all add: port_placed_def [of _ _ "_ \<lparr>lp_network := _, lp_mac := _\<rparr>"] port_placed_other)
    then show ?thesis using view_detach_port [of J C E s p] t by (auto simp: nn)
  qed
  show ?thesis
    using f cr de at dt same view_create_network [of J C E s p] view_delete_network [of J C E s p]
      view_ip_ops(1) [of J s p] view_ip_ops(2) [of J C E s p]
      view_publish_ops(1) [of J C E s p] view_publish_ops(2) [of J C E s p]
    by (auto simp: cp_methods_def dp_control_plane_def)
qed

lemma dp_step_topo:
  assumes "dp_step J C E D N s s'" "dp_inv s" "topo_ok (topo_view s)" "in_next_port_id s \<noteq> - 1"
  shows "topo_ok (topo_view s') \<and> unat (in_next_port_id s') \<le> Suc (unat (in_next_port_id s))"
proof -
  have nn: "in_next_port_id x = in_next_port_id y" if "topo_view x = topo_view y" for x y :: "'a dataplane"
    using that by (simp add: topo_view_def)
  from assms(1) show ?thesis
  proof cases
    case (rpc m f params)
    from cp_op_topo [OF rpc(2) assms(2-4), of params] rpc(1) next_id_grows(1) [OF assms(4)] show ?thesis by auto
  next
    case (pump name me ev)
    then show ?thesis using assms(3) nn [OF pump_turn_facts(1)] by (simp add: pump_turn_facts(1))
  next
    case (ingress name h ev pending)
    then show ?thesis using assms(3) nn [OF view_read_turn] by simp
  next
    case (retire name h ok)
    then show ?thesis using assms(3) nn [OF view_reader_retire] by simp
  qed
qed

lemma dp_from_parts_topo: "topo_ok (topo_view (dp_from_parts dir tbl w))"
  by (simp add: topo_ok_def topo_view_def dp_from_parts_def switch_new_def gateway_new_def)

text \<open>Both invariants after \<open>n\<close> steps of a fresh daemon.\<close>

lemma dp_steps_ok:
  assumes "(dp_step J C E D N ^^ n) (dp_from_parts dir tbl w) s" "table_ok tbl" "n < 2 ^ 32 - 1"
  shows "dp_inv s \<and> topo_ok (topo_view s) \<and> unat (in_next_port_id s) \<le> Suc n"
  using assms
proof (induction n arbitrary: s)
  case 0
  then show ?case using dp_from_parts_inv dp_from_parts_topo by (auto simp: dp_from_parts_def)
next
  case (Suc n)
  from Suc.prems(1) obtain s1 where s1: "(dp_step J C E D N ^^ n) (dp_from_parts dir tbl w) s1" "dp_step J C E D N s1 s"
    by auto
  have ih: "dp_inv s1" "topo_ok (topo_view s1)" "unat (in_next_port_id s1) \<le> Suc n"
    using Suc.IH [OF s1(1)] Suc.prems(2,3) by auto
  have "in_next_port_id s1 \<noteq> - 1"
  proof
    assume "in_next_port_id s1 = - 1"
    then have "unat (in_next_port_id s1) = 2 ^ 32 - 1" by (simp add: unsigned_minus_1_eq_mask mask_eq_exp_minus_1)
    then show False using ih(3) Suc.prems(3) by simp
  qed
  then show ?case using dp_step_inv [OF s1(2) ih(1)] dp_step_topo [OF s1(2) ih(1,2)] ih(3) by force
qed

end
