(* ===== verification/Dataplane_Demo.thy ===== *)
theory Dataplane_Demo
  imports Dataplane_Topo
begin

text \<open>
  A small run of the daemon on an operating system whose calls all succeed: one network, two
  ports, both attached. The theorems about reachable states are applied to these states.
\<close>

definition demo_os :: dp_os where
  "demo_os = \<lparr>os_save = (\<lambda>_. io_all_ok), os_bind = (\<lambda>_. True), os_unlinked = (\<lambda>_. False),
     os_spawn = (\<lambda>_. \<lparr>se_socketpair = Inr (10, 11), se_child = Inr 4242\<rparr>),
     os_now = (\<lambda>n. n), os_poll = (\<lambda>_. Inr True), os_write = (\<lambda>_. WriteOk)\<rparr>"

definition demo_world :: world where
  "demo_world = \<lparr>w_tick = 0, w_fs = (\<lambda>_. None), w_fds = {}, w_spawned = [], w_wan = [], w_stopped = [],
     w_vhosts = [], w_pumps = [], w_readers = []\<rparr>"

definition demo_no_dns :: dns_codec where
  "demo_no_dns = \<lparr>dn_decode = (\<lambda>_. None), dn_servfail = (\<lambda>_. None)\<rparr>"

definition demo_fresh :: "tree_value dataplane" where
  "demo_fresh = dp_from_parts ''/run'' pt_default demo_world"

definition demo_mac :: "u8 \<Rightarrow> mac_addr" where
  "demo_mac n = MacAddr 2 0 0 0 0 n"

definition name_params :: "string \<Rightarrow> tree_value" where
  "name_params nm = jn_object tree_json [(''name'', TStr nm)]"

definition attach_params :: "string \<Rightarrow> mac_addr \<Rightarrow> tree_value" where
  "attach_params nm mac = jn_object tree_json [(''port'', TStr nm), (''network'', TStr ''lab''), (''mac'', TStr (show_mac mac))]"

lemma str_p_eq: "str_p = str_param"
  by (simp add: fun_eq_iff str_p_def str_param_def)

lemma demo_params_str_p [simp]:
  "str_p tree_json (demo_params gw) ''name'' = Inr ''lab''" "str_p tree_json (demo_params gw) ''gateway'' = Inr gw"
  "str_p tree_json (demo_params gw) ''cidr'' = Inr (show_cidr \<lparr>cidr_addr = 0xC0A87C00, cidr_prefix = 24\<rparr>)"
  "str_p tree_json (demo_params gw) ''poolStart'' = Inr (show_ip 0xC0A87C0A)"
  "str_p tree_json (demo_params gw) ''poolEnd'' = Inr (show_ip 0xC0A87CC8)"
  "str_p tree_json (name_params nm) ''name'' = Inr nm"
  "str_p tree_json (attach_params nm mac) ''port'' = Inr nm" "str_p tree_json (attach_params nm mac) ''network'' = Inr ''lab''"
  "mac_p tree_json (attach_params nm mac) ''mac'' = Inr mac"
  by (simp_all add: str_p_eq demo_params_get)
    (simp_all add: str_param_def str_p_def mac_p_def name_params_def attach_params_def tree_json_def)

lemma demo_persist_ok: "\<exists>fs. dp_persist tree_codec demo_os s = (s\<lparr>dp_world := world_tick (dp_world s)\<lparr>w_fs := fs\<rparr>\<rparr>, Inr ())"
  by (simp add: dp_persist_def save_to_disk_def tree_codec_def demo_os_def io_all_ok_def Let_def) blast

definition demo_saved :: "tree_value dataplane \<Rightarrow> file_system" where
  "demo_saved s = w_fs (dp_world (fst (dp_persist tree_codec demo_os s)))"

lemma demo_persist [simp]:
  "dp_persist tree_codec demo_os s = (s\<lparr>dp_world := world_tick (dp_world s)\<lparr>w_fs := demo_saved s\<rparr>\<rparr>, Inr ())"
proof -
  obtain fs where f: "dp_persist tree_codec demo_os s = (s\<lparr>dp_world := world_tick (dp_world s)\<lparr>w_fs := fs\<rparr>\<rparr>, Inr ())"
    using demo_persist_ok by blast
  then have "demo_saved s = fs" by (simp add: demo_saved_def)
  then show ?thesis using f by simp
qed

section \<open>The run\<close>

definition demo_net :: "tree_value dataplane" where
  "demo_net = fst (dp_create_network tree_json tree_codec demo_os demo_fresh (demo_params (show_ip 0xC0A87C01)))"

definition demo_one :: "tree_value dataplane" where
  "demo_one = fst (dp_create_port tree_json tree_codec demo_os demo_net (name_params ''a''))"

definition demo_two :: "tree_value dataplane" where
  "demo_two = fst (dp_create_port tree_json tree_codec demo_os demo_one (name_params ''b''))"

definition demo_att :: "tree_value dataplane" where
  "demo_att = fst (dp_attach_port tree_json tree_codec demo_os demo_two (attach_params ''a'' (demo_mac 1)))"

definition demo_both :: "tree_value dataplane" where
  "demo_both = fst (dp_attach_port tree_json tree_codec demo_os demo_att (attach_params ''b'' (demo_mac 2)))"

lemma demo_step_ops:
  "dp_step tree_json tree_codec demo_os D N s (fst (dp_create_network tree_json tree_codec demo_os s p))"
  "dp_step tree_json tree_codec demo_os D N s (fst (dp_create_port tree_json tree_codec demo_os s p))"
  "dp_step tree_json tree_codec demo_os D N s (fst (dp_attach_port tree_json tree_codec demo_os s p))"
proof -
  have m: "(''CreateNetwork'', dp_create_network tree_json tree_codec demo_os) \<in> set (cp_methods (dp_control_plane tree_json tree_codec demo_os))"
    "(''CreatePort'', dp_create_port tree_json tree_codec demo_os) \<in> set (cp_methods (dp_control_plane tree_json tree_codec demo_os))"
    "(''AttachPort'', dp_attach_port tree_json tree_codec demo_os) \<in> set (cp_methods (dp_control_plane tree_json tree_codec demo_os))"
    by (simp_all add: cp_methods_def dp_control_plane_def)
  show "dp_step tree_json tree_codec demo_os D N s (fst (dp_create_network tree_json tree_codec demo_os s p))"
    "dp_step tree_json tree_codec demo_os D N s (fst (dp_create_port tree_json tree_codec demo_os s p))"
    "dp_step tree_json tree_codec demo_os D N s (fst (dp_attach_port tree_json tree_codec demo_os s p))"
    using m by (blast intro: dp_step.rpc)+
qed

lemma demo_runs:
  "(dp_step tree_json tree_codec demo_os D N ^^ 4) demo_fresh demo_att"
  "(dp_step tree_json tree_codec demo_os D N ^^ 5) demo_fresh demo_both"
proof -
  let ?R = "dp_step tree_json tree_codec demo_os D N"
  have "(?R ^^ 0) demo_fresh demo_fresh" by simp
  from relpowp_Suc_I [OF this demo_step_ops(1)] have "(?R ^^ Suc 0) demo_fresh demo_net" unfolding demo_net_def .
  from relpowp_Suc_I [OF this demo_step_ops(2)] have "(?R ^^ Suc (Suc 0)) demo_fresh demo_one" unfolding demo_one_def .
  from relpowp_Suc_I [OF this demo_step_ops(2)] have "(?R ^^ Suc (Suc (Suc 0))) demo_fresh demo_two" unfolding demo_two_def .
  from relpowp_Suc_I [OF this demo_step_ops(3)] have "(?R ^^ Suc (Suc (Suc (Suc 0)))) demo_fresh demo_att" unfolding demo_att_def .
  moreover have "Suc (Suc (Suc (Suc 0))) = 4" by simp
  ultimately show a: "(?R ^^ 4) demo_fresh demo_att" by metis
  then have "(?R ^^ Suc 4) demo_fresh demo_both"
    unfolding demo_both_def by (rule relpowp_Suc_I) (rule demo_step_ops)
  then show "(?R ^^ 5) demo_fresh demo_both" by simp
qed

lemma demo_inv: "dp_inv demo_fresh" "dp_inv demo_net" "dp_inv demo_one" "dp_inv demo_two" "dp_inv demo_att" "dp_inv demo_both"
proof -
  show f: "dp_inv demo_fresh" unfolding demo_fresh_def by (rule dp_from_parts_inv) (simp add: table_ok_def pt_inj_def)
  then show n: "dp_inv demo_net" unfolding demo_net_def by (rule dp_create_network_inv)
  then show o: "dp_inv demo_one" unfolding demo_one_def by (rule dp_create_port_inv)
  then show t: "dp_inv demo_two" unfolding demo_two_def by (rule dp_create_port_inv)
  then show a: "dp_inv demo_att" unfolding demo_att_def by (rule dp_attach_port_inv)
  then show "dp_inv demo_both" unfolding demo_both_def by (rule dp_attach_port_inv)
qed

lemma demo_net_facts:
  "dp_create_network tree_json tree_codec demo_os demo_fresh (demo_params (show_ip 0xC0A87C01)) = (demo_net, Inr (jn_null tree_json))"
  "map_of (in_networks demo_net) ''lab'' = Some \<lparr>ne_ipam = ipam_new lab_network, ne_created_with = demo_params (show_ip 0xC0A87C01)\<rparr>"
  "in_ports demo_net = []" "in_names demo_net = []" "in_passts demo_net = []" "in_next_port_id demo_net = 1" "\<not> dp_poisoned demo_net"
  "w_vhosts (dp_world demo_net) = []"
  unfolding demo_net_def
  by (simp_all add: dp_create_network_def demo_fresh_def dp_from_parts_def dp_lock_def build_network_def ip_pool_new_def
      lab_net_parses lab_network_def world_tick_def demo_world_def)

text \<open>One port, then two.\<close>

definition demo_port :: "u32 \<Rightarrow> nat \<Rightarrow> live_port" where
  "demo_port i h = \<lparr>lp_id = i, lp_network = None, lp_mac = None, lp_vhost = h\<rparr>"

lemma demo_os_simps [simp]: "os_bind demo_os n" "os_save demo_os n = io_all_ok"
  "os_spawn demo_os n = \<lparr>se_socketpair = Inr (10, 11), se_child = Inr 4242\<rparr>" "os_now demo_os n = n"
  "os_poll demo_os n = Inr True" "os_write demo_os n = WriteOk"
  by (simp_all add: demo_os_def)

lemma demo_create_port:
  assumes "\<not> dp_poisoned s" "map_of (in_ports s) nm = None"
  shows "\<exists>s'. dp_create_port tree_json tree_codec demo_os s (name_params nm) = (s', Inr (jn_null tree_json))
    \<and> in_ports s' = bm_insert nm (demo_port (in_next_port_id s) (length (w_vhosts (dp_world s)))) (in_ports s)
    \<and> in_networks s' = in_networks s \<and> in_passts s' = in_passts s \<and> in_next_port_id s' = in_next_port_id s + 1
    \<and> \<not> dp_poisoned s' \<and> length (w_vhosts (dp_world s')) = Suc (length (w_vhosts (dp_world s)))
    \<and> set (w_pumps (dp_world s')) = insert (nm, in_next_port_id s) (set (w_pumps (dp_world s)))
    \<and> set (w_readers (dp_world s')) = insert (nm, length (w_vhosts (dp_world s))) (set (w_readers (dp_world s)))"
  using assms by (simp add: dp_create_port_def dp_lock_def Let_def world_bind_def demo_port_def)

lemma demo_two_facts:
  "map_of (in_ports demo_one) ''a'' = Some (demo_port 1 0)" "\<not> dp_poisoned demo_one"
  "map_of (in_ports demo_two) ''a'' = Some (demo_port 1 0)" "map_of (in_ports demo_two) ''b'' = Some (demo_port 2 1)"
  "in_networks demo_two = in_networks demo_net" "in_passts demo_two = []" "\<not> dp_poisoned demo_two"
  "length (w_vhosts (dp_world demo_two)) = 2"
proof -
  have n: "\<not> dp_poisoned demo_net" "map_of (in_ports demo_net) ''a'' = None" by (simp_all add: demo_net_facts)
  note a = demo_create_port [OF n]
  have o: "in_ports demo_one = [(''a'', demo_port 1 0)]" "in_networks demo_one = in_networks demo_net" "in_passts demo_one = []"
    "in_next_port_id demo_one = 2" "\<not> dp_poisoned demo_one" "length (w_vhosts (dp_world demo_one)) = 1"
    using a unfolding demo_one_def by (auto simp: demo_net_facts)
  have m: "\<not> dp_poisoned demo_one" "map_of (in_ports demo_one) ''b'' = None" by (simp_all add: o)
  note b = demo_create_port [OF m]
  show "map_of (in_ports demo_one) ''a'' = Some (demo_port 1 0)" "\<not> dp_poisoned demo_one" by (simp_all add: o)
  show "map_of (in_ports demo_two) ''a'' = Some (demo_port 1 0)" "map_of (in_ports demo_two) ''b'' = Some (demo_port 2 1)"
    "in_networks demo_two = in_networks demo_net" "in_passts demo_two = []" "\<not> dp_poisoned demo_two"
    "length (w_vhosts (dp_world demo_two)) = 2"
    using b unfolding demo_two_def by (auto simp: o)
qed

text \<open>Attaching a port whose WAN process can be started.\<close>

lemma demo_ensure:
  assumes "map_of (in_ports s) nm = Some lp" "lp_network lp = Some net" "map_of (in_networks s) net = Some e"
    "map_of (in_passts s) nm = None"
  shows "\<exists>w' sl. ensure_passt demo_os s nm ip [] = (s\<lparr>in_passts := bm_insert nm sl (in_passts s), dp_world := w'\<rparr>, Inr ())
    \<and> ps_live sl \<noteq> None \<and> ps_mac sl = None"
  using assms by (simp add: ensure_passt_def Let_def new_slot_def spawn_into_def passt_spawn_def)
    (intro exI conjI, rule refl, simp_all)

lemma demo_attach:
  assumes "\<not> dp_poisoned s" "map_of (in_ports s) nm = Some (demo_port i h)" "map_of (in_networks s) ''lab'' = Some e"
    "ipam_allocate (ne_ipam e) mac = (a, Inr ip)" "ipam_lookup a mac = Some ip" "map_of (in_passts s) nm = None"
  shows "\<exists>s' sl. dp_attach_port tree_json tree_codec demo_os s (attach_params nm mac) = (s', Inr (jn_null tree_json))
    \<and> in_ports s' = bm_insert nm ((demo_port i h)\<lparr>lp_network := Some ''lab'', lp_mac := Some mac\<rparr>) (in_ports s)
    \<and> in_networks s' = bm_insert ''lab'' (e\<lparr>ne_ipam := a\<rparr>) (in_networks s)
    \<and> in_passts s' = bm_insert nm sl (in_passts s) \<and> ps_live sl \<noteq> None \<and> ps_mac sl = None \<and> \<not> dp_poisoned s'"
proof -
  let ?p = "(demo_port i h)\<lparr>lp_network := Some ''lab'', lp_mac := Some mac\<rparr>"
  let ?s2 = "s\<lparr>in_networks := bm_insert ''lab'' (e\<lparr>ne_ipam := a\<rparr>) (in_networks s), in_ports := bm_insert nm ?p (in_ports s),
      in_switch := switch_add_port (in_switch s) (PortId i) ''lab'',
      in_gateway := gateway_add_port (in_gateway s) (PortId i) ''lab'',
      dp_world := world_set_mac h (mac_octets mac) (dp_world s)\<rparr>"
  obtain w' sl where en: "ensure_passt demo_os ?s2 nm (show_ip ip) []
      = (?s2\<lparr>in_passts := bm_insert nm sl (in_passts ?s2), dp_world := w'\<rparr>, Inr ())" and sl: "ps_live sl \<noteq> None" "ps_mac sl = None"
    using demo_ensure [of ?s2 nm ?p "''lab''" "e\<lparr>ne_ipam := a\<rparr>" "show_ip ip"] assms(6) by auto
  define s3 where "s3 = ?s2\<lparr>in_passts := bm_insert nm sl (in_passts ?s2), dp_world := w'\<rparr>"
  have "dp_attach_port tree_json tree_codec demo_os s (attach_params nm mac)
      = (s3\<lparr>dp_world := world_tick (dp_world s3)\<lparr>w_fs := demo_saved s3\<rparr>\<rparr>, Inr (jn_null tree_json))"
    using assms en by (simp add: dp_attach_port_def dp_lock_def Let_def demo_port_def s3_def)
  moreover have "in_ports s3 = bm_insert nm ?p (in_ports s)" "in_passts s3 = bm_insert nm sl (in_passts s)"
    "in_networks s3 = bm_insert ''lab'' (e\<lparr>ne_ipam := a\<rparr>) (in_networks s)" "\<not> dp_poisoned s3"
    using assms(1) by (simp_all add: s3_def)
  ultimately show ?thesis using sl by auto
qed

definition demo_ipam :: "(mac_addr \<times> ipv4) list \<Rightarrow> ipam" where
  "demo_ipam allocs = \<lparr>ipam_network = lab_network, ipam_allocations = allocs\<rparr>"

lemma demo_ips:
  "ipam_allocate (ipam_new lab_network) (demo_mac 1) = (demo_ipam [(demo_mac 1, 0xC0A87C0A)], Inr 0xC0A87C0A)"
  "ipam_allocate (demo_ipam [(demo_mac 1, 0xC0A87C0A)]) (demo_mac 2)
     = (demo_ipam [(demo_mac 1, 0xC0A87C0A), (demo_mac 2, 0xC0A87C0B)], Inr 0xC0A87C0B)"
  by (simp_all add: ipam_allocate_def ipam_new_def lab_network_def find_range.simps demo_ipam_def demo_mac_def hm_insert_def)

lemma demo_mac_eq [simp]: "demo_mac a = demo_mac b \<longleftrightarrow> a = b"
  by (simp add: demo_mac_def)

lemma demo_ipam_simps [simp]: "ipam_network (demo_ipam l) = lab_network" "ipam_lookup (demo_ipam l) = map_of l"
  by (simp_all add: demo_ipam_def ipam_lookup_def fun_eq_iff)

lemma demo_att_facts:
  "in_ports demo_att = bm_insert ''a'' ((demo_port 1 0)\<lparr>lp_network := Some ''lab'', lp_mac := Some (demo_mac 1)\<rparr>) (in_ports demo_two)"
  "map_of (in_networks demo_att) ''lab'' = Some \<lparr>ne_ipam = demo_ipam [(demo_mac 1, 0xC0A87C0A)], ne_created_with = demo_params (show_ip 0xC0A87C01)\<rparr>"
  "\<exists>sl p. in_passts demo_att = [(''a'', sl)] \<and> ps_live sl = Some p \<and> ps_mac sl = None" "\<not> dp_poisoned demo_att"
  "dp_attach_port tree_json tree_codec demo_os demo_two (attach_params ''a'' (demo_mac 1)) = (demo_att, Inr (jn_null tree_json))"
proof -
  have n: "map_of (in_networks demo_two) ''lab'' = Some \<lparr>ne_ipam = ipam_new lab_network, ne_created_with = demo_params (show_ip 0xC0A87C01)\<rparr>"
    by (simp add: demo_two_facts demo_net_facts)
  have "map_of (in_passts demo_two) ''a'' = None" by (simp add: demo_two_facts)
  from demo_attach [OF demo_two_facts(7,3) n _ _ this, of "demo_mac 1"]
  obtain s' sl where s': "dp_attach_port tree_json tree_codec demo_os demo_two (attach_params ''a'' (demo_mac 1)) = (s', Inr (jn_null tree_json))"
      "in_ports s' = bm_insert ''a'' ((demo_port 1 0)\<lparr>lp_network := Some ''lab'', lp_mac := Some (demo_mac 1)\<rparr>) (in_ports demo_two)"
      "map_of (in_networks s') ''lab'' = Some \<lparr>ne_ipam = demo_ipam [(demo_mac 1, 0xC0A87C0A)], ne_created_with = demo_params (show_ip 0xC0A87C01)\<rparr>"
      "in_passts s' = [(''a'', sl)]" "ps_live sl \<noteq> None" "ps_mac sl = None" "\<not> dp_poisoned s'"
    by (auto simp: demo_two_facts demo_ips)
  have e: "demo_att = s'" by (simp add: demo_att_def s')
  show "in_ports demo_att = bm_insert ''a'' ((demo_port 1 0)\<lparr>lp_network := Some ''lab'', lp_mac := Some (demo_mac 1)\<rparr>) (in_ports demo_two)"
    "map_of (in_networks demo_att) ''lab'' = Some \<lparr>ne_ipam = demo_ipam [(demo_mac 1, 0xC0A87C0A)], ne_created_with = demo_params (show_ip 0xC0A87C01)\<rparr>"
    "\<exists>sl p. in_passts demo_att = [(''a'', sl)] \<and> ps_live sl = Some p \<and> ps_mac sl = None" "\<not> dp_poisoned demo_att"
    "dp_attach_port tree_json tree_codec demo_os demo_two (attach_params ''a'' (demo_mac 1)) = (demo_att, Inr (jn_null tree_json))"
    unfolding e using s' by auto
qed

lemma demo_both_facts:
  "map_of (in_ports demo_both) ''a'' = Some ((demo_port 1 0)\<lparr>lp_network := Some ''lab'', lp_mac := Some (demo_mac 1)\<rparr>)"
  "map_of (in_ports demo_both) ''b'' = Some ((demo_port 2 1)\<lparr>lp_network := Some ''lab'', lp_mac := Some (demo_mac 2)\<rparr>)"
  "\<not> dp_poisoned demo_both" "Option.bind (map_of (in_passts demo_both) ''a'') ps_mac = None"
proof -
  have b: "map_of (in_ports demo_att) ''b'' = Some (demo_port 2 1)" by (simp add: demo_att_facts demo_two_facts)
  have "map_of (in_passts demo_att) ''b'' = None" using demo_att_facts(3) by auto
  from demo_attach [OF demo_att_facts(4) b demo_att_facts(2) _ _ this, of "demo_mac 2"]
  obtain s' where s': "dp_attach_port tree_json tree_codec demo_os demo_att (attach_params ''b'' (demo_mac 2)) = (s', Inr (jn_null tree_json))"
      "in_ports s' = bm_insert ''b'' ((demo_port 2 1)\<lparr>lp_network := Some ''lab'', lp_mac := Some (demo_mac 2)\<rparr>) (in_ports demo_att)"
      "\<not> dp_poisoned s'" "\<exists>sl. in_passts s' = bm_insert ''b'' sl (in_passts demo_att)"
    by (auto simp: demo_ips)
  have e: "demo_both = s'" by (simp add: demo_both_def s')
  show "map_of (in_ports demo_both) ''a'' = Some ((demo_port 1 0)\<lparr>lp_network := Some ''lab'', lp_mac := Some (demo_mac 1)\<rparr>)"
    "map_of (in_ports demo_both) ''b'' = Some ((demo_port 2 1)\<lparr>lp_network := Some ''lab'', lp_mac := Some (demo_mac 2)\<rparr>)"
    "\<not> dp_poisoned demo_both" "Option.bind (map_of (in_passts demo_both) ''a'') ps_mac = None"
    unfolding e using s' demo_att_facts(3) by (auto simp: demo_att_facts(1))
qed

end
