(* ===== verification/Dataplane_Frames.thy ===== *)
theory Dataplane_Frames
  imports Dataplane_Demo
begin

text \<open>
  What a frame does once a VM has sent it: who receives it, what the gateway answers, and when
  the pump panics. Everything is stated of reachable states of the daemon.
\<close>

section \<open>Inboxes\<close>

definition port_inbox :: "'v dataplane \<Rightarrow> string \<Rightarrow> bytes list" where
  "port_inbox s q =
     (case map_of (in_ports s) q of None \<Rightarrow> [] | Some lp \<Rightarrow> vo_inbox (w_vhosts (dp_world s) ! lp_vhost lp))"

lemma port_inbox_simps [simp]:
  "port_inbox (s\<lparr>in_switch := sw\<rparr>) q = port_inbox s q" "port_inbox (s\<lparr>dp_poisoned := b\<rparr>) q = port_inbox s q"
  "port_inbox (passt_egress E s p f) q = port_inbox s q"
  by (simp_all add: port_inbox_def passt_egress_def Let_def split: option.split)

text \<open>Injecting reaches exactly the named port.\<close>

lemma port_inbox_inject:
  assumes i: "dp_inv s" and p: "map_of (in_ports s) p = Some lp"
  shows "port_inbox (fst (inject_to s p f)) q = port_inbox s q @ (if q = p then [f] else [])"
    and "snd (inject_to s p f)"
proof -
  have ok: "live_port_ok (w_vhosts (dp_world s)) lp" using lports_okD [OF dp_invD(2) [OF i] p] .
  show "snd (inject_to s p f)" using ok p by (simp add: inject_to_def live_port_ok_def)
  have "lp_vhost lq \<noteq> lp_vhost lp" if "map_of (in_ports s) q = Some lq" "q \<noteq> p" for lq
    using dp_invD(2) [OF i] that p unfolding lports_ok_def by metis
  note d = this
  show "port_inbox (fst (inject_to s p f)) q = port_inbox s q @ (if q = p then [f] else [])"
  proof (cases "q = p")
    case True
    then show ?thesis using ok p by (simp add: port_inbox_def inject_to_def world_inject_vhosts live_port_ok_def)
  next
    case False
    then show ?thesis
      using ok p d by (cases "map_of (in_ports s) q")
        (simp_all add: port_inbox_def inject_to_def world_inject_vhosts live_port_ok_def nth_list_update)
  qed
qed

lemma port_inbox_inject_all:
  assumes "dp_inv s" "\<And>n f. (n, f) \<in> set targets \<Longrightarrow> map_of (in_ports s) n \<noteq> None"
  shows "port_inbox (fold (\<lambda>(peer, f) st. fst (inject_to st peer f)) targets s) q
    = port_inbox s q @ map snd (filter (\<lambda>t. fst t = q) targets)"
  using assms
proof (induction targets arbitrary: s)
  case (Cons t targets)
  obtain n f where t: "t = (n, f)" by (cases t)
  obtain lp where lp: "map_of (in_ports s) n = Some lp" using Cons.prems(2) [of n f] t by auto
  let ?s = "fst (inject_to s n f)"
  have "port_inbox (fold (\<lambda>(peer, f) st. fst (inject_to st peer f)) targets ?s) q
      = port_inbox ?s q @ map snd (filter (\<lambda>t. fst t = q) targets)"
    using Cons.prems by (intro Cons.IH) (auto intro: inject_to_inv)
  then show ?case using port_inbox_inject(1) [OF Cons.prems(1) lp, of f q] t by simp
qed simp

section \<open>The switch seam\<close>

lemma switch_forward_egress:
  assumes sw: "switch_inv sw" and out: "(pid, f) \<in> set (snd (switch_forward sw p frame))"
  shows "f = frame \<and> pid \<noteq> p \<and> map_of (sw_ports sw) pid = map_of (sw_ports sw) p \<and> map_of (sw_ports sw) p \<noteq> None"
proof -
  have wf: "hm_wf (sw_ports sw)" using sw by (simp add: switch_inv_def)
  show ?thesis
  proof (cases rule: switch_forward_cases [of sw p frame])
    case dead
    then show ?thesis using out switch_forward_dead [OF dead] by simp
  next
    case (live net parsed)
    let ?sw = "sw\<lparr>sw_table := mt_learn (sw_table sw) p (pf_src parsed)\<rparr>"
    have "hm_wf (sw_ports ?sw)" using wf by simp
    note ue = unicast_egress_safe [OF this]
    show ?thesis
      using out wf live(1) ue [of pid net p "pf_dst parsed"] unfolding switch_forward_live [OF live]
      by (auto simp: flood_set_iff split: if_splits)
  qed
qed

lemma switch_forward_distinct:
  assumes "switch_inv sw"
  shows "distinct (map fst (snd (switch_forward sw p frame)))"
proof -
  have wf: "hm_wf (sw_ports sw)" using assms by (simp add: switch_inv_def)
  show ?thesis
  proof (cases rule: switch_forward_cases [of sw p frame])
    case dead
    then show ?thesis using switch_forward_dead [OF dead] by simp
  next
    case (live net parsed)
    have "hm_wf (sw_ports (sw\<lparr>sw_table := mt_learn (sw_table sw) p (pf_src parsed)\<rparr>))" using wf by simp
    then show ?thesis
      unfolding switch_forward_live [OF live] by (simp add: comp_def flood_set_distinct wf unicast_egress_distinct)
  qed
qed

definition switch_targets :: "'v dataplane \<Rightarrow> u32 \<Rightarrow> bytes \<Rightarrow> (string \<times> bytes) list" where
  "switch_targets s me frame =
     List.map_filter (\<lambda>(pid, f). map_option (\<lambda>n. (n, f)) (map_of (in_names s) (port_num pid)))
       (filter (\<lambda>(pid, _). port_num pid \<noteq> me) (snd (switch_forward (in_switch s) (PortId me) frame)))"

lemma pump_switch_targets:
  "pump_switch s me frame = fold (\<lambda>(peer, f) st. fst (inject_to st peer f)) (switch_targets s me frame)
     (s\<lparr>in_switch := fst (switch_forward (in_switch s) (PortId me) frame)\<rparr>)"
  by (simp add: pump_switch_def switch_targets_def case_prod_unfold Let_def)

text \<open>Each port appears once at most among the targets, and only with the frame itself.\<close>

lemma map_filter_at_most_one:
  assumes "distinct (map fst xs)" "\<And>x y n. (x, n) \<in> G \<Longrightarrow> (y, n) \<in> G \<Longrightarrow> x = y"
    "\<And>a b n. (a, b) \<in> set xs \<Longrightarrow> g a = Some n \<Longrightarrow> (a, n) \<in> G"
  shows "length (filter (\<lambda>t. fst t = q) (List.map_filter (\<lambda>(a, b). map_option (\<lambda>n. (n, b)) (g a)) xs)) \<le> 1"
  using assms(1,3)
proof (induction xs)
  case Nil
  then show ?case by (simp add: List.map_filter_def)
next
  case (Cons x xs)
  obtain a b where x: "x = (a, b)" by (cases x)
  have ih: "length (filter (\<lambda>t. fst t = q) (List.map_filter (\<lambda>(a, b). map_option (\<lambda>n. (n, b)) (g a)) xs)) \<le> 1"
    using Cons.prems by (intro Cons.IH) auto
  have no: "filter (\<lambda>t. fst t = q) (List.map_filter (\<lambda>(a, b). map_option (\<lambda>n. (n, b)) (g a)) xs) = []" if g: "g a = Some q"
  proof -
    have "g a' \<noteq> Some q" if "(a', b') \<in> set xs" for a' b'
    proof
      assume "g a' = Some q"
      then have "(a', q) \<in> G" "(a, q) \<in> G" using Cons.prems(2) g that x by auto
      then have "a' = a" using assms(2) by blast
      then show False using Cons.prems(1) x that by force
    qed
    then show ?thesis by (auto simp: filter_empty_conv List.map_filter_def)
  qed
  show ?case using ih no x by (cases "g a") (auto simp: List.map_filter_def)
qed

lemma switch_targets_facts:
  assumes i: "dp_inv s" and t: "topo_ok (topo_view s)" and lp: "map_of (in_ports s) name = Some lp"
  shows "(q, f) \<in> set (switch_targets s (lp_id lp) frame) \<Longrightarrow> f = frame \<and> q \<noteq> name
      \<and> (\<exists>lq. map_of (in_ports s) q = Some lq \<and> lp_network lq = lp_network lp)"
    and "length (filter (\<lambda>t. fst t = q) (switch_targets s (lp_id lp) frame)) \<le> 1"
proof -
  note t' = t [unfolded topo_view_def]
  have sw: "switch_inv (in_switch s)" using i by (simp add: dp_inv_def)
  show "f = frame \<and> q \<noteq> name \<and> (\<exists>lq. map_of (in_ports s) q = Some lq \<and> lp_network lq = lp_network lp)"
    if m: "(q, f) \<in> set (switch_targets s (lp_id lp) frame)"
  proof -
    obtain j where j: "(PortId j, f) \<in> set (snd (switch_forward (in_switch s) (PortId (lp_id lp)) frame))"
      "j \<noteq> lp_id lp" "map_of (in_names s) j = Some q"
    proof -
      from m obtain pid where "(pid, f) \<in> set (snd (switch_forward (in_switch s) (PortId (lp_id lp)) frame))"
        "port_num pid \<noteq> lp_id lp" "map_of (in_names s) (port_num pid) = Some q"
        by (auto simp: switch_targets_def List.map_filter_def)
      then show thesis using that by (cases pid) auto
    qed
    note e = switch_forward_egress [OF sw j(1)]
    obtain lq where lq: "map_of (in_ports s) q = Some lq" "lp_id lq = j" using topo_okD(4) [OF t' j(3)] by blast
    have "lp_network lq = lp_network lp"
      using topo_okD(3) [OF t' lq(1)] topo_okD(3) [OF t' lp] e lq(2)
      by (auto simp: port_placed_def split: option.splits)
    moreover have "q \<noteq> name" using lq lp j(2) by auto
    ultimately show ?thesis using e lq(1) by blast
  qed
  have "x = y" if "map_of (in_names s) (port_num x) = Some n" "map_of (in_names s) (port_num y) = Some n" for x y n
    using topo_okD(4) [OF t' that(1)] topo_okD(4) [OF t' that(2)] by (cases x; cases y) auto
  moreover have "distinct (map fst (filter (\<lambda>(pid, _). port_num pid \<noteq> lp_id lp)
      (snd (switch_forward (in_switch s) (PortId (lp_id lp)) frame))))"
    using switch_forward_distinct [OF sw] by (simp add: distinct_map_filter)
  ultimately show "length (filter (\<lambda>t. fst t = q) (switch_targets s (lp_id lp) frame)) \<le> 1"
    unfolding switch_targets_def
    by (intro map_filter_at_most_one [where G = "{(x, n). map_of (in_names s) (port_num x) = Some n}"]) auto
qed

lemma pump_switch_inbox:
  assumes i: "dp_inv s" and t: "topo_ok (topo_view s)" and lp: "map_of (in_ports s) name = Some lp"
  shows "port_inbox (pump_switch s (lp_id lp) frame) q
    = port_inbox s q @ (if q \<in> fst ` set (switch_targets s (lp_id lp) frame) then [frame] else [])"
proof -
  let ?T = "switch_targets s (lp_id lp) frame"
  let ?s = "s\<lparr>in_switch := fst (switch_forward (in_switch s) (PortId (lp_id lp)) frame)\<rparr>"
  have inv: "dp_inv ?s" using i switch_forward_inv by (simp add: dp_inv_def)
  have "port_inbox (pump_switch s (lp_id lp) frame) q = port_inbox ?s q @ map snd (filter (\<lambda>t. fst t = q) ?T)"
    unfolding pump_switch_targets
    by (rule port_inbox_inject_all [OF inv]) (use switch_targets_facts(1) [OF i t lp] in fastforce)
  moreover have "map snd (filter (\<lambda>t. fst t = q) ?T) = (if q \<in> fst ` set ?T then [frame] else [])"
  proof (cases "filter (\<lambda>t. fst t = q) ?T")
    case Nil
    then show ?thesis by (auto simp: filter_empty_conv)
  next
    case (Cons u us)
    then have "us = []" using switch_targets_facts(2) [OF i t lp, of q frame] by auto
    moreover have "u \<in> set (filter (\<lambda>t. fst t = q) ?T)" using Cons by simp
    then have "u \<in> set ?T" "fst u = q" by simp_all
    moreover have "snd u = frame" using switch_targets_facts(1) [OF i t lp, of "fst u" "snd u" frame] \<open>u \<in> set ?T\<close> by simp
    ultimately show ?thesis using Cons by auto
  qed
  ultimately show ?thesis by simp
qed

section \<open>Isolation\<close>

lemma bounded_run_ok:
  assumes "(dp_step J C E D N ^^ n) (dp_from_parts dir tbl w) s" "pt_wf tbl" "pt_inj tbl" "n < 2 ^ 32 - 1"
  shows "dp_inv s" "topo_ok (topo_view s)"
  using dp_steps_ok [OF assms(1) _ assms(4)] assms(2,3) by (simp_all add: table_ok_def)

text \<open>
  C3: tenant isolation. In any state that the daemon, started with any restored publish table whose
  host ports are unique, reaches in fewer than 2^32 - 1 steps (requests, frames and polls; the bound
  keeps port numbers from being reused), whatever frame a VM sends, a port other than the sender's
  receives either nothing or exactly that frame once, and the latter only when both ports are
  attached to the same network (or both to none).
\<close>

theorem pump_isolated:
  assumes run: "(dp_step J C E D N ^^ n) (dp_from_parts dir tbl w) s" "pt_wf tbl" "pt_inj tbl" "n < 2 ^ 32 - 1"
    and lp: "map_of (in_ports s) name = Some lp" and lq: "map_of (in_ports s) q = Some lq" and "q \<noteq> name"
  shows "port_inbox (pump_frame D N E s name (lp_id lp) frame) q = port_inbox s q
    \<or> port_inbox (pump_frame D N E s name (lp_id lp) frame) q = port_inbox s q @ [frame]
      \<and> lp_network lq = lp_network lp"
proof -
  note ok = bounded_run_ok [OF run]
  have inj: "port_inbox (fst (inject_to s name r)) q = port_inbox s q" for r
    using port_inbox_inject(1) [OF ok(1) lp, of r q] \<open>q \<noteq> name\<close> by simp
  have "lp_network lq = lp_network lp" if "q \<in> fst ` set (switch_targets s (lp_id lp) frame)"
    using that switch_targets_facts(1) [OF ok lp] lq by fastforce
  then have "port_inbox (pump_switch s (lp_id lp) frame) q = port_inbox s q
    \<or> port_inbox (pump_switch s (lp_id lp) frame) q = port_inbox s q @ [frame] \<and> lp_network lq = lp_network lp"
    using pump_switch_inbox [OF ok lp, of frame q] by auto
  then show ?thesis
    using inj unfolding pump_frame_def Let_def by (auto split: outcome.split option.split)
qed

lemma switch_targets_flood:
  assumes i: "dp_inv s" and t: "topo_ok (topo_view s)" and lp: "map_of (in_ports s) name = Some lp"
    and net: "lp_network lp = Some net" and f: "parse_frame frame = Inr parsed" "\<not> is_local_unicast frame"
    and q: "map_of (in_ports s) q = Some lq" "q \<noteq> name" "lp_network lq = Some net"
  shows "q \<in> fst ` set (switch_targets s (lp_id lp) frame)"
proof -
  note t' = t [unfolded topo_view_def]
  let ?sw = "in_switch s"
  have wf: "hm_wf (sw_ports ?sw)" using i by (simp add: dp_inv_def switch_inv_def)
  have pl: "map_of (sw_ports ?sw) (PortId (lp_id lp)) = Some net" "map_of (sw_ports ?sw) (PortId (lp_id lq)) = Some net"
    using topo_okD(3) [OF t' lp] topo_okD(3) [OF t' q(1)] net q(3) by (simp_all add: port_placed_def)
  have ne: "lp_id lq \<noteq> lp_id lp" using topo_id_inj [OF t' lp q(1)] q(2) by auto
  have "(PortId (lp_id lq), frame) \<in> set (snd (switch_forward ?sw (PortId (lp_id lp)) frame))"
    unfolding switch_forward_live [OF pl(1) f(1)] using f(2) pl ne wf by (auto simp: flood_set_iff)
  then show ?thesis
    unfolding switch_targets_def using ne topo_okD(2) [OF t' q(1)]
    by (force simp: List.map_filter_def image_iff)
qed

lemma pump_flood_inbox:
  assumes ok: "dp_inv s" "topo_ok (topo_view s)"
    and lp: "map_of (in_ports s) name = Some lp" "lp_network lp = Some net" and "\<not> dp_poisoned s"
    and f: "parse_frame frame = Inr parsed" "\<not> is_local_unicast frame"
    and other: "ethertype frame = Some ty" "ty \<noteq> ETHERTYPE_ARP" "ty \<noteq> ETHERTYPE_IPV4" "\<not> wan_uplink s name frame"
    and q: "map_of (in_ports s) q = Some lq"
  shows "port_inbox (pump_frame D N E s name (lp_id lp) frame) q =
    port_inbox s q @ (if q \<noteq> name \<and> lp_network lq = Some net then [frame] else [])"
proof -
  have "parse_ipv4 frame = Done None" using other by (simp add: parse_ipv4_def)
  then have "service_reply D N s name frame = Done None"
    by (simp add: service_reply_def split: option.split)
  then have p: "pump_frame D N E s name (lp_id lp) frame = pump_switch s (lp_id lp) frame"
    using assms(5) other by (simp add: pump_frame_def)
  have "q \<in> fst ` set (switch_targets s (lp_id lp) frame) \<longleftrightarrow> q \<noteq> name \<and> lp_network lq = Some net"
    using switch_targets_flood [OF ok lp f q] switch_targets_facts(1) [OF ok lp(1)] lp(2) q by fastforce
  then show ?thesis unfolding p pump_switch_inbox [OF ok lp(1)] by simp
qed

section \<open>DHCP through the pump\<close>

lemma service_reply_dhcp:
  assumes b: "port_binding s name = Some (i, vm_mac)"
    and p: "parse_ipv4 frame = Done (Some ip)" "i4_proto ip = 17"
      "i4_payload ip = be16_bytes 68 @ be16_bytes 67 @ be16_bytes (of_nat (8 + length request)) @ ck @ request"
      "length ck = 2" "length request < 65528"
  shows "service_reply D N s name frame = Done (dhcp_service D i vm_mac frame request)"
proof -
  let ?p = "i4_payload ip"
  have l: "length ?p = 8 + length request" using p by simp
  have u: "unat (of_nat (8 + length request) :: u16) = 8 + length request"
    using p(5) by (simp only: unsigned_of_nat) (simp add: take_bit_eq_mod)
  have w: "be16 (?p ! 0) (?p ! 1) = 68" "be16 (?p ! 2) (?p ! 3) = 67" "be16 (?p ! 4) (?p ! 5) = of_nat (8 + length request)"
    using be16_of_bytes [of 68] be16_of_bytes [of 67] be16_of_bytes [of "of_nat (8 + length request)"]
    unfolding p(3) by (simp_all add: be16_bytes_def nth_append)
  have r: "drop 8 (take (min (max (8 + length request) 8) (length ?p)) ?p) = request"
    using p(4) unfolding l by (simp add: p(3))
  show ?thesis
    unfolding service_reply_def b option.case prod.case p(1) outcome.case Let_def w u r
    using p(2) l by simp
qed

text \<open>
  C6: a guest gets the address that was reserved for it. In any state that satisfies the invariant and
  whose lock is not poisoned, let a port be attached to a network in which a client MAC has a
  reservation. A DHCP discover of that client, or a request of it for the reserved
  address, that is sent through the port (UDP from port 68 to port 67, any IP addresses) is answered
  into the port's own inbox with one UDP packet from the gateway, port 67, to the reserved address,
  port 68: an offer of exactly that address for a discover, an acknowledgement of it for a request,
  with the network's mask, router and resolver. No other port sees anything. Of the DHCP codec it is
  used that messages with a six-byte hardware address can be encoded, with the offered address at
  bytes 16 to 20.
\<close>

theorem dhcp_reservation_served:
  assumes i: "dp_inv s" "\<not> dp_poisoned s"
    and b: "map_of (in_ports s) name = Some lp" "lp_network lp = Some net" "lp_mac lp = Some vm_mac"
      "map_of (in_networks s) net = Some e"
    and p: "parse_ipv4 frame = Done (Some ip)" "i4_proto ip = 17"
      "i4_payload ip = be16_bytes 68 @ be16_bytes 67 @ be16_bytes (of_nat (8 + length request)) @ ck @ request"
      "length ck = 2" "length request < 65528"
    and d: "dhcp_admits D request msg mac" "ipam_lookup (ne_ipam e) mac = Some addr"
      "map_of (dm_opts msg) 53 = Some (OptMessageType Discover) \<and> t = Offer
        \<or> map_of (dm_opts msg) 53 = Some (OptMessageType Request) \<and> asks_for msg addr \<and> t = Ack"
    and enc: "\<forall>m. length (dm_chaddr m) = 6 \<longrightarrow>
        (\<exists>bs. dc_encode D m = Some bs \<and> slice_get bs 16 20 = Some (ip_octets (dm_yiaddr m)))"
  shows "\<exists>out reply. dhcp_answer (ipam_network (ne_ipam e)) msg addr t out \<and> dc_encode D out = Some reply
    \<and> (\<forall>q. port_inbox (pump_frame D N E s name me frame) q = port_inbox s q @ (if q = name
        then [wrap_udp_reply reply (mac_at frame 6) (net_gateway (ipam_network (ne_ipam e))) addr 67 68] else []))"
proof -
  let ?i = "ne_ipam e" and ?out = "dhcp_reply_message (ne_ipam e) msg addr t"
  have pb: "port_binding s name = Some (?i, vm_mac)" using b by (simp add: port_binding_def)
  have a: "dhcp_answer (ipam_network ?i) msg addr t ?out" by (rule dhcp_reply_answers)
  then have "length (dm_chaddr ?out) = 6" "dm_yiaddr ?out = addr"
    using d(1) by (simp_all add: dhcp_answer_def dhcp_echoes_def dhcp_admits_def)
  then obtain reply where r: "dc_encode D ?out = Some reply" "slice_get reply 16 20 = Some (ip_octets addr)"
    using enc [rule_format, of ?out] by auto
  have "14 < length frame"
    using p(1) by (auto simp: parse_ipv4_def ethertype_def Let_def split: if_splits option.splits)
  then have "slice_get frame 6 12 = Some (mac_octets (mac_at frame 6))"
    using take6_mac [of 6 frame] by (simp add: slice_get_def)
  then have sm: "Option.bind (slice_get frame 6 12) mac_from_bytes = Some (mac_at frame 6)" by simp
  have "dhcp_process D ?i request = (?i, Some reply)"
    using d(2,3) r(1) dhcp_process_discover [OF d(1), of ?i] dhcp_process_request [OF d(1), of ?i] by auto
  then have "snd (dhcp_handle D (dhcp_server_new ?i) request) = Some reply"
    by (simp add: dhcp_handle_def dhcp_server_new_def)
  moreover have "octets_at (ip_octets addr) 0 = addr" using octets_at_append [of "[]" 0 addr "[]"] by simp
  ultimately have "dhcp_service D ?i vm_mac frame request
      = Some (wrap_udp_reply reply (mac_at frame 6) (net_gateway (ipam_network ?i)) addr 67 68)"
    using r(2) sm by (simp add: dhcp_service_def)
  then have "service_reply D N s name frame
      = Done (Some (wrap_udp_reply reply (mac_at frame 6) (net_gateway (ipam_network ?i)) addr 67 68))"
    using service_reply_dhcp [OF pb p, of D N] by simp
  then show ?thesis using a r(1) i(2) port_inbox_inject(1) [OF i(1) b(1)] by (auto simp: pump_frame_def)
qed

section \<open>The runt frame\<close>

lemma poisoned_ops:
  assumes "(m, f) \<in> set (cp_methods (dp_control_plane J C E))" "dp_poisoned s"
  shows "fst (f s p) = s" "snd (f s p) = Inl Internal \<or> snd (f s p) = Inl InvalidParams"
proof -
  have e: "str_p J p k = Inl x \<Longrightarrow> x = InvalidParams" "u16_p J p k = Inl x \<Longrightarrow> x = InvalidParams"
    "mac_p J p k = Inl x \<Longrightarrow> x = InvalidParams" for k x
    by (auto simp: str_p_def u16_p_def mac_p_def split: sum.splits)
  have "fst (f s p) = s \<and> (snd (f s p) = Inl Internal \<or> snd (f s p) = Inl InvalidParams)"
    using assms unfolding cp_methods_def dp_control_plane_def
    by (auto simp: dp_create_network_def dp_delete_network_def dp_get_network_def dp_create_port_def dp_delete_port_def
        dp_get_port_def dp_attach_port_def dp_detach_port_def dp_allocate_ip_def dp_release_ip_def dp_publish_port_def
        dp_unpublish_port_def dp_lock_def try_in_def split: sum.splits dest: e)
  then show "fst (f s p) = s" "snd (f s p) = Inl Internal \<or> snd (f s p) = Inl InvalidParams" by blast+
qed

text \<open>
  C14: one runt frame stops the daemon. When an attached VM sends an Ethernet header with the IPv4
  ethertype and nothing behind it, the pump panics under the lock. From then on every control-plane
  request is answered with an error and changes nothing, and no frame of any port is forwarded.
\<close>

theorem runt_frame_stops_daemon:
  assumes "\<not> dp_poisoned s" "port_binding s name \<noteq> None"
    and "length frame = 14" "ethertype frame = Some ETHERTYPE_IPV4"
    and "(m, f) \<in> set (cp_methods (dp_control_plane J C E))"
    and s'_def: "s' = pump_frame D N E s name me frame"
  shows "dp_poisoned s' \<and> fst (f s' params) = s'
    \<and> (snd (f s' params) = Inl Internal \<or> snd (f s' params) = Inl InvalidParams)
    \<and> pump_frame D N E s' other_name other_id other_frame = s'"
proof -
  have "parse_ipv4 frame = Panicked" using assms(3,4) by (simp add: parse_ipv4_def)
  then have p: "dp_poisoned s'" using assms(1,2)
    by (auto simp: s'_def pump_frame_def service_reply_def split: option.splits)
  show ?thesis using poisoned_ops [OF assms(5) p] p by (simp add: pump_frame_def)
qed

section \<open>Witnesses\<close>

definition demo_frame :: bytes where
  "demo_frame = eth_frame (MacAddr 255 255 255 255 255 255) (demo_mac 1) 0x88B5 [1, 2, 3]"

lemma demo_frame_facts:
  "parse_frame demo_frame = Inr \<lparr>pf_dst = MacAddr 255 255 255 255 255 255, pf_src = demo_mac 1, pf_ethertype = 0x88B5, pf_payload = [1, 2, 3]\<rparr>"
  "\<not> is_local_unicast demo_frame" "ethertype demo_frame = Some 0x88B5"
  unfolding demo_frame_def
  by (simp_all add: parse_eth_frame) (simp_all add: eth_frame_def is_local_unicast_def ethertype_def demo_mac_def be16_bytes_def be16_def)

lemma pt_default_ok: "pt_wf pt_default" "pt_inj pt_default"
  by (simp_all add: pt_inj_def)

lemma demo_start: "dp_from_parts ''/run'' pt_default demo_world = demo_fresh"
  by (simp add: demo_fresh_def)

theorem pump_isolated_witness:
  "port_inbox (pump_frame (demo_codec Discover) demo_no_dns demo_os demo_both ''a'' 1 demo_frame) ''b'' = port_inbox demo_both ''b''
   \<or> port_inbox (pump_frame (demo_codec Discover) demo_no_dns demo_os demo_both ''a'' 1 demo_frame) ''b''
      = port_inbox demo_both ''b'' @ [demo_frame]"
  using pump_isolated [OF demo_runs(2) [folded demo_start] pt_default_ok _ demo_both_facts(1,2),
      of "demo_codec Discover" demo_no_dns demo_frame]
  by (auto simp: demo_port_def)

text \<open>A codec whose encoded replies carry the offered address where DHCP has it.\<close>

definition demo_dhcp :: "message_type \<Rightarrow> dhcp_codec" where
  "demo_dhcp t = (demo_codec t)\<lparr>dc_encode := (\<lambda>m. Some (replicate 16 0 @ ip_octets (dm_yiaddr m)))\<rparr>"

lemma demo_binding: "port_binding demo_att ''a'' = Some (demo_ipam [(demo_mac 1, 0xC0A87C0A)], demo_mac 1)"
  by (simp add: port_binding_def demo_att_facts)

theorem dhcp_reservation_served_witness:
  "port_inbox (pump_frame (demo_dhcp Discover) demo_no_dns demo_os demo_att ''a'' 1
      (wrap_udp_reply demo_packet (demo_mac 9) 0xC0A87C01 0xFFFFFFFF 68 67)) ''a''
   = port_inbox demo_att ''a'' @ [wrap_udp_reply (replicate 16 0 @ ip_octets 0xC0A87C0A)
      (mac_at (wrap_udp_reply demo_packet (demo_mac 9) 0xC0A87C01 0xFFFFFFFF 68 67) 6) (net_gateway lab_network) 0xC0A87C0A 67 68]"
proof -
  let ?f = "wrap_udp_reply demo_packet (demo_mac 9) 0xC0A87C01 0xFFFFFFFF 68 67"
  have len: "length demo_packet = 240" by (simp add: demo_packet_def dhcp_magic_def)
  then have u: "u16_saturate (8 + length demo_packet) = of_nat (8 + length demo_packet)" by (simp add: u16_saturate_def)
  note p = wrap_udp_reply_facts(1) [of demo_packet "demo_mac 9" "0xC0A87C01" "0xFFFFFFFF" 68 67, unfolded u]
  have adm: "dhcp_admits (demo_dhcp Discover) demo_packet (demo_message Discover) (demo_mac 1)"
    using demo_admits [of Discover] by (simp add: dhcp_admits_def demo_dhcp_def demo_mac_def)
  obtain e lp where e: "map_of (in_ports demo_att) ''a'' = Some lp" "lp_network lp = Some ''lab''" "lp_mac lp = Some (demo_mac 1)"
      "map_of (in_networks demo_att) ''lab'' = Some e" "ne_ipam e = demo_ipam [(demo_mac 1, 0xC0A87C0A)]"
    by (simp add: demo_att_facts)
  then have lk: "ipam_lookup (ne_ipam e) (demo_mac 1) = Some 0xC0A87C0A" by simp
  have enc: "\<forall>m. length (dm_chaddr m) = 6 \<longrightarrow> (\<exists>bs. dc_encode (demo_dhcp Discover) m = Some bs
      \<and> slice_get bs 16 20 = Some (ip_octets (dm_yiaddr m)))"
    by (simp add: demo_dhcp_def slice_get_def)
  from dhcp_reservation_served [OF demo_inv(5) demo_att_facts(4) e(1-4) p _ _ _ _ adm lk _ enc,
      where ck = "[0, 0]" and me = 1 and E = demo_os and N = demo_no_dns] len demo_type
  obtain out reply where "dhcp_answer lab_network (demo_message Discover) 0xC0A87C0A Offer out"
      "dc_encode (demo_dhcp Discover) out = Some reply"
      "port_inbox (pump_frame (demo_dhcp Discover) demo_no_dns demo_os demo_att ''a'' 1 ?f) ''a''
        = port_inbox demo_att ''a'' @ [wrap_udp_reply reply (mac_at ?f 6) (net_gateway lab_network) 0xC0A87C0A 67 68]"
    by (auto simp: e(5))
  then show ?thesis by (simp add: demo_dhcp_def dhcp_answer_def)
qed

theorem runt_frame_stops_daemon_witness:
  "fst (dp_get_port tree_json (pump_frame (demo_codec Discover) demo_no_dns demo_os demo_att ''a'' 1 (replicate 12 0 @ [8, 0]))
      (name_params ''a''))
   = pump_frame (demo_codec Discover) demo_no_dns demo_os demo_att ''a'' 1 (replicate 12 0 @ [8, 0])"
proof -
  have m: "(''GetPort'', dp_get_port tree_json) \<in> set (cp_methods (dp_control_plane tree_json tree_codec demo_os))"
    by (simp add: cp_methods_def dp_control_plane_def)
  have "port_binding demo_att ''a'' \<noteq> None" "length (replicate 12 0 @ [8, 0] :: bytes) = 14"
    "ethertype (replicate 12 0 @ [8, 0]) = Some ETHERTYPE_IPV4"
    by (simp_all add: demo_binding ethertype_def be16_def nth_append)
  from runt_frame_stops_daemon [OF demo_att_facts(4) this m refl, of "demo_codec Discover" demo_no_dns 1 "name_params ''a''"]
  show ?thesis by blast
qed

end
