(* ===== verification/Control_Spec.thy ===== *)
theory Control_Spec
  imports Rpc_Server
begin

text \<open>
  What a control plane promises, apart from how it is built: an abstract state of networks, ports
  with their attachments, and published host ports, commands decoded from requests, and what an
  acknowledged command does. The locale \<open>control_plane_spec\<close> states that an implementation
  refines this specification through an abstraction function; runs of acknowledged requests are
  related once, inside it. The in-memory control plane is an instance here, the dataplane in
  \<open>Dataplane_Spec\<close>, and two instances are compared through the specification.
\<close>

section \<open>Specification\<close>

text \<open>
  Networks with the request that created them, ports with network and MAC when attached, and the
  host port of every published pair.
\<close>

record 'v ctl =
  ctl_networks :: "string \<rightharpoonup> 'v"
  ctl_ports :: "string \<rightharpoonup> (string \<times> mac_addr) option"
  ctl_published :: "string \<times> u16 \<rightharpoonup> u16"

datatype 'v ctl_cmd =
    CreateNet string 'v | DeleteNet string
  | CreatePrt string | DeletePrt string
  | AttachPrt string string mac_addr | DetachPrt string
  | PublishPrt string u16 | UnpublishPrt string u16
  | Quiet

text \<open>The command of a request: its method and the parameters it names.\<close>

definition opt_bind2 :: "('e, 'a) result \<Rightarrow> ('e, 'b) result \<Rightarrow> ('a \<Rightarrow> 'b \<Rightarrow> 'c) \<Rightarrow> 'c option" where
  "opt_bind2 a b f = (case (a, b) of (Inr x, Inr y) \<Rightarrow> Some (f x y) | _ \<Rightarrow> None)"

definition ctl_decode :: "'v json_api \<Rightarrow> string \<Rightarrow> 'v \<Rightarrow> 'v ctl_cmd option" where
  "ctl_decode J m params =
     (if m = ''CreateNetwork'' then map_option (\<lambda>nm. CreateNet nm params) (result_ok (str_param J params ''name''))
      else if m = ''DeleteNetwork'' then map_option DeleteNet (result_ok (str_param J params ''name''))
      else if m = ''CreatePort'' then map_option CreatePrt (result_ok (str_param J params ''name''))
      else if m = ''DeletePort'' then map_option DeletePrt (result_ok (str_param J params ''name''))
      else if m = ''DetachPort'' then map_option DetachPrt (result_ok (str_param J params ''name''))
      else if m = ''AttachPort''
      then Option.bind (opt_bind2 (str_param J params ''port'') (str_param J params ''network'') AttachPrt)
             (\<lambda>c. map_option c (result_ok (mac_param J params ''mac'')))
      else if m = ''PublishPort'' then opt_bind2 (str_param J params ''port'') (u16_param J params ''vm_port'') PublishPrt
      else if m = ''UnpublishPort'' then opt_bind2 (str_param J params ''port'') (u16_param J params ''vm_port'') UnpublishPrt
      else Some Quiet)"

text \<open>The host port a publication gets: the recorded one, else the lowest free one of the range.\<close>

definition ctl_host :: "u16 \<times> u16 \<Rightarrow> string \<Rightarrow> u16 \<Rightarrow> 'v ctl \<Rightarrow> u16 option" where
  "ctl_host rng p vm c =
     (case ctl_published c (p, vm) of
        Some h \<Rightarrow> Some h
      | None \<Rightarrow> map_option of_nat (find_range (unat (fst rng)) (unat (snd rng)) (\<lambda>n. of_nat n \<notin> ran (ctl_published c))))"

fun ctl_apply :: "u16 \<times> u16 \<Rightarrow> 'v ctl_cmd \<Rightarrow> 'v ctl \<Rightarrow> 'v ctl" where
  "ctl_apply rng (CreateNet nm params) c = c\<lparr>ctl_networks := (ctl_networks c)(nm \<mapsto> params)\<rparr>"
| "ctl_apply rng (DeleteNet nm) c = c\<lparr>ctl_networks := (ctl_networks c)(nm := None)\<rparr>"
| "ctl_apply rng (CreatePrt nm) c =
     (if ctl_ports c nm = None then c\<lparr>ctl_ports := (ctl_ports c)(nm \<mapsto> None)\<rparr> else c)"
| "ctl_apply rng (DeletePrt nm) c =
     c\<lparr>ctl_ports := (ctl_ports c)(nm := None), ctl_published := (\<lambda>(p, v). if p = nm then None else ctl_published c (p, v))\<rparr>"
| "ctl_apply rng (AttachPrt nm net mac) c = c\<lparr>ctl_ports := (ctl_ports c)(nm \<mapsto> Some (net, mac))\<rparr>"
| "ctl_apply rng (DetachPrt nm) c =
     c\<lparr>ctl_ports := (ctl_ports c)(nm \<mapsto> None), ctl_published := (\<lambda>(p, v). if p = nm then None else ctl_published c (p, v))\<rparr>"
| "ctl_apply rng (PublishPrt nm vm) c = c\<lparr>ctl_published := (ctl_published c)((nm, vm) := ctl_host rng nm vm c)\<rparr>"
| "ctl_apply rng (UnpublishPrt nm vm) c = c\<lparr>ctl_published := (ctl_published c)((nm, vm) := None)\<rparr>"
| "ctl_apply rng Quiet c = c"

text \<open>The answer, where the specification fixes it.\<close>

fun ctl_answer :: "'v json_api \<Rightarrow> u16 \<times> u16 \<Rightarrow> 'v ctl_cmd \<Rightarrow> 'v ctl \<Rightarrow> 'v option" where
  "ctl_answer J rng (PublishPrt nm vm) c =
     map_option (\<lambda>h. jn_object J [(''host_port'', jn_number J (ucast h))]) (ctl_host rng nm vm c)"
| "ctl_answer J rng Quiet c = None"
| "ctl_answer J rng _ c = Some (jn_null J)"

text \<open>A run of requests that are all acknowledged, with its answers; \<open>None\<close> when one is refused.\<close>

fun cp_run :: "('s, 'v) control_plane \<Rightarrow> 's \<Rightarrow> (string \<times> 'v) list \<Rightarrow> ('s \<times> 'v list) option" where
  "cp_run cp s [] = Some (s, [])"
| "cp_run cp s ((m, params) # reqs) =
     (case map_of (cp_methods cp) m of
        None \<Rightarrow> None
      | Some f \<Rightarrow>
          (case f s params of
             (s', Inl _) \<Rightarrow> None
           | (s', Inr v) \<Rightarrow> map_option (\<lambda>(t, vs). (t, v # vs)) (cp_run cp s' reqs)))"

fun ctl_run :: "'v json_api \<Rightarrow> u16 \<times> u16 \<Rightarrow> 'v ctl \<Rightarrow> (string \<times> 'v) list \<Rightarrow> ('v ctl \<times> ('v ctl_cmd \<times> 'v option) list) option" where
  "ctl_run J rng c [] = Some (c, [])"
| "ctl_run J rng c ((m, params) # reqs) =
     (case ctl_decode J m params of
        None \<Rightarrow> None
      | Some cmd \<Rightarrow>
          map_option (\<lambda>(d, vs). (d, (cmd, ctl_answer J rng cmd c) # vs)) (ctl_run J rng (ctl_apply rng cmd c) reqs))"

text \<open>An answer agrees with the specification where that fixes it.\<close>

fun agrees :: "'v ctl_cmd \<times> 'v option \<Rightarrow> 'v \<Rightarrow> bool" where
  "agrees (cmd, a) v = (cmd = Quiet \<or> a = Some v)"

lemma ctl_run_length: "ctl_run J rng c reqs = Some (d, as) \<Longrightarrow> length as = length reqs"
  by (induction J rng c reqs arbitrary: as rule: ctl_run.induct) (auto split: option.splits)

text \<open>The answer to a publication is fixed.\<close>

lemma ctl_run_publish:
  "ctl_run J rng c reqs = Some (d, as) \<Longrightarrow> i < length reqs \<Longrightarrow> fst (reqs ! i) = ''PublishPort'' \<Longrightarrow> fst (as ! i) \<noteq> Quiet"
proof (induction J rng c reqs arbitrary: as i rule: ctl_run.induct)
  case (2 J rng c m params reqs)
  then show ?case by (cases i) (auto simp: ctl_decode_def opt_bind2_def split: option.splits sum.splits prod.splits)
qed simp

section \<open>Refinement\<close>

text \<open>One acknowledged operation is a command of the specification.\<close>

definition refines_op ::
  "'v json_api \<Rightarrow> ('s \<Rightarrow> 'v ctl) \<Rightarrow> ('s \<Rightarrow> u16 \<times> u16) \<Rightarrow> string \<Rightarrow> ('s, 'v) cp_op \<Rightarrow> 's \<Rightarrow> 'v \<Rightarrow> bool" where
  "refines_op J absf rng m f s params =
     (\<forall>s' v. f s params = (s', Inr v) \<longrightarrow>
        (\<exists>cmd. ctl_decode J m params = Some cmd \<and> absf s' = ctl_apply (rng s) cmd (absf s) \<and> rng s' = rng s
           \<and> agrees (cmd, ctl_answer J (rng s) cmd (absf s)) v))"

locale control_plane_spec = control_plane_impl cp inv
  for cp :: "('s, 'v) control_plane" and inv :: "'s \<Rightarrow> bool" +
  fixes J :: "'v json_api"
    and absf :: "'s \<Rightarrow> 'v ctl"
    and rng :: "'s \<Rightarrow> u16 \<times> u16"
  assumes op_refines:
    "(m, f) \<in> set (cp_methods cp) \<Longrightarrow> inv s \<Longrightarrow> refines_op J absf rng m f s params"
begin

lemma run_refines:
  "inv s \<Longrightarrow> cp_run cp s reqs = Some (t, vs) \<Longrightarrow>
     inv t \<and> rng t = rng s \<and> (\<exists>as. ctl_run J (rng s) (absf s) reqs = Some (absf t, as) \<and> list_all2 agrees as vs)"
proof (induction reqs arbitrary: s vs)
  case Nil
  then show ?case by simp
next
  case (Cons r reqs)
  obtain m params where r: "r = (m, params)" by fastforce
  with Cons.prems(2) obtain f s' v us where f: "map_of (cp_methods cp) m = Some f" "f s params = (s', Inr v)"
    and run: "cp_run cp s' reqs = Some (t, us)" and vs: "vs = v # us"
    by (auto split: option.splits prod.splits sum.splits)
  note mem = map_of_SomeD [OF f(1)]
  have i: "inv s'" using op_inv [OF mem Cons.prems(1), of params] f(2) by simp
  obtain cmd where c: "ctl_decode J m params = Some cmd" "absf s' = ctl_apply (rng s) cmd (absf s)" "rng s' = rng s"
      "agrees (cmd, ctl_answer J (rng s) cmd (absf s)) v"
    using op_refines [OF mem Cons.prems(1), of params] f(2) unfolding refines_op_def by blast
  then show ?case using Cons.IH [OF i run] r vs by auto
qed

end

section \<open>The in-memory control plane\<close>

text \<open>The attachment of a port: network and MAC, both or none.\<close>

definition attachment :: "string option \<Rightarrow> mac_addr option \<Rightarrow> (string \<times> mac_addr) option" where
  "attachment net mac = (case (net, mac) of (Some n, Some m) \<Rightarrow> Some (n, m) | _ \<Rightarrow> None)"

lemma attachment_simps [simp]:
  "attachment None mac = None" "attachment net None = None" "attachment (Some n) (Some m) = Some (n, m)"
  by (simp_all add: attachment_def split: option.split)

definition mem_abs :: "'v mem_plane \<Rightarrow> 'v ctl" where
  "mem_abs s =
     \<lparr>ctl_networks = (\<lambda>nm. map_option mn_created_with (map_of (mp_networks s) nm)),
      ctl_ports = (\<lambda>nm. map_option (\<lambda>p. attachment (port_network p) (port_mac p)) (map_of (mp_ports s) nm)),
      ctl_published = pt_key_get (mp_publish_table s)\<rparr>"

text \<open>The table's allocator picks the host port of the specification.\<close>

lemma pt_allocate_host:
  assumes "pt_wf t" "pt_allocate t p v rng = (t', r)" "ctl_published c = pt_key_get t"
  shows "r = ctl_host rng p v c" "r \<noteq> None \<Longrightarrow> pt_key_get t' = (pt_key_get t)((p, v) := r)"
proof -
  have u: "(\<lambda>n. of_nat n \<notin> set (pt_used t)) = (\<lambda>n. of_nat n \<notin> ran (pt_key_get t))"
    using pt_used_iff [OF assms(1)] by (simp add: ran_pt_key_get)
  have g: "pt_key_get t (p, v) = pt_get t p v" by (simp add: pt_key_get_def)
  show "r = ctl_host rng p v c"
    using assms(2) unfolding pt_allocate_def ctl_host_def assms(3) u g Let_def by (auto split: option.splits)
  show "pt_key_get t' = (pt_key_get t)((p, v) := r)" if "r \<noteq> None"
  proof (cases "pt_get t p v")
    case None
    then show ?thesis using that pt_allocate_new [OF assms(1) None, of rng t'] assms(2)
      by (auto simp: fun_eq_iff pt_key_get_def)
  next
    case (Some h)
    then have "t' = t" "r = Some h" using assms(2) by (simp_all add: pt_allocate_hit)
    then show ?thesis using Some by (auto simp: fun_eq_iff pt_key_get_def)
  qed
qed

lemma pt_key_get_remove_port:
  "pt_wf t \<Longrightarrow> pt_key_get (fst (pt_remove_port t nm)) = (\<lambda>(p, v). if p = nm then None else pt_key_get t (p, v))"
  by (auto simp: fun_eq_iff pt_key_get_def pt_remove_port_spec)

lemma pt_key_get_remove: "pt_wf t \<Longrightarrow> pt_key_get (fst (pt_remove t p v)) = (pt_key_get t)((p, v) := None)"
  by (auto simp: fun_eq_iff pt_key_get_def pt_remove_spec)

lemmas ctl_decode_simps = ctl_decode_def opt_bind2_def

lemma mem_refines_networks:
  assumes "mem_inv s"
  shows "refines_op J mem_abs mp_publish_range ''CreateNetwork'' (mem_create_network J) s params"
    "refines_op J mem_abs mp_publish_range ''DeleteNetwork'' (mem_delete_network J) s params"
  using mem_invD(1) [OF assms]
  by (auto simp: refines_op_def mem_create_network_def mem_delete_network_def try_in_def ctl_decode_simps
      mem_abs_def fun_eq_iff split: sum.splits option.splits if_splits)

lemma mem_refines_ports:
  assumes "mem_inv s"
  shows "refines_op J mem_abs mp_publish_range ''CreatePort'' (mem_create_port J) s params"
    "refines_op J mem_abs mp_publish_range ''DeletePort'' (mem_delete_port J) s params"
    "refines_op J mem_abs mp_publish_range ''DetachPort'' (mem_detach_port J) s params"
  using mem_invD [OF assms]
  by (auto simp: refines_op_def mem_create_port_def mem_delete_port_def mem_detach_port_def try_in_def ctl_decode_simps
      mem_abs_def fun_eq_iff pt_key_get_remove_port port_new_def port_detach_def split: sum.splits option.splits if_splits)

lemma mem_refines_attach:
  assumes "mem_inv s"
  shows "refines_op J mem_abs mp_publish_range ''AttachPort'' (mem_attach_port J) s params"
  using mem_invD(1,2) [OF assms]
  by (auto simp: refines_op_def mem_attach_port_def Let_def try_in_def ctl_decode_simps mem_abs_def fun_eq_iff
      port_attach_def split: sum.splits option.splits if_splits prod.splits)

lemma mem_refines_publish:
  assumes "mem_inv s"
  shows "refines_op J mem_abs mp_publish_range ''PublishPort'' (mem_publish_port J) s params"
    "refines_op J mem_abs mp_publish_range ''UnpublishPort'' (mem_unpublish_port J) s params"
proof -
  note wf = mem_invD(3) [OF assms]
  have c: "ctl_published (mem_abs s) = pt_key_get (mp_publish_table s)" by (simp add: mem_abs_def)
  have hit: "ctl_host (mp_publish_range s) p v (mem_abs s) = Some h" "(pt_key_get (mp_publish_table s))((p, v) \<mapsto> h) = pt_key_get (mp_publish_table s)"
    if "pt_get (mp_publish_table s) p v = Some h" for p v h
    using that by (simp_all add: ctl_host_def c pt_key_get_def fun_eq_iff)
  have miss: "ctl_host (mp_publish_range s) p v (mem_abs s) = Some h" "pt_key_get t' = (pt_key_get (mp_publish_table s))((p, v) \<mapsto> h)"
    if "pt_allocate (mp_publish_table s) p v (mp_publish_range s) = (t', Some h)" for p v t' h
    using pt_allocate_host(1) [OF wf that c] pt_allocate_host(2) [OF wf that c option.distinct(2)]
    by (simp_all only:)
  show "refines_op J mem_abs mp_publish_range ''PublishPort'' (mem_publish_port J) s params"
    using hit miss
    by (auto simp: refines_op_def mem_publish_port_def try_in_def ctl_decode_simps c split: sum.splits option.splits
        if_splits prod.splits) (simp_all add: mem_abs_def)
  show "refines_op J mem_abs mp_publish_range ''UnpublishPort'' (mem_unpublish_port J) s params"
    using pt_key_get_remove [OF wf]
    by (auto simp: refines_op_def mem_unpublish_port_def try_in_def ctl_decode_simps c split: sum.splits option.splits
        if_splits prod.splits) (simp_all add: mem_abs_def, metis fst_conv)
qed

lemma mem_refines_quiet:
  assumes "mem_inv s"
  shows "refines_op J mem_abs mp_publish_range ''GetNetwork'' (mem_get_network J) s params"
    "refines_op J mem_abs mp_publish_range ''GetPort'' (mem_get_port J) s params"
    "refines_op J mem_abs mp_publish_range ''AllocateIP'' (mem_allocate_ip J) s params"
    "refines_op J mem_abs mp_publish_range ''ReleaseIP'' (mem_release_ip J) s params"
  using mem_invD(1) [OF assms]
  by (auto simp: refines_op_def mem_get_network_def mem_get_port_def mem_allocate_ip_def mem_release_ip_def try_in_def
      ctl_decode_simps mem_abs_def fun_eq_iff split: sum.splits option.splits if_splits prod.splits ipam_error.splits)

interpretation mems: control_plane_spec "mem_control_plane J" mem_inv J mem_abs mp_publish_range for J :: "'v json_api"
proof
  fix m :: string and f :: "('v mem_plane, 'v) cp_op" and s :: "'v mem_plane" and params :: 'v
  assume "(m, f) \<in> set (cp_methods (mem_control_plane J))" and i: "mem_inv s"
  then show "refines_op J mem_abs mp_publish_range m f s params"
    using mem_refines_networks [OF i] mem_refines_ports [OF i] mem_refines_attach [OF i] mem_refines_publish [OF i]
      mem_refines_quiet [OF i]
    by (auto simp: cp_methods_def mem_control_plane_def)
qed

end
