(* ===== verification/Dataplane_Lifecycle.thy ===== *)
theory Dataplane_Lifecycle
  imports Dataplane_Demo
begin

text \<open>
  What the control-plane operations promise: an acknowledged change is on disk, a restart brings
  the published ports back, attaching gives a port everything it needs, deleting takes all of it
  away, and the supervision of the WAN process restarts it.
\<close>

section \<open>Soundness of every reachable state\<close>

text \<open>
  C1: whatever requests arrive, whatever frames the VMs and the WAN processes send, in whatever order
  the threads run and whatever system calls fail, the daemon's state stays sound: every network is
  valid, mirrored in the gateway function, and its reservations are distinct addresses of its pool;
  every port is attached completely or not at all and has a vhost port of its own that is open;
  every host port belongs to one published pair; every WAN slot runs its process or waits for a
  retry; the switch's tables are well-formed. The same holds when the run starts from the published
  ports of an earlier one.
\<close>

theorem dp_reachable_sound:
  assumes "(dp_step J C E D N)\<^sup>*\<^sup>* (dp_from_parts dir tbl w) s" "pt_wf tbl" "pt_inj tbl"
  shows "dp_inv s"
  using assms(1)
proof (induction rule: rtranclp_induct)
  case base
  show ?case by (rule dp_from_parts_inv) (simp add: table_ok_def assms(2,3))
next
  case (step y z)
  then show ?case using dp_step_inv by blast
qed

section \<open>Durability\<close>

text \<open>The state file holds the store of the state in memory.\<close>

definition dp_written :: "'v snap_codec \<Rightarrow> 'v dataplane \<Rightarrow> bool" where
  "dp_written C s =
     (\<exists>content. sc_encode C (snapshot_from_store (dp_store s)) = Inr content
        \<and> w_fs (dp_world s) (state_file_path (dp_socket_dir s)) = Some content)"

text \<open>
  What it means that a store describes the state in memory, entry by entry. The store has one map of
  reservations for all networks, with the MAC as the only key: where several networks reserve an
  address for the same MAC, the record is the one of the last network in name order.
\<close>

definition describes_network :: "'v network_entry \<Rightarrow> 'v network_state \<Rightarrow> bool" where
  "describes_network e ns =
     (let n = ipam_network (ne_ipam e) in
      nst_cidr ns = show_cidr (net_cidr n) \<and> nst_gateway ns = show_ip (net_gateway n) \<and> nst_dns ns = []
      \<and> nst_mtu ns = 1500 \<and> nst_params ns = ne_created_with e
      \<and> nst_pool_start ns = Some (show_ip (pool_start (net_pool n)))
      \<and> nst_pool_end ns = Some (show_ip (pool_end (net_pool n))))"

definition describes_port :: "'v dataplane \<Rightarrow> live_port \<Rightarrow> port_state \<Rightarrow> bool" where
  "describes_port s lp ps =
     (pst_mac ps = map_option show_mac (lp_mac lp)
      \<and> pst_ipam ps = \<lparr>ips_free_ranges = [], ips_allocations = []\<rparr>
      \<and> (\<forall>t. pst_vm_ip ps = Some t \<longleftrightarrow>
           (\<exists>net mac e ip. lp_network lp = Some net \<and> lp_mac lp = Some mac \<and> map_of (in_networks s) net = Some e
              \<and> ipam_lookup (ne_ipam e) mac = Some ip \<and> t = show_ip ip)))"

definition describes_record :: "'v dataplane \<Rightarrow> string \<Rightarrow> string \<Rightarrow> bool" where
  "describes_record s k v =
     (\<exists>net e mac ip. k = show_mac mac \<and> v = show_ip ip
        \<and> map_of (in_networks s) net = Some e \<and> ipam_lookup (ne_ipam e) mac = Some ip
        \<and> (\<forall>net' e'. map_of (in_networks s) net' = Some e' \<longrightarrow> net < net' \<longrightarrow> ipam_lookup (ne_ipam e') mac = None))"

definition describes :: "'v dataplane \<Rightarrow> 'v state_store \<Rightarrow> bool" where
  "describes s st =
     (st_publish_table st = in_publish_table s \<and> st_dhcp_leases st = []
      \<and> (\<forall>nm. rel_option describes_network (map_of (in_networks s) nm) (map_of (st_networks st) nm))
      \<and> (\<forall>nm. rel_option (describes_port s) (map_of (in_ports s) nm) (map_of (st_ports st) nm))
      \<and> (\<forall>k v. map_of (st_ipam_records st) k = Some v \<longleftrightarrow> describes_record s k v))"

text \<open>What a daemon that is started now would load describes the state in memory.\<close>

definition dp_synced :: "'v json_api \<Rightarrow> 'v snap_codec \<Rightarrow> 'v dataplane \<Rightarrow> bool" where
  "dp_synced J C s =
     (\<exists>st. snd (load_from_disk J C io_all_ok (dp_socket_dir s) (w_fs (dp_world s))) = Inr st \<and> describes s st)"

lemma dp_store_cong:
  assumes "in_networks s' = in_networks s" "in_ports s' = in_ports s" "in_publish_table s' = in_publish_table s"
  shows "dp_store s' = dp_store s"
proof -
  have "dp_port_state s' = dp_port_state s" using assms by (simp add: fun_eq_iff dp_port_state_def dp_port_ip_def)
  then show ?thesis using assms by (simp add: dp_store_def)
qed

lemma dp_written_cong:
  assumes "in_networks s' = in_networks s" "in_ports s' = in_ports s" "in_publish_table s' = in_publish_table s"
    "dp_socket_dir s' = dp_socket_dir s"
    "w_fs (dp_world s') (state_file_path (dp_socket_dir s)) = w_fs (dp_world s) (state_file_path (dp_socket_dir s))"
  shows "dp_written C s' = dp_written C s"
  using assms dp_store_cong [OF assms(1-3)] by (simp add: dp_written_def)

lemma persist_written: "dp_persist C E s = (s', Inr ()) \<Longrightarrow> dp_written C s'"
proof -
  assume p: "dp_persist C E s = (s', Inr ())"
  obtain fs r where sv: "save_to_disk C (os_save E (dp_tick s)) (dp_store s) (dp_socket_dir s) (w_fs (dp_world s)) = (fs, r)"
    by (cases "save_to_disk C (os_save E (dp_tick s)) (dp_store s) (dp_socket_dir s) (w_fs (dp_world s))")
  have r: "r = Inr ()" and s': "s' = s\<lparr>dp_world := world_tick (dp_world s)\<lparr>w_fs := fs\<rparr>\<rparr>"
    using p sv by (auto simp: dp_persist_def split: sum.splits)
  obtain content where "sc_encode C (snapshot_from_store (dp_store s)) = Inr content"
    "fs (state_file_path (dp_socket_dir s)) = Some content"
    using save_written [OF sv [unfolded r]] by blast
  moreover have "dp_store s' = dp_store s" unfolding s' by (rule dp_store_cong) simp_all
  ultimately show ?thesis by (simp add: dp_written_def s')
qed

text \<open>The sockets of ports are never the state file.\<close>

lemma sock_not_state [simp]: "path_join d (nm @ ''.sock'') \<noteq> state_file_path d'"
proof
  assume e: "path_join d (nm @ ''.sock'') = state_file_path d'"
  have "last (path_join d (nm @ ''.sock'')) = CHR ''k''" by (simp add: path_join_def)
  moreover have "last (state_file_path d') = CHR ''n''" by (simp add: state_file_path_def path_join_def STATE_FILE_NAME_def)
  ultimately show False using e by simp
qed

definition written_or_same :: "'v snap_codec \<Rightarrow> 'v dataplane \<Rightarrow> 'v dataplane \<times> (rpc_error, 'a) result \<Rightarrow> bool" where
  "written_or_same C s0 m = (case m of (s, r) \<Rightarrow> (case r of Inl _ \<Rightarrow> True | Inr _ \<Rightarrow> s = s0 \<or> dp_written C s))"

lemma written_simps [simp]:
  "written_or_same C s0 (s, Inl e)" "written_or_same C s0 (s0, Inr v)"
  "written_or_same C s0 (s, Inr v) = (s = s0 \<or> dp_written C s)"
  by (simp_all add: written_or_same_def)

lemma written_try: "(\<And>v. r = Inr v \<Longrightarrow> written_or_same C s0 (f v)) \<Longrightarrow> written_or_same C s0 (try_in s r f)"
  by (cases r) simp_all

lemma written_then: "(\<And>s' v. m = (s', Inr v) \<Longrightarrow> written_or_same C s0 (f s' v)) \<Longrightarrow> written_or_same C s0 (and_then m f)"
  by (auto simp: and_then_def split: prod.split sum.split)

lemma written_persist:
  "(\<And>s'. dp_written C s' \<Longrightarrow> written_or_same C s0 (f s' ())) \<Longrightarrow> written_or_same C s0 (and_then (dp_persist C E s) f)"
  by (rule written_then) (auto dest: persist_written)

lemma written_slots [simp]:
  "dp_written C (teardown_passt s nm) = dp_written C s" "dp_written C (fst (ensure_passt E s nm ip pub)) = dp_written C s"
  by (intro dp_written_cong; simp)+

lemma written_sync: "dp_written C s \<Longrightarrow> dp_sync_passt E s nm = (s', r) \<Longrightarrow> dp_written C s'"
  unfolding dp_sync_passt_def
  by (auto simp: try_in_def split: sum.splits) (metis fst_conv written_slots(2))+

lemma state_not_sock [simp]: "state_file_path d \<noteq> dp_sock t nm"
  using sock_not_state by (metis dp_sock_def)

lemma written_delete_tail:
  assumes "dp_written C s3" "w_fs w (state_file_path (dp_socket_dir s3)) = w_fs (dp_world s3) (state_file_path (dp_socket_dir s3))"
  shows "dp_written C ((teardown_passt s3 nm)\<lparr>dp_world := w\<rparr>)"
  using assms by (subst dp_written_cong [of _ s3]) simp_all

lemma written_sync_then:
  "dp_written C s \<Longrightarrow> (\<And>s'. dp_written C s' \<Longrightarrow> written_or_same C s0 (f s' ())) \<Longrightarrow>
     written_or_same C s0 (and_then (dp_sync_passt E s nm) f)"
  by (rule written_then) (auto dest: written_sync)

lemmas written_rules = written_try written_persist written_then

lemma written_ops:
  "written_or_same C s (dp_create_network J C E s p)" "written_or_same C s (dp_delete_network J C E s p)"
  "written_or_same C s (dp_get_network J s p)" "written_or_same C s (dp_create_port J C E s p)"
  "written_or_same C s (dp_get_port J s p)" "written_or_same C s (dp_delete_port J C E s p)"
  "written_or_same C s (dp_detach_port J C E s p)"
  "written_or_same C s (dp_release_ip J C E s p)"
proof -
  show "written_or_same C s (dp_create_network J C E s p)"
    unfolding dp_create_network_def by (intro written_try) (auto split: option.split intro!: written_rules dest: persist_written)
  show "written_or_same C s (dp_delete_network J C E s p)"
    unfolding dp_delete_network_def Let_def by (intro written_try) (auto split: option.split intro!: written_rules dest: persist_written)
  show "written_or_same C s (dp_get_network J s p)" "written_or_same C s (dp_get_port J s p)"
    unfolding dp_get_network_def dp_get_port_def by (intro written_try; simp)+
  show "written_or_same C s (dp_create_port J C E s p)"
    unfolding dp_create_port_def Let_def by (intro written_try) (auto intro!: written_rules dest: persist_written)
  show "written_or_same C s (dp_delete_port J C E s p)"
    unfolding dp_delete_port_def Let_def
    by (intro written_try) (auto split: option.split intro!: written_persist simp: written_delete_tail)
  show "written_or_same C s (dp_detach_port J C E s p)"
    unfolding dp_detach_port_def Let_def by (intro written_try written_then written_persist) simp
  show "written_or_same C s (dp_release_ip J C E s p)"
    unfolding dp_release_ip_def Let_def
    by (intro written_try) (auto split: prod.split sum.split ipam_error.split intro!: written_persist)
qed

lemma written_attach: "written_or_same C s (dp_attach_port J C E s p)"
  unfolding dp_attach_port_def Let_def
  by (intro written_try) (auto split: prod.split sum.split intro!: written_try written_then written_persist dest: persist_written)

lemma written_publish:
  "written_or_same C s (dp_publish_port J C E s p)" "written_or_same C s (dp_unpublish_port J C E s p)"
proof -
  show "written_or_same C s (dp_publish_port J C E s p)"
    unfolding dp_publish_port_def
    by (intro written_try) (auto split: prod.split option.split intro!: written_persist written_sync_then)
  show "written_or_same C s (dp_unpublish_port J C E s p)"
    unfolding dp_unpublish_port_def
    by (intro written_try) (auto split: prod.split option.split intro!: written_persist written_sync_then)
qed

lemma dp_store_maps:
  "st_publish_table (dp_store s) = in_publish_table s" "st_dhcp_leases (dp_store s) = []"
  "store_wf (dp_store s)" "\<forall>p \<in> snd ` set (st_ports (dp_store s)). ips_allocations (pst_ipam p) = []"
proof -
  let ?f = "\<lambda>(nm, e) st. (insert_network st nm (dp_network_state e))
    \<lparr>st_ipam_records := bm_extend (st_ipam_records st) (ipam_snapshot (ne_ipam e))\<rparr>"
  let ?g = "\<lambda>(nm, lp) st. insert_port st nm (dp_port_state s lp)"
  define P :: "'a state_store \<Rightarrow> bool" where
    "P st = (st_publish_table st = in_publish_table s \<and> st_dhcp_leases st = [] \<and> store_wf st
       \<and> (\<forall>p \<in> snd ` set (st_ports st). ips_allocations (pst_ipam p) = []))" for st
  have "P (fold ?f nets st)" if "P st" for nets st
    using that
  proof (induction nets arbitrary: st)
    case (Cons x nets)
    have "P (?f x st)" using Cons.prems by (simp add: P_def insert_network_def store_wf_def case_prod_unfold)
    then show ?case using Cons.IH by simp
  qed simp
  moreover have "P (fold ?g ports st)" if "P st" for ports st
    using that
  proof (induction ports arbitrary: st)
    case (Cons x ports)
    obtain nm lp where x: "x = (nm, lp)" by (cases x)
    have "P (insert_port st nm (dp_port_state s lp))"
      using Cons.prems bm_set_insert [of nm "dp_port_state s lp" "st_ports st"]
      by (auto simp: P_def insert_port_def store_wf_def dp_port_state_def)
    then show ?case using Cons.IH x by simp
  qed simp
  moreover have "P (store_default\<lparr>st_publish_table := in_publish_table s\<rparr>)"
    by (simp add: P_def store_wf_def store_default_def)
  ultimately have "P (dp_store s)" by (simp add: dp_store_def)
  then show "st_publish_table (dp_store s) = in_publish_table s" "st_dhcp_leases (dp_store s) = []"
    "store_wf (dp_store s)" "\<forall>p \<in> snd ` set (st_ports (dp_store s)). ips_allocations (pst_ipam p) = []"
    by (simp_all add: P_def)
qed

lemma dp_store_sorted: "pt_wf (in_publish_table s) \<Longrightarrow> store_sorted (dp_store s)"
  using dp_store_maps [of s] by (auto simp: store_sorted_def pt_wf_def)

text \<open>The store that is written describes the state: its three maps are the folds of the loops.\<close>

lemma dp_store_fields:
  "st_networks (dp_store s) = bm_extend [] (map (\<lambda>(nm, e). (nm, dp_network_state e)) (in_networks s))"
  "st_ports (dp_store s) = bm_extend [] (map (\<lambda>(nm, lp). (nm, dp_port_state s lp)) (in_ports s))"
  "st_ipam_records (dp_store s) = fold (\<lambda>(nm, e) m. bm_extend m (ipam_snapshot (ne_ipam e))) (in_networks s) []"
proof -
  let ?f = "\<lambda>(nm, e) st. (insert_network st nm (dp_network_state e))
    \<lparr>st_ipam_records := bm_extend (st_ipam_records st) (ipam_snapshot (ne_ipam e))\<rparr>"
  let ?g = "\<lambda>(nm, lp) st. insert_port st nm (dp_port_state s lp)"
  have nets: "st_networks (fold ?f nets st) = bm_extend (st_networks st) (map (\<lambda>(nm, e). (nm, dp_network_state e)) nets)
      \<and> st_ipam_records (fold ?f nets st) = fold (\<lambda>(nm, e) m. bm_extend m (ipam_snapshot (ne_ipam e))) nets (st_ipam_records st)
      \<and> st_ports (fold ?f nets st) = st_ports st" for nets and st :: "'a state_store"
    by (induction nets arbitrary: st) (auto simp: insert_network_def bm_extend_def)
  have ports: "st_ports (fold ?g ports st) = bm_extend (st_ports st) (map (\<lambda>(nm, lp). (nm, dp_port_state s lp)) ports)
      \<and> st_networks (fold ?g ports st) = st_networks st \<and> st_ipam_records (fold ?g ports st) = st_ipam_records st"
    for ports and st :: "'a state_store"
    by (induction ports arbitrary: st) (auto simp: insert_port_def bm_extend_def)
  show "st_networks (dp_store s) = bm_extend [] (map (\<lambda>(nm, e). (nm, dp_network_state e)) (in_networks s))"
    "st_ports (dp_store s) = bm_extend [] (map (\<lambda>(nm, lp). (nm, dp_port_state s lp)) (in_ports s))"
    "st_ipam_records (dp_store s) = fold (\<lambda>(nm, e) m. bm_extend m (ipam_snapshot (ne_ipam e))) (in_networks s) []"
    using nets ports by (simp_all add: dp_store_def Let_def store_default_def)
qed

lemma bm_extend_map_get:
  assumes "bm_wf m"
  shows "map_of (bm_extend [] (map (\<lambda>(k, v). (k, g v)) m)) k = map_option g (map_of m k)"
proof -
  have "map_of (rev m) = map_of m"
    using bm_wf_distinct [OF assms] by (subst map_of_inject_set) (simp_all add: rev_map [symmetric])
  then have "map_of (rev (map (\<lambda>(k, v). (k, g v)) m)) k = map_option g (map_of m k)"
    unfolding rev_map by (simp add: map_of_map)
  then show ?thesis by (simp add: bm_get_extend)
qed

text \<open>Merging maps in list order: the last map that has the key decides.\<close>

lemma fold_extend_get:
  "map_of (fold (\<lambda>(n, e) m. bm_extend m (h e)) l []) k = Some v \<longleftrightarrow>
     (\<exists>xs n e ys. l = xs @ (n, e) # ys \<and> map_of (rev (h e)) k = Some v \<and> (\<forall>(n', e') \<in> set ys. map_of (rev (h e')) k = None))"
proof (induction l rule: rev_induct)
  case (snoc x l)
  obtain n e where x: "x = (n, e)" by (cases x)
  show ?case
  proof (cases "map_of (rev (h e)) k")
    case None
    have "(\<exists>xs n' e' ys. l @ [x] = xs @ (n', e') # ys \<and> map_of (rev (h e')) k = Some v \<and> (\<forall>(a, b) \<in> set ys. map_of (rev (h b)) k = None))
      \<longleftrightarrow> (\<exists>xs n' e' ys. l = xs @ (n', e') # ys \<and> map_of (rev (h e')) k = Some v \<and> (\<forall>(a, b) \<in> set ys. map_of (rev (h b)) k = None))"
      (is "?A \<longleftrightarrow> ?B")
    proof
      assume ?A
      then obtain xs n' e' ys where a: "l @ [x] = xs @ (n', e') # ys" "map_of (rev (h e')) k = Some v"
        "\<forall>(a, b) \<in> set ys. map_of (rev (h b)) k = None" by blast
      then have "ys \<noteq> []" using None x by auto
      then obtain zs where "ys = zs @ [x]" using a(1) by (cases ys rule: rev_cases) auto
      then show ?B using a by auto
    next
      assume ?B
      then obtain xs n' e' ys where b: "l = xs @ (n', e') # ys" "map_of (rev (h e')) k = Some v"
        "\<forall>(a, b) \<in> set ys. map_of (rev (h b)) k = None" by blast
      then have "l @ [x] = xs @ (n', e') # (ys @ [x])" "\<forall>(a, b) \<in> set (ys @ [x]). map_of (rev (h b)) k = None"
        using None x by auto
      then show ?A using b(2) by blast
    qed
    then show ?thesis using snoc.IH None x by (simp add: bm_get_extend map_add_def)
  next
    case (Some w)
    have "ys = [] \<and> n' = n \<and> e' = e" if "l @ [x] = xs @ (n', e') # ys" "\<forall>(a, b) \<in> set ys. map_of (rev (h b)) k = None"
      for xs n' e' ys
      using that Some x by (cases ys rule: rev_cases) auto
    moreover have "l @ [x] = l @ (n, e) # []" using x by simp
    ultimately have "(\<exists>xs n' e' ys. l @ [x] = xs @ (n', e') # ys \<and> map_of (rev (h e')) k = Some v
        \<and> (\<forall>(a, b) \<in> set ys. map_of (rev (h b)) k = None)) \<longleftrightarrow> w = v"
      using Some by (metis empty_iff list.set(1) option.inject)
    then show ?thesis using Some x by (simp add: bm_get_extend map_add_def)
  qed
qed simp

lemma bm_split_later:
  assumes "bm_wf (xs @ (n, e) # ys)"
  shows "map_of (xs @ (n, e) # ys) n = Some e"
    "(n', e') \<in> set ys \<longleftrightarrow> n < n' \<and> map_of (xs @ (n, e) # ys) n' = Some e'"
proof -
  let ?l = "xs @ (n, e) # ys"
  have d: "distinct (map fst ?l)" by (rule bm_wf_distinct [OF assms])
  then show "map_of ?l n = Some e" by (intro map_of_is_SomeI) simp_all
  have lt: "\<forall>p \<in> set ys. n < fst p" "\<forall>p \<in> set xs. fst p < n"
    using assms by (auto simp: bm_wf_def sorted_wrt_append)
  have "map_of ?l n' = Some e' \<longleftrightarrow> (n', e') \<in> set ?l"
    using d by (metis map_of_SomeD map_of_is_SomeI)
  then show "(n', e') \<in> set ys \<longleftrightarrow> n < n' \<and> map_of ?l n' = Some e'" using lt by fastforce
qed

lemma records_described:
  assumes "dp_inv s"
  shows "map_of (st_ipam_records (dp_store s)) k = Some v \<longleftrightarrow> describes_record s k v"
proof -
  let ?nets = "in_networks s"
  have wf: "bm_wf ?nets" and ok: "\<And>n e. map_of ?nets n = Some e \<Longrightarrow> ipam_inv (ne_ipam e)"
    using assms by (auto simp: dp_inv_def nets_ok_def net_entry_ok_def)
  have get: "map_of (rev (ipam_snapshot (ne_ipam e))) k = Some v \<longleftrightarrow>
      (\<exists>mac ip. k = show_mac mac \<and> v = show_ip ip \<and> ipam_lookup (ne_ipam e) mac = Some ip)"
    if "map_of ?nets n = Some e" for n e k v
    using ipam_snapshot_get [OF ok [OF that]] .
  have none: "map_of (rev (ipam_snapshot (ne_ipam e))) (show_mac mac) = None \<longleftrightarrow> ipam_lookup (ne_ipam e) mac = None"
    if "map_of ?nets n = Some e" for n e mac
    using get [OF that, of "show_mac mac"] by (metis not_None_eq show_mac_inj)
  have later: "(\<forall>(n', e') \<in> set ys. map_of (rev (ipam_snapshot (ne_ipam e'))) (show_mac mac) = None) \<longleftrightarrow>
      (\<forall>n' e'. map_of ?nets n' = Some e' \<longrightarrow> n < n' \<longrightarrow> ipam_lookup (ne_ipam e') mac = None)"
    if sp: "?nets = xs @ (n, e) # ys" for xs n e ys mac
  proof -
    have m: "(n', e') \<in> set ys \<longleftrightarrow> n < n' \<and> map_of ?nets n' = Some e'" for n' e'
      using bm_split_later(2) [OF wf [unfolded sp]] sp by simp
    then show ?thesis using none by blast
  qed
  show ?thesis
    unfolding dp_store_fields fold_extend_get
  proof
    assume "\<exists>xs n e ys. ?nets = xs @ (n, e) # ys \<and> map_of (rev (ipam_snapshot (ne_ipam e))) k = Some v
      \<and> (\<forall>(n', e') \<in> set ys. map_of (rev (ipam_snapshot (ne_ipam e'))) k = None)"
    then obtain xs n e ys where sp: "?nets = xs @ (n, e) # ys" and v: "map_of (rev (ipam_snapshot (ne_ipam e))) k = Some v"
      and l: "\<forall>(n', e') \<in> set ys. map_of (rev (ipam_snapshot (ne_ipam e'))) k = None" by blast
    have n: "map_of ?nets n = Some e" using bm_split_later(1) [OF wf [unfolded sp]] sp by simp
    obtain mac ip where "k = show_mac mac" "v = show_ip ip" "ipam_lookup (ne_ipam e) mac = Some ip"
      using get [OF n] v by blast
    then show "describes_record s k v"
      unfolding describes_record_def using n later [OF sp, of mac] l by blast
  next
    assume "describes_record s k v"
    then obtain n e mac ip where k: "k = show_mac mac" "v = show_ip ip" and n: "map_of ?nets n = Some e"
      and ip: "ipam_lookup (ne_ipam e) mac = Some ip"
      and l: "\<forall>n' e'. map_of ?nets n' = Some e' \<longrightarrow> n < n' \<longrightarrow> ipam_lookup (ne_ipam e') mac = None"
      unfolding describes_record_def by blast
    obtain xs ys where sp: "?nets = xs @ (n, e) # ys" using split_list [OF map_of_SomeD [OF n]] by blast
    have "map_of (rev (ipam_snapshot (ne_ipam e))) k = Some v" using get [OF n] k ip by blast
    then show "\<exists>xs n e ys. ?nets = xs @ (n, e) # ys \<and> map_of (rev (ipam_snapshot (ne_ipam e))) k = Some v
      \<and> (\<forall>(n', e') \<in> set ys. map_of (rev (ipam_snapshot (ne_ipam e'))) k = None)"
      using sp later [OF sp, of mac] l k(1) by blast
  qed
qed

lemma dp_store_describes:
  assumes "dp_inv s"
  shows "describes s (dp_store s)"
proof -
  have wf: "bm_wf (in_networks s)" "bm_wf (in_ports s)" 
    using assms by (simp_all add: dp_inv_def nets_ok_def lports_ok_def)
  have "describes_network e (dp_network_state e)" for e :: "'a network_entry"
    by (simp add: describes_network_def dp_network_state_def Let_def)
  moreover have "describes_port s lp (dp_port_state s lp)" for lp
    by (auto simp: describes_port_def dp_port_state_def dp_port_ip_def bind_eq_Some_conv)
  ultimately show ?thesis
    unfolding describes_def using records_described [OF assms] dp_store_maps(1,2) [of s] wf
    by (simp add: dp_store_fields(1,2) bm_extend_map_get option.rel_map option.rel_refl)
qed

lemma written_synced:
  assumes "json_ok J" "snap_codec_ok J C" "dp_inv s" "dp_written C s"
  shows "dp_synced J C s"
proof -
  have "pt_wf (in_publish_table s)" using assms(3) by (simp add: dp_inv_def table_ok_def)
  then have "store_sorted (dp_store s)" by (rule dp_store_sorted)
  then show ?thesis
    using assms(4) load_written [OF assms(1,2), where io = io_all_ok]
      dp_store_describes [OF assms(3)]
    unfolding dp_written_def dp_synced_def by (auto simp: io_all_ok_def)
qed


text \<open>
  C9: a restart brings the published ports back. A daemon started on the files of a daemon whose
  state file was up to date has the same published ports; its networks, ports and WAN processes
  are gone, whatever the file says about them.
\<close>

theorem restart_restores_published:
  assumes "dp_synced J C s" "os_save E (w_tick w) = io_all_ok" "w_fs w = w_fs (dp_world s)"
  shows "\<exists>t. snd (dp_try_new J C E (dp_socket_dir s) w) = Inr t \<and> in_publish_table t = in_publish_table s
    \<and> in_networks t = [] \<and> in_ports t = [] \<and> in_passts t = [] \<and> \<not> dp_poisoned t"
  using assms
  by (auto simp: dp_synced_def describes_def dp_try_new_def dp_from_parts_def Let_def split: prod.splits sum.splits)

section \<open>Attaching\<close>

text \<open>The configuration a port's WAN process must run with.\<close>

definition wan_config :: "ipam \<Rightarrow> ipv4 \<Rightarrow> (u16, u16) btree_map \<Rightarrow> passt_config" where
  "wan_config i ip published =
     passt_config_for (show_ip ip) (show_ip (cidr_netmask (net_cidr (ipam_network i))))
       (show_ip (net_gateway (ipam_network i))) published"

lemma ensure_passt_running:
  assumes "ensure_passt E s nm (show_ip ip) pub = (s', Inr ())"
    and "map_of (in_ports s) nm = Some lp" "lp_network lp = Some net" "map_of (in_networks s) net = Some e"
  shows "\<exists>sl p. map_of (in_passts s') nm = Some sl \<and> ps_live sl = Some p \<and> ps_desired sl = wan_config (ne_ipam e) ip pub"
proof -
  let ?c = "wan_config (ne_ipam e) ip pub"
  define sl where "sl = (case map_of (in_passts s) nm of Some sl \<Rightarrow> sl | None \<Rightarrow> new_slot ?c)"
  define w where "w = (case ps_live sl of Some old \<Rightarrow> stop_passt old (dp_world s) | None \<Rightarrow> dp_world s)"
  have e: "ensure_passt E s nm (show_ip ip) pub =
      (if ps_live sl \<noteq> None \<and> ps_desired sl = ?c then (s, Inr ())
       else case spawn_into E w (sl\<lparr>ps_live := None, ps_desired := ?c\<rparr>) of
         (w', slot', spawned) \<Rightarrow>
           (s\<lparr>in_passts := bm_insert nm slot' (in_passts s), dp_world := w'\<rparr>, if spawned then Inr () else Inl Internal))"
    unfolding w_def sl_def ensure_passt_def Let_def wan_config_def using assms(2-4) by simp
  show ?thesis
  proof (cases "ps_live sl \<noteq> None \<and> ps_desired sl = ?c")
    case True
    then have "map_of (in_passts s) nm = Some sl" by (auto simp: sl_def new_slot_def split: option.splits)
    then show ?thesis using True e assms(1) by auto
  next
    case False
    obtain w' sl' ok where sp: "spawn_into E w (sl\<lparr>ps_live := None, ps_desired := ?c\<rparr>) = (w', sl', ok)"
      by (cases "spawn_into E w (sl\<lparr>ps_live := None, ps_desired := ?c\<rparr>)")
    note f = spawn_into_facts [OF sp]
    have "ok" "s' = s\<lparr>in_passts := bm_insert nm sl' (in_passts s), dp_world := w'\<rparr>"
      using False e sp assms(1) by (auto split: if_splits)
    then show ?thesis using f by auto
  qed
qed

text \<open>The state between the reservation and the start of the WAN process.\<close>

definition attached_state ::
  "'v dataplane \<Rightarrow> string \<Rightarrow> live_port \<Rightarrow> string \<Rightarrow> mac_addr \<Rightarrow> 'v network_entry \<Rightarrow> ipam \<Rightarrow> 'v dataplane" where
  "attached_state s nm lp net mac e a =
     s\<lparr>in_networks := bm_insert net (e\<lparr>ne_ipam := a\<rparr>) (in_networks s),
       in_ports := bm_insert nm (lp\<lparr>lp_network := Some net, lp_mac := Some mac\<rparr>) (in_ports s),
       in_switch := switch_add_port (in_switch s) (PortId (lp_id lp)) net,
       in_gateway := gateway_add_port (in_gateway s) (PortId (lp_id lp)) net,
       dp_world := world_set_mac (lp_vhost lp) (mac_octets mac) (dp_world s)\<rparr>"

lemma attach_port_success:
  assumes i: "dp_inv s" and r: "dp_attach_port J C E s params = (s', Inr v)"
    and ps: "str_p J params ''port'' = Inr nm" "str_p J params ''network'' = Inr net" "mac_p J params ''mac'' = Inr mac"
    and fresh: "map_of (in_ports s) nm = Some lp" "lp_network lp = None"
  obtains e a ip s3 where "map_of (in_networks s) net = Some e" "ipam_allocate (ne_ipam e) mac = (a, Inr ip)"
    "ipam_lookup a mac = Some ip" "ipam_inv a" "ipam_network a = ipam_network (ne_ipam e)"
    "ensure_passt E (attached_state s nm lp net mac e a) nm (show_ip ip) [] = (s3, Inr ())"
    "dp_persist C E s3 = (s', Inr ())" "v = jn_null J"
proof -
  have l: "\<not> dp_poisoned s" using r ps by (auto simp: dp_attach_port_def dp_lock_def split: if_splits)
  obtain e where e: "map_of (in_networks s) net = Some e"
    using r ps fresh l by (cases "map_of (in_networks s) net") (auto simp: dp_attach_port_def dp_lock_def)
  have eok: "net_entry_ok net e" using nets_okD [OF dp_invD(1) [OF i] e] .
  obtain a res where a: "ipam_allocate (ne_ipam e) mac = (a, res)" by (cases "ipam_allocate (ne_ipam e) mac")
  obtain ip where res: "res = Inr ip"
    using r ps fresh l e a by (cases res) (auto simp: dp_attach_port_def dp_lock_def Let_def)
  have lk: "ipam_lookup a mac = Some ip" and ai: "ipam_inv a" and an: "ipam_network a = ipam_network (ne_ipam e)"
    using ipam_allocate_lookup [OF _ a [unfolded res]] ipam_allocate_inv [of "ne_ipam e" mac] a eok
    by (simp_all add: net_entry_ok_def)
  have c: "dp_attach_port J C E s params =
      and_then (ensure_passt E (attached_state s nm lp net mac e a) nm (show_ip ip) []) (\<lambda>s3 _.
      and_then (dp_persist C E s3) (\<lambda>s4 _. (s4, Inr (jn_null J))))"
    using ps fresh l e a res lk by (simp add: dp_attach_port_def dp_lock_def Let_def attached_state_def)
  obtain s3 where "ensure_passt E (attached_state s nm lp net mac e a) nm (show_ip ip) [] = (s3, Inr ())"
    "dp_persist C E s3 = (s', Inr ())" "v = jn_null J"
    using r unfolding c by (auto simp: and_then_def split: prod.splits sum.splits)
  then show thesis using that e a res lk ai an by blast
qed


section \<open>Deleting\<close>

text \<open>The state that \<open>delete_port\<close> persists.\<close>

definition deleted_state :: "'v dataplane \<Rightarrow> string \<Rightarrow> live_port \<Rightarrow> 'v dataplane" where
  "deleted_state s nm lp =
     (let s1 = dp_release_quiet (s\<lparr>in_ports := bm_remove nm (in_ports s)\<rparr>) lp in
      s1\<lparr>in_switch := fst (switch_remove_port (in_switch s1) (PortId (lp_id lp))),
         in_gateway := fst (gateway_remove_port (in_gateway s1) (PortId (lp_id lp))),
         in_names := bm_remove (lp_id lp) (in_names s1),
         in_publish_table := fst (pt_remove_port (in_publish_table s1) nm)\<rparr>)"

lemma delete_port_eq:
  assumes "str_p J params ''name'' = Inr nm" "\<not> dp_poisoned s" "map_of (in_ports s) nm = Some lp"
  shows "dp_delete_port J C E s params = and_then (dp_persist C E (deleted_state s nm lp)) (\<lambda>s3 _.
      ((teardown_passt s3 nm)\<lparr>dp_world := (dp_world (teardown_passt s3 nm))
         \<lparr>w_fs := (w_fs (dp_world (teardown_passt s3 nm)))(dp_sock (teardown_passt s3 nm) nm := None)\<rparr>\<rparr>, Inr (jn_null J)))"
  using assms by (simp add: dp_delete_port_def dp_lock_def deleted_state_def Let_def)

lemma delete_port_success:
  assumes r: "dp_delete_port J C E s params = (s', Inr v)" and nm: "str_p J params ''name'' = Inr nm"
  obtains lp s3 where "map_of (in_ports s) nm = Some lp" "dp_persist C E (deleted_state s nm lp) = (s3, Inr ())"
    "s' = (teardown_passt s3 nm)\<lparr>dp_world := (dp_world (teardown_passt s3 nm))
       \<lparr>w_fs := (w_fs (dp_world (teardown_passt s3 nm)))(dp_sock (teardown_passt s3 nm) nm := None)\<rparr>\<rparr>"
proof -
  have l: "\<not> dp_poisoned s" using r nm by (auto simp: dp_delete_port_def dp_lock_def split: if_splits)
  obtain lp where lp: "map_of (in_ports s) nm = Some lp"
    using r nm l by (cases "map_of (in_ports s) nm") (auto simp: dp_delete_port_def dp_lock_def)
  from delete_port_eq [OF nm l lp] show thesis using r lp that by (auto simp: and_then_def split: prod.splits sum.splits)
qed

lemma teardown_stops:
  assumes "bm_wf (in_passts s)"
  shows "map_of (in_passts (teardown_passt s nm)) nm = None"
    and "map_of (in_passts s) nm = Some sl \<Longrightarrow> ps_live sl = Some p \<Longrightarrow>
      pp_pid p \<in> set (w_stopped (dp_world (teardown_passt s nm))) \<and> pp_stream_fd p \<notin> w_fds (dp_world (teardown_passt s nm))"
  using assms by (auto simp: teardown_passt_def Let_def stop_passt_def split: option.splits)

lemma deleted_state_fields [simp]:
  "in_ports (deleted_state s nm lp) = bm_remove nm (in_ports s)" "in_passts (deleted_state s nm lp) = in_passts s"
  "in_publish_table (deleted_state s nm lp) = fst (pt_remove_port (in_publish_table s) nm)"
  "dp_socket_dir (deleted_state s nm lp) = dp_socket_dir s" "dp_world (deleted_state s nm lp) = dp_world s"
  "in_networks (deleted_state s nm lp) = in_networks (dp_release_quiet (s\<lparr>in_ports := bm_remove nm (in_ports s)\<rparr>) lp)"
  "in_next_port_id (deleted_state s nm lp) = in_next_port_id s" "dp_poisoned (deleted_state s nm lp) = dp_poisoned s"
  by (simp_all add: deleted_state_def Let_def)


section \<open>Supervision\<close>


section \<open>Readers outlive their port\<close>

lemma persist_readers [simp]: "w_readers (dp_world (fst (dp_persist C E s))) = w_readers (dp_world s)"
  by (simp add: dp_persist_def split: prod.splits)

lemma teardown_readers [simp]: "w_readers (dp_world (teardown_passt s nm)) = w_readers (dp_world s)"
  by (simp add: teardown_passt_def stop_passt_def Let_def split: option.splits)

text \<open>
  C18: a deleted port's ingress reader looks its port up by name. When a port is deleted and created
  again under the same name before that thread wakes up, the thread does not retire: it stays with
  the vhost port of the deleted one, and adopts the stream of the new port's WAN process as soon as
  there is one.
\<close>

theorem stale_reader_survives:
  assumes i: "dp_inv s" and lp: "map_of (in_ports s) nm = Some lp" "(nm, lp_vhost lp) \<in> set (w_readers (dp_world s))"
    and d: "dp_delete_port J C E s p1 = (s1, Inr v1)" "str_p J p1 ''name'' = Inr nm"
    and c: "dp_create_port J C E s1 p2 = (s2, Inr v2)" "str_p J p2 ''name'' = Inr nm"
  shows "(nm, lp_vhost lp) \<in> set (w_readers (dp_world s2)) \<and> reader_poll s2 nm True = ReaderSleeps
    \<and> (\<exists>lp2. map_of (in_ports s2) nm = Some lp2 \<and> lp_vhost lp2 \<noteq> lp_vhost lp
         \<and> reader_poll (s2\<lparr>in_passts := bm_insert nm (sl\<lparr>ps_live := Some proc\<rparr>) (in_passts s2)\<rparr>) nm True = Adopt (pp_stream_fd proc))"
proof -
  obtain s3 where p3: "dp_persist C E (deleted_state s nm lp) = (s3, Inr ())"
    and s1: "s1 = (teardown_passt s3 nm)\<lparr>dp_world := (dp_world (teardown_passt s3 nm))
       \<lparr>w_fs := (w_fs (dp_world (teardown_passt s3 nm)))(dp_sock (teardown_passt s3 nm) nm := None)\<rparr>\<rparr>"
    using delete_port_success [OF d] lp(1) by (metis option.inject)
  have f3: "in_ports s3 = bm_remove nm (in_ports s)" "in_passts s3 = in_passts s" "w_vhosts (dp_world s3) = w_vhosts (dp_world s)"
    "w_readers (dp_world s3) = w_readers (dp_world s)" "dp_poisoned s3 = dp_poisoned s"
    using persist_fields [of C E "deleted_state s nm lp"] persist_readers [of C E "deleted_state s nm lp"] p3 by simp_all
  have wf: "bm_wf (in_ports s)" "bm_wf (in_passts s3)"
    using i f3(2) by (simp_all add: dp_inv_def lports_ok_def slots_ok_def)
  have f1: "map_of (in_ports s1) nm = None" "map_of (in_passts s1) nm = None" "w_vhosts (dp_world s1) = w_vhosts (dp_world s)"
    "w_readers (dp_world s1) = w_readers (dp_world s)"
    using f3 wf teardown_stops(1) [OF wf(2)] by (simp_all add: s1)
  have l: "\<not> dp_poisoned s1" "os_bind E (dp_tick s1)"
    using c f1(1) by (auto simp: dp_create_port_def dp_lock_def split: if_splits)
  define w4 where "w4 = world_tick (world_bind (dp_sock s1 nm) (dp_world s1))"
  define s4 where "s4 = s1\<lparr>in_next_port_id := in_next_port_id s1 + 1,
      in_switch := switch_add_port (in_switch s1) (PortId (in_next_port_id s1)) [],
      in_names := bm_insert (in_next_port_id s1) nm (in_names s1),
      in_ports := bm_insert nm \<lparr>lp_id = in_next_port_id s1, lp_network = None, lp_mac = None, lp_vhost = length (w_vhosts (dp_world s1))\<rparr> (in_ports s1),
      dp_world := w4\<lparr>w_pumps := w_pumps w4 @ [(nm, in_next_port_id s1)],
        w_readers := w_readers w4 @ [(nm, length (w_vhosts (dp_world s1)))]\<rparr>\<rparr>"
  have "dp_create_port J C E s1 p2 = and_then (dp_persist C E s4) (\<lambda>s' _. (s', Inr (jn_null J)))"
    using c(2) l f1(1) by (simp add: dp_create_port_def dp_lock_def Let_def s4_def w4_def)
  then have p2: "dp_persist C E s4 = (s2, Inr ())" using c(1) by (auto simp: and_then_def split: prod.splits sum.splits)
  have "in_ports s2 = in_ports s4" "in_passts s2 = in_passts s4" "dp_poisoned s2 = dp_poisoned s4"
    "w_readers (dp_world s2) = w_readers (dp_world s4)"
    using persist_fields [of C E s4] persist_readers [of C E s4] p2 by simp_all
  then have f2: "in_ports s2 = in_ports s4" "in_passts s2 = in_passts s1" "dp_poisoned s2 = dp_poisoned s1"
    "w_readers (dp_world s2) = w_readers (dp_world s4)" by (simp_all add: s4_def)
  have "lp_vhost lp < length (w_vhosts (dp_world s))" using lports_okD [OF dp_invD(2) [OF i] lp(1)] by (simp add: live_port_ok_def)
  then show ?thesis using f2 f1 l lp(2) by (simp add: reader_poll_def s4_def w4_def world_bind_def)
qed

section \<open>Witnesses\<close>

lemma demo_method:
  "(''CreateNetwork'', dp_create_network tree_json tree_codec demo_os) \<in> set (cp_methods (dp_control_plane tree_json tree_codec demo_os))"
  by (simp add: cp_methods_def dp_control_plane_def)

theorem dp_reachable_sound_witness: "dp_inv demo_both"
proof -
  have "(dp_step tree_json tree_codec demo_os (demo_codec Discover) demo_no_dns)\<^sup>*\<^sup>* (dp_from_parts ''/run'' pt_default demo_world) demo_both"
    using relpowp_imp_rtranclp [OF demo_runs(2)] by (simp add: demo_fresh_def)
  from dp_reachable_sound [OF this] show ?thesis by (simp add: pt_inj_def)
qed

lemma demo_fresh_synced: "dp_synced tree_json tree_codec demo_fresh"
proof -
  have "snd (load_from_disk tree_json tree_codec io_all_ok (dp_socket_dir demo_fresh) (w_fs (dp_world demo_fresh))) = Inr (dp_store demo_fresh)"
    by (simp add: demo_fresh_def dp_from_parts_def demo_world_def load_from_disk_def dp_store_def)
      (simp add: store_default_def pt_default_def)
  then show ?thesis using dp_store_describes [OF demo_inv(1)] by (auto simp: dp_synced_def)
qed


theorem restart_restores_published_witness:
  "\<exists>t. snd (dp_try_new tree_json tree_codec demo_os ''/run'' demo_world) = Inr t \<and> in_publish_table t = pt_default"
  using restart_restores_published [OF demo_fresh_synced, of demo_os demo_world]
  by (auto simp: demo_fresh_def dp_from_parts_def)




theorem stale_reader_survives_witness:
  "\<exists>s1 s2. dp_delete_port tree_json tree_codec demo_os demo_two (name_params ''a'') = (s1, Inr (jn_null tree_json))
     \<and> dp_create_port tree_json tree_codec demo_os s1 (name_params ''a'') = (s2, Inr (jn_null tree_json))
     \<and> (''a'', 0) \<in> set (w_readers (dp_world s2)) \<and> reader_poll s2 ''a'' True = ReaderSleeps"
proof -
  have r: "(''a'', lp_vhost (demo_port 1 0)) \<in> set (w_readers (dp_world demo_two))"
    using demo_create_port [of demo_net "''a''"] demo_create_port [of demo_one "''b''"] demo_two_facts(1,2)
    by (auto simp: demo_port_def demo_two_def demo_one_def demo_net_facts)
  obtain s1 where d: "dp_delete_port tree_json tree_codec demo_os demo_two (name_params ''a'') = (s1, Inr (jn_null tree_json))"
    "\<not> dp_poisoned s1" "map_of (in_ports s1) ''a'' = None"
    using demo_two_facts(3,7) dp_invD(2) [OF demo_inv(4)] by (auto simp: dp_delete_port_def dp_lock_def Let_def lports_ok_def)
  obtain s2 where c: "dp_create_port tree_json tree_codec demo_os s1 (name_params ''a'') = (s2, Inr (jn_null tree_json))"
    using demo_create_port [OF d(2,3)] by blast
  from stale_reader_survives [OF demo_inv(4) demo_two_facts(3) r d(1) _ c] d(1) c show ?thesis by (auto simp: demo_port_def)
qed

end
