(* ===== verification/Dataplane_Spec.thy ===== *)
theory Dataplane_Spec
  imports Control_Spec Dataplane_Lifecycle
begin

text \<open>
  The dataplane refines the specification of a control plane, and so agrees with the in-memory
  control plane: on any sequence of requests that both acknowledge, from states with the same
  abstraction, they stay in states with the same abstraction and hand out the same host ports.
\<close>

section \<open>Abstraction\<close>

definition dp_abs :: "'v dataplane \<Rightarrow> 'v ctl" where
  "dp_abs s =
     \<lparr>ctl_networks = (\<lambda>nm. map_option ne_created_with (map_of (in_networks s) nm)),
      ctl_ports = (\<lambda>nm. map_option (\<lambda>lp. attachment (lp_network lp) (lp_mac lp)) (map_of (in_ports s) nm)),
      ctl_published = pt_key_get (in_publish_table s)\<rparr>"

lemma dp_abs_simps [simp]:
  "dp_abs (s\<lparr>in_switch := sw\<rparr>) = dp_abs s" "dp_abs (s\<lparr>in_gateway := gw\<rparr>) = dp_abs s"
  "dp_abs (s\<lparr>in_names := nms\<rparr>) = dp_abs s" "dp_abs (s\<lparr>in_next_port_id := n\<rparr>) = dp_abs s"
  "dp_abs (s\<lparr>in_passts := ps\<rparr>) = dp_abs s" "dp_abs (s\<lparr>dp_world := w\<rparr>) = dp_abs s"
  "dp_abs (fst (dp_persist C E s)) = dp_abs s" "dp_abs (teardown_passt s nm) = dp_abs s"
  "dp_abs (fst (ensure_passt E s nm ip pub)) = dp_abs s"
  by (simp_all add: dp_abs_def)

text \<open>Releasing an address is invisible: it changes the allocator of a network only.\<close>

lemma dp_abs_allocator:
  "bm_wf (in_networks s) \<Longrightarrow> map_of (in_networks s) net = Some e \<Longrightarrow>
     dp_abs (s\<lparr>in_networks := bm_insert net (e\<lparr>ne_ipam := i\<rparr>) (in_networks s)\<rparr>) = dp_abs s"
  by (simp add: dp_abs_def fun_eq_iff)

lemma persist_abs:
  "dp_persist C E s = (s', r) \<Longrightarrow> dp_abs s' = dp_abs s \<and> in_publish_range s' = in_publish_range s"
  using dp_abs_simps(7) [of C E s] persist_fields(9) [of C E s] by (metis fst_conv)

lemma ensure_abs:
  "ensure_passt E s nm ip pub = (s', r) \<Longrightarrow> dp_abs s' = dp_abs s \<and> in_publish_range s' = in_publish_range s"
  using dp_abs_simps(9) [of E s nm ip pub] ensure_passt_fields(8) [of E s nm ip pub] by (metis fst_conv)

lemma sync_abs:
  "dp_sync_passt E s nm = (s', Inr x) \<Longrightarrow> dp_abs s' = dp_abs s \<and> in_publish_range s' = in_publish_range s"
  by (auto simp: dp_sync_passt_def try_in_Inr dest: ensure_abs)

lemma param_names: "str_p = str_param" "u16_p = u16_param" "mac_p = mac_param"
  by (simp_all add: fun_eq_iff str_p_def str_param_def u16_p_def u16_param_def mac_p_def mac_param_def)

section \<open>The operations\<close>

abbreviation dp_refines :: "'v json_api \<Rightarrow> string \<Rightarrow> ('v dataplane, 'v) cp_op \<Rightarrow> 'v dataplane \<Rightarrow> 'v \<Rightarrow> bool" where
  "dp_refines J \<equiv> refines_op J dp_abs in_publish_range"

lemmas refine_simps = param_names refines_op_def ctl_decode_simps try_in_Inr and_then_Inr Let_def

lemma dp_wf: "dp_inv s \<Longrightarrow> bm_wf (in_networks s) \<and> bm_wf (in_ports s) \<and> pt_wf (in_publish_table s)"
  by (simp add: dp_inv_def nets_ok_def lports_ok_def table_ok_def)

lemma dp_refines_networks:
  assumes "dp_inv s"
  shows "dp_refines J ''CreateNetwork'' (dp_create_network J C E) s params"
    "dp_refines J ''DeleteNetwork'' (dp_delete_network J C E) s params"
  using dp_wf [OF assms]
  by (auto simp: refine_simps dp_create_network_def dp_delete_network_def split: option.splits if_splits dest!: persist_abs)
    (auto simp: dp_abs_def fun_eq_iff)

lemma dp_refines_create_port:
  assumes "dp_inv s"
  shows "dp_refines J ''CreatePort'' (dp_create_port J C E) s params"
  unfolding refines_op_def
proof (intro allI impI)
  fix s' v assume r: "dp_create_port J C E s params = (s', Inr v)"
  then obtain nm where nm: "str_param J params ''name'' = Inr nm" "dp_lock s = Inr ()"
    by (auto simp: dp_create_port_def param_names try_in_Inr)
  have "v = jn_null J \<and> dp_abs s' = ctl_apply (in_publish_range s) (CreatePrt nm) (dp_abs s) \<and> in_publish_range s' = in_publish_range s"
  proof (cases "map_of (in_ports s) nm")
    case None
    let ?new = "\<lambda>w. s\<lparr>in_next_port_id := in_next_port_id s + 1,
        in_switch := switch_add_port (in_switch s) (PortId (in_next_port_id s)) [],
        in_names := bm_insert (in_next_port_id s) nm (in_names s),
        in_ports := bm_insert nm \<lparr>lp_id = in_next_port_id s, lp_network = None, lp_mac = None,
          lp_vhost = length (w_vhosts (dp_world s))\<rparr> (in_ports s), dp_world := w\<rparr>"
    obtain w where p: "dp_persist C E (?new w) = (s', Inr ())" "v = jn_null J"
      using r nm None by (auto simp: dp_create_port_def param_names try_in_Inr and_then_Inr Let_def split: if_splits)
    show ?thesis using persist_abs [OF p(1)] p(2) None dp_wf [OF assms] by (simp add: dp_abs_def fun_eq_iff)
  next
    case (Some lp)
    then show ?thesis using r nm by (simp add: dp_create_port_def param_names dp_abs_def)
  qed
  then show "\<exists>cmd. ctl_decode J ''CreatePort'' params = Some cmd \<and> dp_abs s' = ctl_apply (in_publish_range s) cmd (dp_abs s)
      \<and> in_publish_range s' = in_publish_range s \<and> agrees (cmd, ctl_answer J (in_publish_range s) cmd (dp_abs s)) v"
    using nm(1) by (intro exI [of _ "CreatePrt nm"]) (simp add: ctl_decode_simps)
qed

lemma release_quiet_abs: "dp_inv s \<Longrightarrow> dp_abs (dp_release_quiet (s\<lparr>in_ports := m\<rparr>) lp) = dp_abs (s\<lparr>in_ports := m\<rparr>)"
  using dp_wf [of s] dp_abs_allocator [of "s\<lparr>in_ports := m\<rparr>"] by (simp add: dp_release_quiet_def split: option.split)

lemma release_quiet_range [simp]: "in_publish_range (dp_release_quiet s lp) = in_publish_range s"
  by (simp add: dp_release_quiet_def split: option.split)

lemma dp_refines_delete_port:
  assumes "dp_inv s"
  shows "dp_refines J ''DeletePort'' (dp_delete_port J C E) s params"
  using dp_wf [OF assms] release_quiet_abs [OF assms]
  by (auto simp: refine_simps dp_delete_port_def split: option.splits if_splits dest!: persist_abs)
    (auto simp: dp_abs_def fun_eq_iff pt_key_get_remove_port)

lemma release_attached_abs:
  assumes "bm_wf (in_networks s)" "dp_release_attached s lp = (s', Inr x)"
  shows "dp_abs s' = dp_abs s \<and> in_publish_range s' = in_publish_range s \<and> in_publish_table s' = in_publish_table s"
  using assms by (auto simp: dp_release_attached_def dp_abs_allocator try_in_def split: option.splits sum.splits prod.splits)

lemma dp_refines_detach_port:
  assumes "dp_inv s"
  shows "dp_refines J ''DetachPort'' (dp_detach_port J C E) s params"
  using dp_wf [OF assms]
  by (auto simp: refine_simps dp_detach_port_def split: option.splits if_splits dest!: persist_abs release_attached_abs [rotated])
    (auto simp: dp_abs_def fun_eq_iff pt_key_get_remove_port)

lemma dp_refines_attach_port:
  assumes "dp_inv s"
  shows "dp_refines J ''AttachPort'' (dp_attach_port J C E) s params"
  unfolding refines_op_def
proof (intro allI impI)
  fix s' v assume r: "dp_attach_port J C E s params = (s', Inr v)"
  obtain nm net mac lp where p: "str_param J params ''port'' = Inr nm" "str_param J params ''network'' = Inr net"
      "mac_param J params ''mac'' = Inr mac" "map_of (in_ports s) nm = Some lp"
    using r unfolding dp_attach_port_def param_names by (auto simp: try_in_Inr)
  have d: "ctl_decode J ''AttachPort'' params = Some (AttachPrt nm net mac)" using p by (simp add: ctl_decode_simps)
  have "v = jn_null J \<and> dp_abs s' = ctl_apply (in_publish_range s) (AttachPrt nm net mac) (dp_abs s) \<and> in_publish_range s' = in_publish_range s"
  proof (cases "lp_network lp = None")
    case False
    then show ?thesis using r p
      by (auto simp: dp_attach_port_def param_names try_in_Inr dp_abs_def fun_eq_iff split: if_splits)
  next
    case True
    obtain e i ip s3 where e: "map_of (in_networks s) net = Some e"
      and en: "ensure_passt E (attached_state s nm lp net mac e i) nm (show_ip ip) [] = (s3, Inr ())"
        "dp_persist C E s3 = (s', Inr ())" "v = jn_null J"
      using attach_port_success [OF assms r _ _ _ p(4) True] p by (metis param_names(1,3))
    show ?thesis using ensure_abs [OF en(1)] persist_abs [OF en(2)] en(3) e dp_wf [OF assms]
      by (simp add: attached_state_def dp_abs_def fun_eq_iff)
  qed
  then show "\<exists>cmd. ctl_decode J ''AttachPort'' params = Some cmd \<and> dp_abs s' = ctl_apply (in_publish_range s) cmd (dp_abs s)
      \<and> in_publish_range s' = in_publish_range s \<and> agrees (cmd, ctl_answer J (in_publish_range s) cmd (dp_abs s)) v"
    using d by (intro exI [of _ "AttachPrt nm net mac"]) simp
qed

lemma publish_alloc_host:
  assumes "dp_inv s" "dp_publish_alloc s nm vm = (t, Some h)"
  shows "ctl_host (in_publish_range s) nm vm (dp_abs s) = Some h"
    "dp_abs (s\<lparr>in_publish_table := t\<rparr>) = (dp_abs s)\<lparr>ctl_published := (ctl_published (dp_abs s))((nm, vm) \<mapsto> h)\<rparr>"
proof -
  have a: "pt_allocate (in_publish_table s) nm vm (in_publish_range s) = (t, Some h)"
    using assms(2) by (auto simp: dp_publish_alloc_def pt_allocate_hit split: option.splits)
  have c: "ctl_published (dp_abs s) = pt_key_get (in_publish_table s)" by (simp add: dp_abs_def)
  have wf: "pt_wf (in_publish_table s)" using dp_wf [OF assms(1)] by blast
  show "ctl_host (in_publish_range s) nm vm (dp_abs s) = Some h" using pt_allocate_host(1) [OF wf a c] by (rule sym)
  show "dp_abs (s\<lparr>in_publish_table := t\<rparr>) = (dp_abs s)\<lparr>ctl_published := (ctl_published (dp_abs s))((nm, vm) \<mapsto> h)\<rparr>"
    using pt_allocate_host(2) [OF wf a c option.distinct(2)] by (simp add: dp_abs_def)
qed

lemma dp_refines_publish_port:
  assumes "dp_inv s"
  shows "dp_refines J ''PublishPort'' (dp_publish_port J C E) s params"
  unfolding refines_op_def
proof (intro allI impI)
  fix s' v assume r: "dp_publish_port J C E s params = (s', Inr v)"
  then obtain nm vm t h s1 where p: "str_param J params ''port'' = Inr nm" "u16_param J params ''vm_port'' = Inr vm"
      "dp_publish_alloc s nm vm = (t, Some h)" "dp_persist C E (s\<lparr>in_publish_table := t\<rparr>) = (s1, Inr ())"
      "dp_sync_passt E s1 nm = (s', Inr ())" "v = jn_object J [(''host_port'', jn_number J (ucast h))]"
    by (auto simp: dp_publish_port_def param_names try_in_Inr and_then_Inr split: if_splits prod.splits option.splits)
  show "\<exists>cmd. ctl_decode J ''PublishPort'' params = Some cmd \<and> dp_abs s' = ctl_apply (in_publish_range s) cmd (dp_abs s)
      \<and> in_publish_range s' = in_publish_range s \<and> agrees (cmd, ctl_answer J (in_publish_range s) cmd (dp_abs s)) v"
    using sync_abs [OF p(5)] persist_abs [OF p(4)] publish_alloc_host [OF assms p(3)] p(1,2,6)
    by (intro exI [of _ "PublishPrt nm vm"]) (simp add: ctl_decode_simps)
qed

lemma dp_refines_unpublish_port:
  assumes "dp_inv s"
  shows "dp_refines J ''UnpublishPort'' (dp_unpublish_port J C E) s params"
  unfolding refines_op_def
proof (intro allI impI)
  fix s' v assume r: "dp_unpublish_port J C E s params = (s', Inr v)"
  then obtain nm vm where nv: "str_param J params ''port'' = Inr nm" "u16_param J params ''vm_port'' = Inr vm"
    by (auto simp: dp_unpublish_port_def param_names try_in_Inr)
  obtain t res where t: "pt_remove (in_publish_table s) nm vm = (t, res)" by fastforce
  obtain h where res: "res = Some h"
    using r nv t by (cases res) (auto simp: dp_unpublish_port_def param_names try_in_Inr)
  obtain s1 where "dp_persist C E (s\<lparr>in_publish_table := t\<rparr>) = (s1, Inr ())"
      "s' = teardown_passt s1 nm \<or> dp_sync_passt E s1 nm = (s', Inr ())" "v = jn_null J"
    using r nv t res by (auto simp: dp_unpublish_port_def param_names try_in_Inr and_then_Inr split: if_splits)
  moreover have "t = fst (pt_remove (in_publish_table s) nm vm)" using t by simp
  ultimately obtain p: "str_param J params ''port'' = Inr nm" "u16_param J params ''vm_port'' = Inr vm"
      "t = fst (pt_remove (in_publish_table s) nm vm)" "dp_persist C E (s\<lparr>in_publish_table := t\<rparr>) = (s1, Inr ())"
      "s' = teardown_passt s1 nm \<or> dp_sync_passt E s1 nm = (s', Inr ())" "v = jn_null J" using nv by blast
  have "dp_abs s' = dp_abs s1 \<and> in_publish_range s' = in_publish_range s1" using p(5) sync_abs by fastforce
  moreover have "pt_key_get t = (pt_key_get (in_publish_table s))((nm, vm) := None)"
    using pt_key_get_remove dp_wf [OF assms] unfolding p(3) by blast
  ultimately show "\<exists>cmd. ctl_decode J ''UnpublishPort'' params = Some cmd \<and> dp_abs s' = ctl_apply (in_publish_range s) cmd (dp_abs s)
      \<and> in_publish_range s' = in_publish_range s \<and> agrees (cmd, ctl_answer J (in_publish_range s) cmd (dp_abs s)) v"
    using persist_abs [OF p(4)] p(1,2,6)
    by (intro exI [of _ "UnpublishPrt nm vm"]) (simp add: ctl_decode_simps dp_abs_def)
qed

lemma dp_refines_quiet:
  assumes "dp_inv s"
  shows "dp_refines J ''GetNetwork'' (dp_get_network J) s params" "dp_refines J ''GetPort'' (dp_get_port J) s params"
    "dp_refines J ''AllocateIP'' (dp_allocate_ip J) s params" "dp_refines J ''ReleaseIP'' (dp_release_ip J C E) s params"
proof -
  note wf = dp_wf [OF assms, THEN conjunct1]
  show "dp_refines J ''GetNetwork'' (dp_get_network J) s params" "dp_refines J ''GetPort'' (dp_get_port J) s params"
    by (auto simp: refine_simps dp_get_network_def dp_get_port_def)
  show "dp_refines J ''AllocateIP'' (dp_allocate_ip J) s params"
    using dp_abs_allocator [OF wf]
    by (auto simp: refines_op_def ctl_decode_simps dp_allocate_ip_def try_in_def split: sum.splits prod.splits)
  show "dp_refines J ''ReleaseIP'' (dp_release_ip J C E) s params"
    using dp_abs_allocator [OF wf]
    by (auto simp: refines_op_def ctl_decode_simps dp_release_ip_def try_in_def and_then_def Let_def
        split: sum.splits prod.splits ipam_error.splits dest!: persist_abs)
qed

text \<open>The dataplane is an implementation of the specification.\<close>

interpretation dps: control_plane_spec "dp_control_plane J C E" dp_inv J dp_abs in_publish_range
  for J :: "'v json_api" and C E
proof
  fix m :: string and f :: "('v dataplane, 'v) cp_op" and s :: "'v dataplane" and params :: 'v
  assume "(m, f) \<in> set (cp_methods (dp_control_plane J C E))" and i: "dp_inv s"
  then show "dp_refines J m f s params"
    using dp_refines_networks [OF i] dp_refines_create_port [OF i] dp_refines_delete_port [OF i] dp_refines_attach_port [OF i]
      dp_refines_detach_port [OF i] dp_refines_publish_port [OF i] dp_refines_unpublish_port [OF i] dp_refines_quiet [OF i]
    by (auto simp: cp_methods_def dp_control_plane_def)
qed

section \<open>Properties\<close>

text \<open>
  C2: the dataplane implements the control-plane specification. A run of acknowledged requests
  moves its networks, attachments and published ports exactly as the specification does, command
  by command, and every answer that the specification fixes (the host port of a publication, the
  null of the others) is the one given.
\<close>

theorem dp_implements_spec:
  assumes "dp_inv s" "cp_run (dp_control_plane J C E) s reqs = Some (t, answers)"
  shows "\<exists>expected. ctl_run J (in_publish_range s) (dp_abs s) reqs = Some (dp_abs t, expected)
    \<and> list_all2 agrees expected answers"
  using dps.run_refines [OF assms] by blast

text \<open>
  C10: the in-memory control plane is a faithful stand-in for the dataplane. Started with the same
  networks, attachments, published ports and range, on any requests that both acknowledge the two
  end with the same networks, attachments and published ports, and the host ports they answer are
  the same.
\<close>

theorem mem_dp_equivalent:
  assumes "mem_inv a" "dp_inv s" "mem_abs a = dp_abs s" "mp_publish_range a = in_publish_range s"
    and "cp_run (mem_control_plane J) a reqs = Some (b, answers)"
    and "cp_run (dp_control_plane J C E) s reqs = Some (t, answers')"
  shows "mem_abs b = dp_abs t
    \<and> (\<forall>i < length reqs. fst (reqs ! i) = ''PublishPort'' \<longrightarrow> answers ! i = answers' ! i)"
proof -
  obtain as where a: "ctl_run J (in_publish_range s) (dp_abs s) reqs = Some (mem_abs b, as)" "list_all2 agrees as answers"
    using mems.run_refines [OF assms(1,5)] assms(3,4) by auto
  obtain as' where d: "ctl_run J (in_publish_range s) (dp_abs s) reqs = Some (dp_abs t, as')" "list_all2 agrees as' answers'"
    using dps.run_refines [OF assms(2,6)] by blast
  have as: "as' = as" and abs: "mem_abs b = dp_abs t" using a(1) d(1) by simp_all
  have "answers ! i = answers' ! i" if i: "i < length reqs" "fst (reqs ! i) = ''PublishPort''" for i
    using ctl_run_publish [OF a(1) i] i(1) a(2) d(2) ctl_run_length [OF a(1)] unfolding as
    by (cases "as ! i") (force simp: list_all2_conv_all_nth)
  with abs show ?thesis by blast
qed

section \<open>Witnesses\<close>

theorem dp_implements_spec_witness:
  "\<exists>expected. ctl_run tree_json (in_publish_range demo_two) (dp_abs demo_two) [(''AttachPort'', attach_params ''a'' (demo_mac 1))]
      = Some (dp_abs demo_att, expected) \<and> list_all2 agrees expected [jn_null tree_json]"
  by (rule dp_implements_spec [OF demo_inv(4), where C = tree_codec and E = demo_os])
    (simp add: cp_methods_def dp_control_plane_def demo_att_facts(5))

lemma demo_mem_created:
  "\<exists>b. mem_create_network tree_json mem_default (demo_params (show_ip 0xC0A87C01)) = (b, Inr (jn_null tree_json))"
  by (simp add: mem_create_network_def demo_params_get mem_default_def build_network_def ip_pool_new_def lab_net_parses)

theorem mem_dp_equivalent_witness:
  "\<exists>b. cp_run (mem_control_plane tree_json) mem_default [(''CreateNetwork'', demo_params (show_ip 0xC0A87C01))]
      = Some (b, [jn_null tree_json]) \<and> mem_abs b = dp_abs demo_net"
proof -
  let ?reqs = "[(''CreateNetwork'', demo_params (show_ip 0xC0A87C01))]"
  obtain b where b: "cp_run (mem_control_plane tree_json) mem_default ?reqs = Some (b, [jn_null tree_json])"
    using demo_mem_created by (auto simp: cp_methods_def mem_control_plane_def)
  have d: "cp_run (dp_control_plane tree_json tree_codec demo_os) demo_fresh ?reqs = Some (demo_net, [jn_null tree_json])"
    by (simp add: cp_methods_def dp_control_plane_def demo_net_facts(1))
  have "mem_abs (mem_default :: tree_value mem_plane) = dp_abs demo_fresh"
    "mp_publish_range (mem_default :: tree_value mem_plane) = in_publish_range demo_fresh"
    by (simp_all add: mem_abs_def dp_abs_def mem_default_def demo_fresh_def dp_from_parts_def)
  from mem_dp_equivalent [OF mem_default_inv(1) demo_inv(1) this b d] b show ?thesis by blast
qed

end
