(* ===== verification/Dataplane_Errors.thy ===== *)
theory Dataplane_Errors
  imports Dataplane_Spec
begin

text \<open>
  What a refused request leaves behind. A refusal other than an internal error changes nothing, as
  long as the requests so far were orderly: no network was deleted under an attached port, no
  attached port's reservation was released by hand, and no two ports share a MAC in a network. An
  internal error is a system call that failed after the state was changed; the change stays.
\<close>

section \<open>Backed attachments\<close>

text \<open>
  The port \<open>nm\<close> is attached to the network with the MAC; the three fields that matter are a view,
  so that an operation's effect on them is one equation.
\<close>

type_synonym 'v attachments =
  "(string, 'v network_entry) btree_map \<times> (string, live_port) btree_map \<times> publish_table"

definition att_view :: "'v dataplane \<Rightarrow> 'v attachments" where
  "att_view s = (in_networks s, in_ports s, in_publish_table s)"

definition held_by :: "(string, live_port) btree_map \<Rightarrow> string \<Rightarrow> mac_addr \<Rightarrow> string \<Rightarrow> bool" where
  "held_by ports net mac nm = (\<exists>lp. map_of ports nm = Some lp \<and> lp_network lp = Some net \<and> lp_mac lp = Some mac)"

definition reserved :: "(string, 'v network_entry) btree_map \<Rightarrow> string \<Rightarrow> mac_addr \<Rightarrow> bool" where
  "reserved nets net mac = (\<exists>e. map_of nets net = Some e \<and> ipam_lookup (ne_ipam e) mac \<noteq> None)"

text \<open>
  Every attachment has its reservation, no two ports of a network have the same MAC, and only
  attached ports have published ports, apart from the names \<open>K\<close> for which the state file of an
  earlier run had published ports.
\<close>

definition backed :: "string set \<Rightarrow> 'v attachments \<Rightarrow> bool" where
  "backed K V =
     (case V of (nets, ports, tbl) \<Rightarrow>
        (\<forall>net mac nm. held_by ports net mac nm \<longrightarrow> reserved nets net mac)
      \<and> (\<forall>net mac nm nm'. held_by ports net mac nm \<longrightarrow> held_by ports net mac nm' \<longrightarrow> nm = nm')
      \<and> (\<forall>nm. nm \<notin> K \<longrightarrow> map_of (pt_entries tbl) nm \<noteq> None \<longrightarrow> (\<exists>net mac. held_by ports net mac nm)))"

lemma backedD:
  assumes "backed K (nets, ports, tbl)"
  shows "held_by ports net mac nm \<Longrightarrow> reserved nets net mac"
    "held_by ports net mac nm \<Longrightarrow> held_by ports net mac nm' \<Longrightarrow> nm = nm'"
    "nm \<notin> K \<Longrightarrow> map_of (pt_entries tbl) nm \<noteq> None \<Longrightarrow> \<exists>net mac. held_by ports net mac nm"
  using assms unfolding backed_def by blast+

section \<open>Refusals\<close>

text \<open>
  \<open>late m\<close>: if \<open>m\<close> fails then with an internal error. \<open>atomic s m\<close>: if it fails with any other
  error then in the state \<open>s\<close>.
\<close>

definition late :: "'s \<times> (rpc_error, 'a) result \<Rightarrow> bool" where
  "late m = (\<forall>e. snd m = Inl e \<longrightarrow> e = Internal)"

definition atomic :: "'s \<Rightarrow> 's \<times> (rpc_error, 'a) result \<Rightarrow> bool" where
  "atomic s m = (\<forall>e. snd m = Inl e \<longrightarrow> e \<noteq> Internal \<longrightarrow> fst m = s)"

lemma late_simps [simp]:
  "late (s, Inr v)" "late (s, Inl Internal)" "atomic s (s, r)" "atomic s (t, Inr v)" "atomic s (t, Inl Internal)"
  by (simp_all add: late_def atomic_def)

lemma late_atomic: "late m \<Longrightarrow> atomic s m"
  by (auto simp: late_def atomic_def)

lemma late_then: "late m \<Longrightarrow> (\<And>s' v. m = (s', Inr v) \<Longrightarrow> late (f s' v)) \<Longrightarrow> late (and_then m f)"
  by (auto simp: late_def and_then_def split: prod.splits sum.splits)

lemma atomic_then:
  "atomic s m \<Longrightarrow> (\<And>s' v. m = (s', Inr v) \<Longrightarrow> atomic s (f s' v)) \<Longrightarrow> atomic s (and_then m f)"
  by (auto simp: atomic_def and_then_def split: prod.splits sum.splits)

lemma atomic_try: "(\<And>v. r = Inr v \<Longrightarrow> atomic s (f v)) \<Longrightarrow> atomic s (try_in s r f)"
  by (cases r) simp_all

lemma late_persist [simp]: "late (dp_persist C E s)"
  by (auto simp: late_def dp_persist_def split: prod.splits sum.splits)

lemma late_ensure:
  assumes "map_of (in_ports s) nm = Some lp" "lp_network lp = Some net" "map_of (in_networks s) net = Some e"
  shows "late (ensure_passt E s nm ip pub)"
  by (cases rule: ensure_passt_cases [of E s nm ip pub]) (use assms in \<open>auto simp: late_def\<close>)

lemma late_sync:
  assumes "map_of (in_ports s) nm = Some lp" "lp_network lp = Some net" "lp_mac lp = Some mac" "reserved (in_networks s) net mac"
  shows "late (dp_sync_passt E s nm)"
  using assms by (auto simp: dp_sync_passt_def reserved_def intro: late_ensure)

lemma atomic_persist: "(\<And>s'. late (f s' ())) \<Longrightarrow> atomic s (and_then (dp_persist C E t) f)"
  by (intro late_atomic late_then) auto

text \<open>Putting back what a map holds already changes nothing.\<close>

lemma bm_insert_same: "bm_wf m \<Longrightarrow> map_of m k = Some v \<Longrightarrow> bm_insert k v m = m"
  by (induction k v m rule: bm_insert.induct) (fastforce split: if_splits dest: map_of_SomeD)+

lemma ipam_refusals:
  "ipam_allocate i mac = (i', Inl err) \<Longrightarrow> i' = i" "ipam_release i mac = (i', Inl err) \<Longrightarrow> i' = i"
  by (auto simp: ipam_allocate_def ipam_release_def hm_remove_def Let_def delete_id map_of_eq_None_iff
      split: option.splits if_splits)

lemma gateway_remove_absent:
  "nets_ok nets gw \<Longrightarrow> map_of nets nm = None \<Longrightarrow> fst (gateway_remove_network gw nm) = gw"
proof -
  assume "nets_ok nets gw" "map_of nets nm = None"
  then have "map_of (gw_networks gw) nm = None" by (simp add: nets_ok_def)
  then show ?thesis
    by (simp add: gateway_remove_network_def hm_remove_def delete_id map_of_eq_None_iff)
qed

lemma refused_networks:
  assumes "dp_inv s"
  shows "atomic s (dp_create_network J C E s p)" "atomic s (dp_delete_network J C E s p)"
    "atomic s (dp_get_network J s p)"
proof -
  show "atomic s (dp_create_network J C E s p)"
    unfolding dp_create_network_def by (intro atomic_try) (auto split: option.split intro!: atomic_try atomic_persist)
  show "atomic s (dp_delete_network J C E s p)"
    using gateway_remove_absent [OF dp_invD(1) [OF assms]]
    unfolding dp_delete_network_def Let_def by (intro atomic_try) (auto split: option.split intro!: atomic_persist)
  show "atomic s (dp_get_network J s p)"
    unfolding dp_get_network_def by (intro atomic_try) simp
qed

lemma refused_ports:
  shows "atomic s (dp_create_port J C E s p)" "atomic s (dp_delete_port J C E s p)" "atomic s (dp_get_port J s p)"
  unfolding dp_create_port_def dp_delete_port_def dp_get_port_def Let_def
  by (intro atomic_try; auto split: option.split intro!: atomic_persist)+

lemma refused_ips:
  assumes "dp_inv s"
  shows "atomic s (dp_allocate_ip J s p)" "atomic s (dp_release_ip J C E s p)"
proof -
  have same: "s\<lparr>in_networks := bm_insert net e (in_networks s)\<rparr> = s"
    if "map_of (in_networks s) net = Some e" for net e
    using that dp_wf [OF assms] by (simp add: bm_insert_same)
  show "atomic s (dp_allocate_ip J s p)"
    unfolding dp_allocate_ip_def
    by (intro atomic_try) (auto simp: same dest!: ipam_refusals split: prod.split sum.split)
  show "atomic s (dp_release_ip J C E s p)"
    unfolding dp_release_ip_def Let_def
    by (intro atomic_try) (auto simp: same dest!: ipam_refusals split: prod.split sum.split ipam_error.split intro!: atomic_persist)
qed

lemma refused_attach:
  assumes "dp_inv s"
  shows "atomic s (dp_attach_port J C E s p)"
proof -
  have same: "s\<lparr>in_networks := bm_insert net e (in_networks s)\<rparr> = s" if "map_of (in_networks s) net = Some e" for net e
    using that dp_wf [OF assms] by (simp add: bm_insert_same)
  have tail: "atomic s (try_in s2 (ok_or NotFound (ipam_lookup i mac)) (\<lambda>ip.
      and_then (ensure_passt E s2 nm (show_ip ip) []) (\<lambda>s3 _.
      and_then (dp_persist C E s3) (\<lambda>s4 _. (s4, Inr (jn_null J))))))"
    if "ipam_lookup i mac \<noteq> None" "map_of (in_ports s2) nm = Some lp" "lp_network lp = Some net" "map_of (in_networks s2) net = Some e"
    for s2 i mac nm lp net e
  proof -
    have "late (and_then (ensure_passt E s2 nm (show_ip ip) []) (\<lambda>s3 _.
      and_then (dp_persist C E s3) (\<lambda>s4 _. (s4, Inr (jn_null J)))))" for ip
      using late_ensure [OF that(2-4)] by (auto intro!: late_then)
    then show ?thesis using that(1) by (auto intro: late_atomic)
  qed
  have alloc: "ipam_lookup i mac \<noteq> None"
    if "map_of (in_networks s) net = Some e" "ipam_allocate (ne_ipam e) mac = (i, Inr ip)" for net e mac i ip
    using that by (auto simp: ipam_allocate_def ipam_lookup_def split: option.splits)
  show ?thesis
    unfolding dp_attach_port_def Let_def
    by (intro atomic_try)
      (auto simp: same dest!: ipam_refusals intro!: atomic_try tail [simplified] dest: alloc split: prod.split sum.split)
qed

text \<open>An attached port has both a network and a MAC, and with \<open>backed\<close> a reservation.\<close>

lemma attached_held:
  assumes "dp_inv s" "map_of (in_ports s) nm = Some lp" "lp_network lp = Some net"
  obtains mac where "lp_mac lp = Some mac" "held_by (in_ports s) net mac nm"
  using assms lports_okD [OF dp_invD(2) [OF assms(1)] assms(2)]
  by (cases "lp_mac lp") (auto simp: live_port_ok_def held_by_def)

lemma release_view:
  assumes "ipam_lookup i = (ipam_lookup (ne_ipam e))(mac := None)" "map_of nets net = Some e"
    and "reserved nets n m" "(n, m) \<noteq> (net, mac)"
  shows "reserved (bm_insert net (e\<lparr>ne_ipam := i\<rparr>) nets) n m"
  using assms by (auto simp: reserved_def)

lemma release_attached_backed:
  assumes i: "dp_inv s" and b: "backed K (att_view s)" and lp: "map_of (in_ports s) nm = Some lp"
    and n: "in_networks s1 = in_networks s"
  obtains nets where "dp_release_attached s1 lp = (s1\<lparr>in_networks := nets\<rparr>, Inr ())"
    "\<And>net mac. reserved (in_networks s) net mac \<Longrightarrow> \<not> held_by (in_ports s) net mac nm \<Longrightarrow> reserved nets net mac"
proof (cases "lp_network lp")
  case None
  then show ?thesis using that [of "in_networks s1"] n by (simp add: dp_release_attached_def)
next
  case (Some net)
  obtain mac where m: "lp_mac lp = Some mac" "held_by (in_ports s) net mac nm" using attached_held [OF i lp Some] .
  then have "reserved (in_networks s) net mac" using backedD(1) b unfolding att_view_def by blast
  then obtain e where e: "map_of (in_networks s) net = Some e" "ipam_lookup (ne_ipam e) mac \<noteq> None"
    by (auto simp: reserved_def)
  obtain j where j: "ipam_release (ne_ipam e) mac = (j, Inr ())" "ipam_lookup j = (ipam_lookup (ne_ipam e))(mac := None)"
    using e(2) ipam_release_spec(1,3) [of "ne_ipam e" mac] by (cases "ipam_release (ne_ipam e) mac") auto
  show ?thesis
    by (rule that [of "bm_insert net (e\<lparr>ne_ipam := j\<rparr>) (in_networks s)"])
      (use Some m e n j in \<open>auto simp: dp_release_attached_def intro!: release_view\<close>)
qed

lemma refused_detach:
  assumes "dp_inv s" "backed K (att_view s)"
  shows "atomic s (dp_detach_port J C E s p)"
proof -
  have rel: "late (dp_release_attached s1 lp)"
    if "map_of (in_ports s) nm = Some lp" "in_networks s1 = in_networks s" for s1 :: "'a dataplane" and lp nm
    by (rule release_attached_backed [OF assms that]) simp
  show ?thesis
    unfolding dp_detach_port_def Let_def
    by (intro atomic_try) (auto intro!: late_atomic late_then rel)
qed

lemma sync_after_persist:
  assumes i: "dp_inv s" and "held_by (in_ports s) net mac nm" "reserved (in_networks s) net mac"
  shows "dp_persist C E (s\<lparr>in_publish_table := tbl\<rparr>) = (s1, r) \<Longrightarrow> late (dp_sync_passt E s1 nm)"
proof -
  assume p: "dp_persist C E (s\<lparr>in_publish_table := tbl\<rparr>) = (s1, r)"
  have "in_ports s1 = in_ports s" "in_networks s1 = in_networks s"
    using persist_fields(1,2) [of C E "s\<lparr>in_publish_table := tbl\<rparr>"] p by simp_all
  then show ?thesis using assms by (auto simp: held_by_def intro: late_sync)
qed

lemma refused_publish:
  assumes "dp_inv s" "backed K (att_view s)"
  shows "atomic s (dp_publish_port J C E s p)"
proof -
  have late: "late (dp_sync_passt E s1 nm)"
    if att: "Option.bind (map_of (in_ports s) nm) lp_network \<noteq> None" and pp: "dp_persist C E (s\<lparr>in_publish_table := tbl\<rparr>) = (s1, r)"
    for nm tbl s1 r
  proof -
    obtain lp net where lp: "map_of (in_ports s) nm = Some lp" "lp_network lp = Some net"
      using att by (cases "map_of (in_ports s) nm") auto
    obtain mac where m: "held_by (in_ports s) net mac nm" using attached_held [OF assms(1) lp] .
    have "reserved (in_networks s) net mac" using backedD(1) assms(2) m unfolding att_view_def by blast
    then show ?thesis using sync_after_persist [OF assms(1) m _ pp] by simp
  qed
  have tbl: "s\<lparr>in_publish_table := tbl\<rparr> = s" if "dp_publish_alloc s nm vm = (tbl, None)" for nm vm tbl
    using that by (auto simp: dp_publish_alloc_def pt_allocate_def Let_def split: option.splits)
  show ?thesis
    unfolding dp_publish_port_def
    by (intro atomic_try) (auto simp: tbl split: prod.split option.split intro!: late_atomic late_then late)
qed

text \<open>
  A port that is attached, or for which no earlier run left a published port: unpublishing one of
  its ports can be refused only before anything is changed.
\<close>

definition unpublish_safe :: "string set \<Rightarrow> (string, live_port) btree_map \<Rightarrow> string \<Rightarrow> bool" where
  "unpublish_safe K ports nm = (nm \<in> K \<longrightarrow> (\<exists>lp net. map_of ports nm = Some lp \<and> lp_network lp = Some net))"

lemma refused_unpublish:
  assumes "dp_inv s" "backed K (att_view s)" "\<And>nm. str_p J p ''port'' = Inr nm \<Longrightarrow> unpublish_safe K (in_ports s) nm"
  shows "atomic s (dp_unpublish_port J C E s p)"
proof -
  have late: "late (dp_sync_passt E s1 nm)"
    if "str_p J p ''port'' = Inr nm" "pt_remove (in_publish_table s) nm vm = (tbl, Some host)"
      "dp_persist C E (s\<lparr>in_publish_table := tbl\<rparr>) = (s1, r)" for nm vm host tbl s1 r
  proof -
    have "map_of (pt_entries (in_publish_table s)) nm \<noteq> None"
      using that(2) by (auto simp: pt_remove_def split: option.splits)
    moreover have "\<exists>net mac. held_by (in_ports s) net mac nm" if "nm \<in> K"
      using assms(3) \<open>str_p J p ''port'' = Inr nm\<close> that attached_held [OF assms(1)] unfolding unpublish_safe_def by metis
    ultimately obtain net mac where m: "held_by (in_ports s) net mac nm" "reserved (in_networks s) net mac"
      using backedD(1,3) assms(2) unfolding att_view_def by metis
    then show ?thesis using sync_after_persist [OF assms(1) m that(3)] by simp
  qed
  have tbl: "s\<lparr>in_publish_table := tbl\<rparr> = s" if "pt_remove (in_publish_table s) nm vm = (tbl, None)" for nm vm tbl
    using that by (auto simp: pt_remove_def Let_def split: option.splits if_splits)
  show ?thesis
    unfolding dp_unpublish_port_def
    by (intro atomic_try) (auto simp: tbl split: prod.split option.split intro!: late_atomic late_then late)
qed

lemma refused_changes_nothing:
  assumes "(m, f) \<in> set (cp_methods (dp_control_plane J C E))" "dp_inv s" "backed K (att_view s)"
    and "\<And>nm. m = ''UnpublishPort'' \<Longrightarrow> str_p J p ''port'' = Inr nm \<Longrightarrow> unpublish_safe K (in_ports s) nm"
  shows "atomic s (f s p)"
  using assms(1) refused_networks [OF assms(2)] refused_ports refused_ips [OF assms(2)] refused_attach [OF assms(2)]
    refused_detach [OF assms(2,3)] refused_publish [OF assms(2,3)] refused_unpublish [OF assms(2,3) assms(4)]
  by (auto simp: cp_methods_def dp_control_plane_def)

section \<open>Orderly requests\<close>

text \<open>
  What a client has to respect: it deletes a network only when no port is attached to it, releases
  by hand only addresses of MACs that no port holds, and attaches no MAC that another port of the
  network has. Everything else may be asked for at any time.
\<close>

definition orderly :: "'v json_api \<Rightarrow> (string, live_port) btree_map \<Rightarrow> string \<Rightarrow> 'v \<Rightarrow> bool" where
  "orderly J ports m p =
     ((m = ''DeleteNetwork'' \<longrightarrow> (\<forall>net mac nm. str_p J p ''name'' = Inr net \<longrightarrow> \<not> held_by ports net mac nm))
    \<and> (m = ''ReleaseIP'' \<longrightarrow>
         (\<forall>net mac nm. str_p J p ''network'' = Inr net \<longrightarrow> mac_p J p ''mac'' = Inr mac \<longrightarrow> \<not> held_by ports net mac nm))
    \<and> (m = ''AttachPort'' \<longrightarrow>
         (\<forall>net mac nm nm'. str_p J p ''port'' = Inr nm \<longrightarrow> str_p J p ''network'' = Inr net \<longrightarrow> mac_p J p ''mac'' = Inr mac \<longrightarrow>
            held_by ports net mac nm' \<longrightarrow> nm' = nm)))"

text \<open>What the helpers do to the view.\<close>

lemma att_view_simps [simp]:
  "att_view (fst (dp_persist C E s)) = att_view s" "att_view (fst (ensure_passt E s prt ip pub)) = att_view s"
  "att_view (teardown_passt s prt) = att_view s" "att_view (s\<lparr>dp_world := w\<rparr>) = att_view s"
  "att_view (s\<lparr>in_gateway := g\<rparr>) = att_view s" "att_view (s\<lparr>in_switch := sw\<rparr>) = att_view s"
  "att_view (s\<lparr>in_passts := m\<rparr>) = att_view s" "att_view (s\<lparr>dp_poisoned := b\<rparr>) = att_view s"
  "att_view (s\<lparr>in_names := n\<rparr>) = att_view s"
  by (simp_all add: att_view_def)

lemma att_then:
  "att_view (fst m) = V \<Longrightarrow> (\<And>s' v. att_view s' = V \<Longrightarrow> att_view (fst (f s' v)) = V) \<Longrightarrow> att_view (fst (and_then m f)) = V"
  by (auto simp: and_then_def split: prod.splits sum.splits)

lemma att_try:
  "att_view s = V \<Longrightarrow> (\<And>v. r = Inr v \<Longrightarrow> att_view (fst (f v)) = V) \<Longrightarrow> att_view (fst (try_in s r f)) = V"
  by (cases r) simp_all

lemma att_sync [simp]: "att_view (fst (dp_sync_passt E s nm)) = att_view s"
  unfolding dp_sync_passt_def by (intro att_try) simp_all

lemma backed_try:
  "backed K (att_view s) \<Longrightarrow> (\<And>v. r = Inr v \<Longrightarrow> backed K (att_view (fst (f v)))) \<Longrightarrow> backed K (att_view (fst (try_in s r f)))"
  by (cases r) simp_all

text \<open>What the steps on the maps do to attachments.\<close>

lemma held_by_simps [simp]:
  "held_by (bm_insert nm lp ports) net mac nm' \<longleftrightarrow>
     (if nm' = nm then lp_network lp = Some net \<and> lp_mac lp = Some mac else held_by ports net mac nm')"
  by (auto simp: held_by_def)

lemma held_by_remove:
  "bm_wf ports \<Longrightarrow> held_by (bm_remove nm ports) net mac nm' \<longleftrightarrow> nm' \<noteq> nm \<and> held_by ports net mac nm'"
  by (auto simp: held_by_def)

lemma reserved_insert:
  "reserved (bm_insert net e nets) net' mac \<longleftrightarrow>
     (if net' = net then ipam_lookup (ne_ipam e) mac \<noteq> None else reserved nets net' mac)"
  by (auto simp: reserved_def)

lemma backed_grow:
  assumes "backed K (nets, ports, tbl)" "\<And>net mac. reserved nets net mac \<Longrightarrow> reserved nets' net mac"
  shows "backed K (nets', ports, tbl)"
  using assms unfolding backed_def by blast

lemma backed_drop_network:
  assumes "backed K (nets, ports, tbl)" "bm_wf nets" "\<And>mac nm. \<not> held_by ports net mac nm"
  shows "backed K (bm_remove net nets, ports, tbl)"
proof -
  have "reserved (bm_remove net nets) net' mac = (net' \<noteq> net \<and> reserved nets net' mac)" for net' mac
    using assms(2) by (auto simp: reserved_def)
  then show ?thesis using assms(1,3) unfolding backed_def by auto
qed

lemma backed_new_port:
  assumes "backed K (nets, ports, tbl)" "map_of ports nm = None" "lp_network lp = None"
  shows "backed K (nets, bm_insert nm lp ports, tbl)"
proof -
  have "\<not> held_by ports net mac nm" for net mac using assms(2) by (simp add: held_by_def)
  then show ?thesis using assms(1,3) unfolding backed_def by (auto split: if_splits) metis+
qed

text \<open>A port leaves: it holds nothing any more, at most its own reservation and its published ports go.\<close>

lemma backed_leave:
  assumes b: "backed K (nets, ports, tbl)"
    and held: "\<And>net mac k. held_by ports' net mac k \<longleftrightarrow> k \<noteq> nm \<and> held_by ports net mac k"
    and res: "\<And>net mac. reserved nets net mac \<Longrightarrow> \<not> held_by ports net mac nm \<Longrightarrow> reserved nets' net mac"
    and pub: "\<And>k. map_of (pt_entries tbl') k \<noteq> None \<Longrightarrow> k \<noteq> nm \<and> map_of (pt_entries tbl) k \<noteq> None"
  shows "backed K (nets', ports', tbl')"
  unfolding backed_def prod.case
proof (intro conjI allI impI)
  fix net mac k assume h: "held_by ports' net mac k"
  then have k: "k \<noteq> nm" "held_by ports net mac k" using held by simp_all
  then have "\<not> held_by ports net mac nm" using backedD(2) [OF b] by blast
  then show "reserved nets' net mac" using res backedD(1) [OF b k(2)] by blast
next
  fix net mac k k' assume "held_by ports' net mac k" "held_by ports' net mac k'"
  then show "k = k'" using backedD(2) [OF b] held by blast
next
  fix k assume "k \<notin> K" "map_of (pt_entries tbl') k \<noteq> None"
  then show "\<exists>net mac. held_by ports' net mac k" using pub backedD(3) [OF b] held by blast
qed

lemma backed_attach:
  assumes b: "backed K (nets, ports, tbl)" and lp: "map_of ports nm = Some lp" "lp_network lp = None"
    and new: "lp_network lp' = Some net" "lp_mac lp' = Some mac" "reserved nets' net mac"
    and grow: "\<And>n m. reserved nets n m \<Longrightarrow> reserved nets' n m" and alone: "\<And>k. held_by ports net mac k \<Longrightarrow> k = nm"
  shows "backed K (nets', bm_insert nm lp' ports, tbl)"
proof -
  have n: "\<not> held_by ports n m nm" for n m using lp by (simp add: held_by_def)
  have h: "held_by (bm_insert nm lp' ports) n m k \<longleftrightarrow> (k = nm \<and> n = net \<and> m = mac) \<or> held_by ports n m k" for n m k
    using new n by auto
  have a: "\<not> held_by ports net mac k" for k using alone n by blast
  show ?thesis
    unfolding backed_def prod.case h using b [unfolded backed_def prod.case] new(3) grow a by blast
qed

lemma backed_table:
  assumes "backed K (nets, ports, tbl)"
    and "\<And>k. map_of (pt_entries tbl') k \<noteq> None \<Longrightarrow> map_of (pt_entries tbl) k \<noteq> None \<or> (\<exists>net mac. held_by ports net mac k)"
  shows "backed K (nets, ports, tbl')"
  using assms unfolding backed_def by blast

section \<open>Orderly requests keep attachments backed\<close>

lemma persist_view: "backed K (att_view t) \<Longrightarrow> (\<And>s'. att_view (fst (f s' ())) = att_view s') \<Longrightarrow>
    backed K (att_view (fst (and_then (dp_persist C E t) f)))"
  using att_then [of "dp_persist C E t" "att_view t" f] by simp

lemma backed_networks:
  assumes i: "dp_inv s" and b: "backed K (att_view s)"
  shows "backed K (att_view (fst (dp_create_network J C E s p)))"
    "orderly J (in_ports s) ''DeleteNetwork'' p \<Longrightarrow> backed K (att_view (fst (dp_delete_network J C E s p)))"
proof -
  have new: "backed K (att_view (s\<lparr>in_gateway := g, in_networks := bm_insert nm e (in_networks s)\<rparr>))"
    if "map_of (in_networks s) nm = None" for g nm e
    using b that by (simp add: att_view_def) (rule backed_grow, auto simp: reserved_def)
  show "backed K (att_view (fst (dp_create_network J C E s p)))"
    unfolding dp_create_network_def by (intro backed_try b) (auto simp: b split: option.split intro!: backed_try persist_view new)
  assume "orderly J (in_ports s) ''DeleteNetwork'' p"
  then have "backed K (att_view (s\<lparr>in_gateway := g, in_networks := bm_remove nm (in_networks s)\<rparr>))"
    if "str_p J p ''name'' = Inr nm" for nm g
    using that b dp_wf [OF i] by (auto simp: att_view_def orderly_def intro!: backed_drop_network)
  then show "backed K (att_view (fst (dp_delete_network J C E s p)))"
    unfolding dp_delete_network_def Let_def by (intro backed_try b) (auto simp: b split: option.split intro!: persist_view)
qed

lemma remove_port_entries [simp]:
  "pt_wf t \<Longrightarrow> map_of (pt_entries (fst (pt_remove_port t nm))) = (map_of (pt_entries t))(nm := None)"
  by (simp add: pt_remove_port_def pt_wf_def)

lemma backed_create_port: "backed K (att_view s) \<Longrightarrow> backed K (att_view (fst (dp_create_port J C E s p)))"
proof -
  assume b: "backed K (att_view s)"
  have "backed K (att_view (s\<lparr>in_next_port_id := n, in_switch := sw, in_names := nms,
      in_ports := bm_insert nm \<lparr>lp_id = q, lp_network = None, lp_mac = None, lp_vhost = h\<rparr> (in_ports s), dp_world := w\<rparr>))"
    if "map_of (in_ports s) nm = None" for n sw nms nm q h w
    using b that by (simp add: att_view_def backed_new_port)
  then show ?thesis
    unfolding dp_create_port_def Let_def by (intro backed_try b) (auto simp: b intro!: persist_view)
qed

lemma backed_delete_port:
  assumes i: "dp_inv s" and b: "backed K (att_view s)"
  shows "backed K (att_view (fst (dp_delete_port J C E s p)))"
proof -
  note wf = dp_wf [OF i]
  have "backed K (in_networks (dp_release_quiet (s\<lparr>in_ports := bm_remove nm (in_ports s)\<rparr>) lp),
      bm_remove nm (in_ports s), fst (pt_remove_port (in_publish_table s) nm))"
    if "map_of (in_ports s) nm = Some lp" for nm lp
    by (rule backed_leave [OF b [unfolded att_view_def], of _ nm])
      (use wf that in \<open>auto simp: held_by_remove dp_release_quiet_def held_by_def ipam_release_spec intro!: release_view
          split: option.splits if_splits\<close>)
  then show ?thesis
    unfolding dp_delete_port_def Let_def
    by (intro backed_try b)
      (auto simp: b [unfolded att_view_def] att_view_def split: option.split intro!: persist_view [unfolded att_view_def])
qed

lemma backed_attach_port:
  assumes i: "dp_inv s" and b: "backed K (att_view s)" and o: "orderly J (in_ports s) ''AttachPort'' p"
  shows "backed K (att_view (fst (dp_attach_port J C E s p)))"
proof -
  have tail: "att_view (fst (try_in s2 r (\<lambda>ip. and_then (ensure_passt E s2 nm (show_ip ip) []) (\<lambda>s3 _.
      and_then (dp_persist C E s3) (\<lambda>s4 _. (s4, Inr (jn_null J))))))) = att_view s2" for s2 nm r
    by (intro att_try att_then) simp_all
  have lookup: "ipam_lookup i' = (ipam_lookup (ne_ipam e))(mac \<mapsto> ip)"
    if "map_of (in_networks s) net = Some e" "ipam_allocate (ne_ipam e) mac = (i', Inr ip)" for net e mac i' ip
    using ipam_allocate_lookup [OF _ that(2)] nets_okD [OF dp_invD(1) [OF i] that(1)] by (simp add: net_entry_ok_def)
  have att: "backed K (att_view (s\<lparr>in_networks := bm_insert net (e\<lparr>ne_ipam := i'\<rparr>) (in_networks s),
      in_ports := bm_insert nm (lp\<lparr>lp_network := Some net, lp_mac := Some mac\<rparr>) (in_ports s)\<rparr>))"
    if "str_p J p ''port'' = Inr nm" "str_p J p ''network'' = Inr net" "mac_p J p ''mac'' = Inr mac"
      "map_of (in_ports s) nm = Some lp" "lp_network lp = None"
      "map_of (in_networks s) net = Some e" "ipam_allocate (ne_ipam e) mac = (i', Inr ip)" for nm net mac lp e i' ip
    unfolding att_view_def
    by (simp, rule backed_attach [OF b [unfolded att_view_def] that(4,5)])
      (use o that lookup [OF that(6,7)] in \<open>auto simp: orderly_def reserved_def\<close>)
  have same: "s\<lparr>in_networks := bm_insert net e (in_networks s)\<rparr> = s" if "map_of (in_networks s) net = Some e" for net e
    using that dp_wf [OF i] by (simp add: bm_insert_same)
  show ?thesis
    unfolding dp_attach_port_def Let_def
    by (intro backed_try b)
      (auto simp: b tail same dest!: ipam_refusals intro!: backed_try att split: prod.split sum.split)
qed

lemma backed_detach_port:
  assumes i: "dp_inv s" and b: "backed K (att_view s)"
  shows "backed K (att_view (fst (dp_detach_port J C E s p)))"
proof -
  have "backed K (att_view (fst (and_then (dp_release_attached s1 lp) (\<lambda>s2 _.
      and_then (dp_persist C E (s2\<lparr>in_publish_table := fst (pt_remove_port (in_publish_table s2) nm)\<rparr>)) (\<lambda>s3 _.
        (teardown_passt s3 nm, Inr (jn_null J)))))))"
    if lp: "map_of (in_ports s) nm = Some lp" and s1: "in_networks s1 = in_networks s" "in_publish_table s1 = in_publish_table s"
      "in_ports s1 = bm_insert nm (lp\<lparr>lp_network := None, lp_mac := None\<rparr>) (in_ports s)" for nm lp and s1 :: "'a dataplane"
  proof -
    obtain nets where r: "dp_release_attached s1 lp = (s1\<lparr>in_networks := nets\<rparr>, Inr ())"
      "\<And>net mac. reserved (in_networks s) net mac \<Longrightarrow> \<not> held_by (in_ports s) net mac nm \<Longrightarrow> reserved nets net mac"
      using release_attached_backed [OF i b lp s1(1)] by blast
    have "backed K (nets, in_ports s1, fst (pt_remove_port (in_publish_table s) nm))"
      by (rule backed_leave [OF b [unfolded att_view_def], of _ nm])
        (use r(2) s1 dp_wf [OF i] in \<open>auto split: if_splits\<close>)
    then show ?thesis using r(1) s1(2) by (auto simp: att_view_def intro!: persist_view [unfolded att_view_def])
  qed
  then show ?thesis
    unfolding dp_detach_port_def Let_def by (intro backed_try b) auto
qed

lemma backed_ips:
  assumes i: "dp_inv s" and b: "backed K (att_view s)"
  shows "backed K (att_view (fst (dp_allocate_ip J s p)))"
    "orderly J (in_ports s) ''ReleaseIP'' p \<Longrightarrow> backed K (att_view (fst (dp_release_ip J C E s p)))"
proof -
  have grow: "backed K (att_view (s\<lparr>in_networks := bm_insert net (e\<lparr>ne_ipam := j\<rparr>) (in_networks s)\<rparr>))"
    if "map_of (in_networks s) net = Some e" "ipam_allocate (ne_ipam e) mac = (j, r)" for net e mac j r
    unfolding att_view_def
    by (simp, rule backed_grow [OF b [unfolded att_view_def]])
      (use that in \<open>auto simp: reserved_def ipam_allocate_def ipam_lookup_def split: option.splits if_splits\<close>)
  then show "backed K (att_view (fst (dp_allocate_ip J s p)))"
    unfolding dp_allocate_ip_def by (intro backed_try b) (auto split: prod.split)
  assume o: "orderly J (in_ports s) ''ReleaseIP'' p"
  have "backed K (att_view (s\<lparr>in_networks := bm_insert net (e\<lparr>ne_ipam := j\<rparr>) (in_networks s)\<rparr>))"
    if p: "str_p J p ''network'' = Inr net" "mac_p J p ''mac'' = Inr mac" "map_of (in_networks s) net = Some e"
      "ipam_release (ne_ipam e) mac = (j, r)" for net mac e j r
  proof -
    have "ipam_lookup j = (ipam_lookup (ne_ipam e))(mac := None)" using ipam_release_spec(1) [of "ne_ipam e" mac] p(4) by simp
    note rv = release_view [OF this p(3)]
    have "\<not> held_by (in_ports s) net mac nm" for nm using o p(1,2) by (simp add: orderly_def)
    then show ?thesis using b rv unfolding att_view_def backed_def by (simp; metis)
  qed
  then show "backed K (att_view (fst (dp_release_ip J C E s p)))"
    unfolding dp_release_ip_def Let_def
    by (intro backed_try b) (auto split: prod.split sum.split ipam_error.split intro!: persist_view)
qed

lemma publish_entries:
  "dp_publish_alloc s nm vm = (tbl, r) \<Longrightarrow> map_of (pt_entries tbl) k \<noteq> None \<Longrightarrow>
     k = nm \<or> map_of (pt_entries (in_publish_table s)) k \<noteq> None"
  by (auto simp: dp_publish_alloc_def pt_allocate_def Let_def split: option.splits if_splits)

lemma remove_entries:
  assumes "pt_wf t" "pt_remove t nm vm = (tbl, r)"
  shows "map_of (pt_entries tbl) k \<noteq> None \<Longrightarrow> map_of (pt_entries t) k \<noteq> None"
  using assms by (auto simp: pt_remove_def pt_wf_def Let_def split: option.splits if_splits)

lemma backed_publish:
  assumes i: "dp_inv s" and b: "backed K (att_view s)"
  shows "backed K (att_view (fst (dp_publish_port J C E s p)))" "backed K (att_view (fst (dp_unpublish_port J C E s p)))"
proof -
  have tail: "att_view (fst (and_then (dp_sync_passt E s1 nm) (\<lambda>s2 _. (s2, Inr v)))) = att_view s1" for s1 :: "'a dataplane" and nm and v :: 'a
    by (rule att_then) simp_all
  have pub: "backed K (att_view (s\<lparr>in_publish_table := tbl\<rparr>))"
    if a: "Option.bind (map_of (in_ports s) nm) lp_network \<noteq> None" and t: "dp_publish_alloc s nm vm = (tbl, r)" for nm vm tbl r
  proof -
    obtain lp net where lp: "map_of (in_ports s) nm = Some lp" "lp_network lp = Some net"
      using a by (cases "map_of (in_ports s) nm") auto
    obtain mac where h: "held_by (in_ports s) net mac nm" using attached_held [OF i lp] .
    have "backed K (in_networks s, in_ports s, tbl)"
      using backed_table [OF b [unfolded att_view_def]] publish_entries [OF t] h by blast
    then show ?thesis by (simp add: att_view_def)
  qed
  show "backed K (att_view (fst (dp_publish_port J C E s p)))"
    unfolding dp_publish_port_def
    by (intro backed_try b) (auto simp: b tail split: prod.split option.split intro!: persist_view intro: pub)
  have rem: "backed K (att_view (s\<lparr>in_publish_table := tbl\<rparr>))" if "pt_remove (in_publish_table s) nm vm = (tbl, r)" for nm vm tbl r
    using remove_entries [OF _ that] dp_wf [OF i] backed_table [OF b [unfolded att_view_def]] by (simp add: att_view_def)
  then show "backed K (att_view (fst (dp_unpublish_port J C E s p)))"
    unfolding dp_unpublish_port_def
    by (intro backed_try b) (auto simp: b tail split: prod.split option.split intro!: persist_view)
qed

lemma orderly_keeps_backed:
  assumes "(m, f) \<in> set (cp_methods (dp_control_plane J C E))" "dp_inv s" "backed K (att_view s)" "orderly J (in_ports s) m p"
  shows "backed K (att_view (fst (f s p)))"
proof -
  note ops = backed_networks [OF assms(2,3)] backed_create_port [OF assms(3)] backed_delete_port [OF assms(2,3)]
    backed_attach_port [OF assms(2,3)] backed_detach_port [OF assms(2,3)] backed_ips [OF assms(2,3)]
    backed_publish [OF assms(2,3)] assms(3)
  from assms(1) show ?thesis
    unfolding cp_methods_def dp_control_plane_def
    by (simp, elim disjE conjE) (use assms(4) in \<open>simp_all add: ops\<close>)
qed

section \<open>Runs of orderly requests\<close>

text \<open>Frames, supervision and WAN ingress leave the attachments alone.\<close>

lemma att_inject [simp]: "att_view (fst (inject_to s p f)) = att_view s"
  by (simp add: inject_to_def split: option.split)

lemma att_inject_all [simp]: "att_view (fold (\<lambda>(peer, f) st. fst (inject_to st peer f)) targets s) = att_view s"
  by (induction targets arbitrary: s) auto

lemma att_pump_frame [simp]: "att_view (pump_frame D N E s name me f) = att_view s"
proof -
  have "att_view (pump_switch s me f) = att_view s"
    by (simp add: pump_switch_def case_prod_unfold Let_def att_inject_all [unfolded case_prod_unfold])
  moreover have "att_view (passt_egress E s p g) = att_view s" for p g
    by (simp add: passt_egress_def Let_def split: option.split)
  ultimately show ?thesis
    by (simp add: pump_frame_def Let_def split: outcome.split option.split)
qed

lemma att_slots [simp]: "att_view (s\<lparr>in_passts := m, dp_world := w\<rparr>) = att_view s"
  by (simp add: att_view_def)

lemma att_pump_turn [simp]: "att_view (fst (pump_turn D N E name me ev s)) = att_view s"
proof -
  have "att_view (supervise_passt E t p) = att_view t" for t :: "'a dataplane" and p
    by (simp add: supervise_passt_def Let_def split: option.split prod.split)
  then show ?thesis
    by (auto simp: pump_turn_def Let_def split: prod.split delivery.split port_message.split)
qed

lemma att_ingress_frame [simp]: "att_view (fst (ingress_frame s name h payload)) = att_view s"
  by (simp add: ingress_frame_def Let_def split: option.split)

lemma att_read_turn [simp]: "att_view (fst (read_turn name h ev (s, pending))) = att_view s"
  by (rule read_turn_keeps [where P = "\<lambda>t. att_view t = att_view s"]) simp_all

lemma att_reader_retire [simp]: "att_view (reader_retire s name h) = att_view s"
  by (simp add: reader_retire_def Let_def)

text \<open>A step of the daemon in which a request, if it is one, respects the rules.\<close>

inductive orderly_step ::
  "'v json_api \<Rightarrow> 'v snap_codec \<Rightarrow> dp_os \<Rightarrow> dhcp_codec \<Rightarrow> dns_codec \<Rightarrow> 'v dataplane \<Rightarrow> 'v dataplane \<Rightarrow> bool"
  for J C E D N where
  request: "(m, f) \<in> set (cp_methods (dp_control_plane J C E)) \<Longrightarrow> orderly J (in_ports s) m params \<Longrightarrow>
     orderly_step J C E D N s (fst (f s params))"
| frame: "(name, me) \<in> set (w_pumps (dp_world s)) \<Longrightarrow> orderly_step J C E D N s (fst (pump_turn D N E name me ev s))"
| chunk: "(name, h) \<in> set (w_readers (dp_world s)) \<Longrightarrow> orderly_step J C E D N s (fst (read_turn name h ev (s, pending)))"
| leave: "(name, h) \<in> set (w_readers (dp_world s)) \<Longrightarrow> reader_poll s name ok = ReaderRetires \<Longrightarrow>
     orderly_step J C E D N s (reader_retire s name h)"

lemma orderly_step_dp: "orderly_step J C E D N s s' \<Longrightarrow> dp_step J C E D N s s'"
  by (induction rule: orderly_step.induct) (blast intro: dp_step.intros)+

lemma orderly_step_backed:
  "orderly_step J C E D N s s' \<Longrightarrow> dp_inv s \<Longrightarrow> backed K (att_view s) \<Longrightarrow> dp_inv s' \<and> backed K (att_view s')"
  by (frule dp_step_inv [OF orderly_step_dp], assumption, induction rule: orderly_step.induct)
    (simp_all add: orderly_keeps_backed)

lemma orderly_run_backed:
  assumes "(orderly_step J C E D N)\<^sup>*\<^sup>* (dp_from_parts dir tbl w) s" "pt_wf tbl" "pt_inj tbl"
  shows "dp_inv s \<and> backed (dom (map_of (pt_entries tbl))) (att_view s)"
  using assms(1)
proof (induction rule: rtranclp_induct)
  case base
  have "table_ok tbl" using assms(2,3) by (simp add: table_ok_def)
  then show ?case
    by (simp add: dp_from_parts_inv) (simp add: att_view_def dp_from_parts_def backed_def held_by_def domIff)
next
  case (step s s')
  then show ?case using orderly_step_backed by blast
qed

section \<open>Repeating a failed request\<close>

text \<open>A request that leaves the view alone leaves the specification's state alone.\<close>

lemma att_abs: "att_view s' = att_view s \<Longrightarrow> dp_abs s' = dp_abs s"
  by (simp add: att_view_def dp_abs_def)

lemma try_in_Inl:
  "try_in s r f = (s', Inl e) \<longleftrightarrow> r = Inl e \<and> s' = s \<or> (\<exists>x. r = Inr x \<and> f x = (s', Inl e))"
  by (auto simp: try_in_def split: sum.splits)

lemma persist_failed:
  assumes "and_then (dp_persist C E t) (\<lambda>s' _. (g s', Inr v)) = (s', Inl e)"
  shows "att_view s' = att_view t" "dp_poisoned s' = dp_poisoned t" "in_passts s' = in_passts t" "in_gateway s' = in_gateway t"
proof -
  have "s' = fst (dp_persist C E t)"
    using assms by (auto simp: and_then_def split: prod.splits sum.splits)
  then show "att_view s' = att_view t" "dp_poisoned s' = dp_poisoned t" "in_passts s' = in_passts t" "in_gateway s' = in_gateway t"
    by simp_all
qed

lemma retry_create_network:
  assumes "dp_create_network J C E s p = (s', Inl e)" "dp_abs s' \<noteq> dp_abs s"
  shows "dp_create_network J C E s' p = (s', Inr (jn_null J))"
proof -
  obtain nm a b c d net where c: "str_p J p ''name'' = Inr nm" "str_p J p ''cidr'' = Inr a" "str_p J p ''gateway'' = Inr b"
      "str_p J p ''poolStart'' = Inr c" "str_p J p ''poolEnd'' = Inr d" "\<not> dp_poisoned s"
      "and_then (dp_persist C E
                (s\<lparr>in_gateway := gateway_add_network (in_gateway s) net,
                   in_networks := bm_insert nm \<lparr>ne_ipam = ipam_new net, ne_created_with = p\<rparr> (in_networks s)\<rparr>))
               (\<lambda>s' _. (s', Inr (jn_null J))) = (s', Inl e)"
    using assms by (auto simp: dp_create_network_def try_in_def dp_lock_def split: sum.splits option.splits if_splits)
  have "map_of (in_networks s') nm = Some \<lparr>ne_ipam = ipam_new net, ne_created_with = p\<rparr>" "\<not> dp_poisoned s'"
    using persist_failed [where g = "\<lambda>s. s", OF c(7)] c(6) by (simp_all add: att_view_def)
  then show ?thesis using c(1-5) by (simp add: dp_create_network_def dp_lock_def)
qed

lemma retry_delete_network:
  assumes "dp_inv s" "dp_delete_network J C E s p = (s', Inl e)" "dp_abs s' \<noteq> dp_abs s"
  shows "dp_delete_network J C E s' p = (s', Inl NotFound) \<and> in_passts s' = in_passts s"
proof -
  obtain nm where c: "str_p J p ''name'' = Inr nm" "\<not> dp_poisoned s"
      "and_then (dp_persist C E (s\<lparr>in_gateway := fst (gateway_remove_network (in_gateway s) nm),
          in_networks := bm_remove nm (in_networks s)\<rparr>)) (\<lambda>s' _. (s', Inr (jn_null J))) = (s', Inl e)"
    using assms(2,3) by (auto simp: dp_delete_network_def try_in_def dp_lock_def Let_def split: sum.splits option.splits if_splits)
  have n: "map_of (in_networks s') nm = None" "\<not> dp_poisoned s'" "in_passts s' = in_passts s"
    using persist_failed [where g = "\<lambda>s. s", OF c(3)] c(2) dp_wf [OF assms(1)] by (simp_all add: att_view_def)
  have "dp_inv s'" using dp_delete_network_inv [OF assms(1), of J C E p] assms(2) by simp
  then have "fst (gateway_remove_network (in_gateway s') nm) = in_gateway s'" using gateway_remove_absent dp_invD(1) n(1) by blast
  then show ?thesis using c(1) n by (simp add: dp_delete_network_def dp_lock_def)
qed

lemma retry_create_port:
  assumes "dp_create_port J C E s p = (s', Inl e)" "dp_abs s' \<noteq> dp_abs s"
  shows "dp_create_port J C E s' p = (s', Inr (jn_null J))"
proof -
  obtain nm n sw nms lp w where c: "str_p J p ''name'' = Inr nm" "\<not> dp_poisoned s"
      "and_then (dp_persist C E (s\<lparr>in_next_port_id := n, in_switch := sw, in_names := nms,
          in_ports := bm_insert nm lp (in_ports s), dp_world := w\<rparr>)) (\<lambda>s' _. (s', Inr (jn_null J))) = (s', Inl e)"
    using assms by (auto simp: dp_create_port_def try_in_def dp_lock_def Let_def split: sum.splits if_splits)
  then show ?thesis
    using persist_failed [where g = "\<lambda>s. s", OF c(3)] by (simp add: att_view_def dp_create_port_def dp_lock_def)
qed

lemma retry_delete_port:
  assumes "dp_inv s" "dp_delete_port J C E s p = (s', Inl e)" "dp_abs s' \<noteq> dp_abs s"
  shows "dp_delete_port J C E s' p = (s', Inl NotFound) \<and> in_passts s' = in_passts s"
proof -
  obtain nm lp where n: "str_p J p ''name'' = Inr nm" "\<not> dp_poisoned s" "map_of (in_ports s) nm = Some lp"
    using assms(2,3) by (auto simp: dp_delete_port_def try_in_def dp_lock_def split: sum.splits option.splits if_splits)
  note f = persist_failed [OF assms(2) [unfolded delete_port_eq [OF n]]]
  have "map_of (in_ports s') nm = None" "\<not> dp_poisoned s'"
    using f(1,2) n(2) dp_wf [OF assms(1)] by (simp_all add: att_view_def)
  then show ?thesis using f(3) n(1) by (simp add: dp_delete_port_def dp_lock_def)
qed

lemma and_then_answer [simp]: "fst (and_then m (\<lambda>t _. (t, Inr v))) = fst m"
  by (auto simp: and_then_def split: prod.split sum.split)

lemma ensure_persist_view:
  fixes E t nm ip pub C v
  defines "u \<equiv> fst (and_then (ensure_passt E t nm ip pub) (\<lambda>s3 _. and_then (dp_persist C E s3) (\<lambda>s4 _. (s4, Inr v))))"
  shows "att_view u = att_view t" "dp_poisoned u = dp_poisoned t"
proof -
  let ?P = "\<lambda>u. att_view u = att_view t \<and> dp_poisoned u = dp_poisoned t"
  have e: "?P (fst (ensure_passt E t nm ip pub))" by simp
  have "?P u" unfolding u_def
    by (rule and_then_inv [where P = ?P, OF e]) (use e in simp)
  then show "att_view u = att_view t" "dp_poisoned u = dp_poisoned t" by simp_all
qed

lemma retry_attach_port:
  assumes i: "dp_inv s" and r: "dp_attach_port J C E s p = (s', Inl e)" and ch: "dp_abs s' \<noteq> dp_abs s"
  shows "dp_attach_port J C E s' p = (s', Inr (jn_null J))"
proof -
  have ne: "s' \<noteq> s" using ch by auto
  obtain nm net mac lp n where c: "str_p J p ''port'' = Inr nm" "str_p J p ''network'' = Inr net" "mac_p J p ''mac'' = Inr mac"
      "\<not> dp_poisoned s" "map_of (in_ports s) nm = Some lp" "lp_network lp = None" "map_of (in_networks s) net = Some n"
    using r ne unfolding dp_attach_port_def try_in_Inl by (auto simp: dp_lock_def ok_or_def split: if_splits option.splits)
  obtain a res where a: "ipam_allocate (ne_ipam n) mac = (a, res)" by (cases "ipam_allocate (ne_ipam n) mac")
  obtain ip where res: "res = Inr ip"
  proof (cases res)
    case (Inl err)
    have "bm_insert net n (in_networks s) = in_networks s" using bm_insert_same [of "in_networks s" net n] dp_wf [OF i] c(7) by simp
    then have False using r c a Inl ne ipam_refusals(1) [OF a [unfolded Inl]] by (simp add: dp_attach_port_def dp_lock_def Let_def)
    then show thesis ..
  qed (use that in blast)
  have lk: "ipam_lookup a mac = Some ip"
    using ipam_allocate_lookup [OF _ a [unfolded res]] nets_okD [OF dp_invD(1) [OF i] c(7)] by (simp add: net_entry_ok_def)
  define t where "t = attached_state s nm lp net mac n a"
  have "s' = fst (and_then (ensure_passt E t nm (show_ip ip) []) (\<lambda>s3 _.
      and_then (dp_persist C E s3) (\<lambda>s4 _. (s4, Inr (jn_null J)))))"
    using r c a res lk by (simp add: dp_attach_port_def dp_lock_def Let_def attached_state_def t_def)
  then have "att_view s' = att_view t" "dp_poisoned s' = dp_poisoned t" using ensure_persist_view [of E t] by simp_all
  then show ?thesis using c by (simp add: att_view_def t_def dp_attach_port_def dp_lock_def attached_state_def)
qed

section \<open>Why the rules are needed\<close>

text \<open>
  \<open>attach_port\<close> accepts a MAC that another port of the network has; both share one reservation, and
  deleting either port takes it from the other, which stays attached.
\<close>

lemma shared_mac_loses_reservation:
  assumes i: "dp_inv s" and two: "held_by (in_ports s) net mac a" "held_by (in_ports s) net mac b" "a \<noteq> b"
    and r: "dp_delete_port J C E s p = (s', Inr v)" "str_p J p ''name'' = Inr a"
  shows "held_by (in_ports s') net mac b \<and> \<not> reserved (in_networks s') net mac"
proof -
  obtain lp s3 where c: "map_of (in_ports s) a = Some lp" "dp_persist C E (deleted_state s a lp) = (s3, Inr ())"
    "s' = (teardown_passt s3 a)\<lparr>dp_world := (dp_world (teardown_passt s3 a))
       \<lparr>w_fs := (w_fs (dp_world (teardown_passt s3 a)))(dp_sock (teardown_passt s3 a) a := None)\<rparr>\<rparr>"
    using delete_port_success [OF r] .
  have "in_ports s' = bm_remove a (in_ports s)"
    "in_networks s' = in_networks (dp_release_quiet (s\<lparr>in_ports := bm_remove a (in_ports s)\<rparr>) lp)"
    using persist_fields(1,2) [of C E "deleted_state s a lp"] c(2,3) by simp_all
  then show ?thesis
    using two c(1) dp_wf [OF i]
    by (auto simp: held_by_remove held_by_def dp_release_quiet_def reserved_def ipam_release_spec split: option.splits if_splits)
qed

section \<open>Properties\<close>

text \<open>
  C5: a refused request changes nothing. Start the daemon with any restored publish table whose host
  ports are unique. Whatever requests came before, in whatever order the threads ran and whatever
  system calls failed, provided no network was deleted under an attached port, no attached port's
  reservation was released by hand and no MAC was attached twice to a network: a request that is
  refused as malformed, unknown or conflicting leaves the daemon's whole state, its files and its
  processes exactly as they were. The one exception is left out by hypothesis: an UnpublishPort for
  a port that has entries in the restored table and is not attached at the time of the request.
\<close>

theorem refusal_is_atomic:
  assumes "(orderly_step J C E D N)\<^sup>*\<^sup>* (dp_from_parts dir tbl w) s" "pt_wf tbl" "pt_inj tbl"
    and "(m, f) \<in> set (cp_methods (dp_control_plane J C E))" "f s params = (s', Inl e)" "e \<noteq> Internal"
    and "\<forall>nm. m = ''UnpublishPort'' \<longrightarrow> str_p J params ''port'' = Inr nm \<longrightarrow>
        map_of (pt_entries tbl) nm = None \<or> (\<exists>lp net. map_of (in_ports s) nm = Some lp \<and> lp_network lp = Some net)"
  shows "s' = s"
proof -
  let ?K = "dom (map_of (pt_entries tbl))"
  have "dp_inv s" "backed ?K (att_view s)" using orderly_run_backed [OF assms(1-3)] by blast+
  moreover have "unpublish_safe ?K (in_ports s) nm" if "m = ''UnpublishPort''" "str_p J params ''port'' = Inr nm" for nm
    using assms(7) that by (auto simp: unpublish_safe_def)
  ultimately show ?thesis
    using refused_changes_nothing [OF assms(4), of s ?K params] assms(5,6) by (simp add: atomic_def)
qed

text \<open>
  C12: a CreateNetwork, CreatePort, AttachPort, DeleteNetwork or DeletePort request that failed after
  it changed the state cannot be repaired by repeating it. The
  failure is an internal error; the change stays in memory although it was not saved or the WAN
  process did not start. Repeating a CreateNetwork, CreatePort or AttachPort is then acknowledged
  at once, without another attempt to save. Repeating a DeleteNetwork or DeletePort is refused
  as unknown, and the WAN process of the deleted port keeps its slot and runs on.
\<close>

theorem failed_change_not_repaired:
  assumes "dp_inv s" "(m, f) \<in> set (cp_methods (dp_control_plane J C E))" "f s params = (s', Inl e)" "dp_abs s' \<noteq> dp_abs s"
  shows "(m \<in> {''CreateNetwork'', ''CreatePort'', ''AttachPort''} \<longrightarrow> e = Internal \<and> f s' params = (s', Inr (jn_null J)))
    \<and> (m \<in> {''DeleteNetwork'', ''DeletePort''} \<longrightarrow>
         e = Internal \<and> f s' params = (s', Inl NotFound) \<and> in_passts s' = in_passts s)"
proof -
  have ne: "s' \<noteq> s" using assms(4) by auto
  note i = assms(1) and ch = assms(4)
  have "atomic s (f s params)" if "m \<in> {''CreateNetwork'', ''CreatePort'', ''AttachPort'', ''DeleteNetwork'', ''DeletePort''}"
    using assms(2) unfolding cp_methods_def dp_control_plane_def
    by (simp, elim disjE conjE) (use that in \<open>simp_all add: refused_networks [OF i] refused_ports refused_attach [OF i]\<close>)
  then have internal: "e = Internal" if "m \<in> {''CreateNetwork'', ''CreatePort'', ''AttachPort'', ''DeleteNetwork'', ''DeletePort''}"
    using that assms(3) ne by (auto simp: atomic_def)
  from assms(2) show ?thesis
    unfolding cp_methods_def dp_control_plane_def
    by (simp, elim disjE conjE)
      (use internal assms(3) in \<open>simp_all add: retry_create_network [OF _ ch] retry_create_port [OF _ ch]
        retry_attach_port [OF i _ ch] retry_delete_network [OF i _ ch] retry_delete_port [OF i _ ch]\<close>)
qed

section \<open>Witnesses\<close>

lemma demo_methods:
  "(''CreateNetwork'', dp_create_network J C E) \<in> set (cp_methods (dp_control_plane J C E))"
  "(''CreatePort'', dp_create_port J C E) \<in> set (cp_methods (dp_control_plane J C E))"
  "(''AttachPort'', dp_attach_port J C E) \<in> set (cp_methods (dp_control_plane J C E))"
  by (simp_all add: cp_methods_def dp_control_plane_def)

lemma demo_unattached: "\<not> held_by (in_ports demo_two) net mac nm"
proof -
  have a: "\<not> dp_poisoned demo_net" "map_of (in_ports demo_net) ''a'' = None" by (simp_all add: demo_net_facts)
  have o: "in_ports demo_one = [(''a'', demo_port 1 0)]"
    using demo_create_port [OF a] unfolding demo_one_def by (auto simp: demo_net_facts)
  have b: "\<not> dp_poisoned demo_one" "map_of (in_ports demo_one) ''b'' = None" by (simp_all add: demo_two_facts o)
  obtain x y where "in_ports demo_two = bm_insert ''b'' (demo_port x y) (in_ports demo_one)"
    using demo_create_port [OF b] unfolding demo_two_def by auto
  then show ?thesis by (auto simp: o held_by_def demo_port_def)
qed

lemma demo_orderly: "(orderly_step tree_json tree_codec demo_os D N)\<^sup>*\<^sup>* (dp_from_parts ''/run'' pt_default demo_world) demo_att"
proof -
  let ?R = "orderly_step tree_json tree_codec demo_os D N"
  have a: "?R demo_fresh demo_net" unfolding demo_net_def by (rule request [OF demo_methods(1)]) (simp add: orderly_def)
  have b: "?R demo_net demo_one" unfolding demo_one_def by (rule request [OF demo_methods(2)]) (simp add: orderly_def)
  have c: "?R demo_one demo_two" unfolding demo_two_def by (rule request [OF demo_methods(2)]) (simp add: orderly_def)
  have d: "?R demo_two demo_att" unfolding demo_att_def
    by (rule request [OF demo_methods(3)]) (simp add: orderly_def demo_unattached)
  note into = rtranclp.rtrancl_into_rtrancl [of ?R demo_fresh]
  from into [OF into [OF into [OF into [OF rtranclp.rtrancl_refl a] b] c] d] show ?thesis unfolding demo_fresh_def .
qed

theorem refusal_is_atomic_witness:
  "dp_attach_port tree_json tree_codec demo_os demo_att (attach_params ''a'' (demo_mac 9)) = (demo_att, Inl Conflict)"
proof -
  obtain s' where r: "dp_attach_port tree_json tree_codec demo_os demo_att (attach_params ''a'' (demo_mac 9)) = (s', Inl Conflict)"
    by (simp add: dp_attach_port_def dp_lock_def demo_att_facts)
  have "s' = demo_att" by (rule refusal_is_atomic [OF demo_orderly _ _ demo_methods(3) r]) (simp_all add: pt_inj_def)
  then show ?thesis using r by simp
qed

text \<open>A disk on which the state file cannot be written.\<close>

definition full_disk :: dp_os where
  "full_disk = demo_os\<lparr>os_save := \<lambda>_. io_all_ok\<lparr>io_write := OpenFails\<rparr>\<rparr>"

lemma full_disk_persist: "dp_persist tree_codec full_disk s = (s\<lparr>dp_world := world_tick (dp_world s)\<rparr>, Inl Internal)"
  by (simp add: dp_persist_def save_to_disk_def tree_codec_def full_disk_def world_tick_def Let_def)

theorem failed_change_not_repaired_witness:
  "\<exists>s'. dp_create_network tree_json tree_codec full_disk demo_fresh (demo_params (show_ip 0xC0A87C01)) = (s', Inl Internal)
    \<and> dp_create_network tree_json tree_codec full_disk s' (demo_params (show_ip 0xC0A87C01)) = (s', Inr (jn_null tree_json))
    \<and> w_fs (dp_world s') = w_fs (dp_world demo_fresh)"
proof -
  obtain s' where r: "dp_create_network tree_json tree_codec full_disk demo_fresh (demo_params (show_ip 0xC0A87C01)) = (s', Inl Internal)"
      "w_fs (dp_world s') = w_fs (dp_world demo_fresh)" "map_of (in_networks s') ''lab'' \<noteq> None"
    by (simp add: dp_create_network_def demo_fresh_def dp_from_parts_def dp_lock_def build_network_def ip_pool_new_def
        lab_net_parses full_disk_persist)
  have "ctl_networks (dp_abs s') ''lab'' \<noteq> ctl_networks (dp_abs demo_fresh) ''lab''"
    using r(3) by (simp add: dp_abs_def demo_fresh_def dp_from_parts_def)
  then have "dp_abs s' \<noteq> dp_abs demo_fresh" by auto
  from failed_change_not_repaired [OF demo_inv(1) demo_methods(1) r(1) this] r show ?thesis by simp
qed

end
