(* ===== verification/Dataplane_Threads.thy ===== *)
theory Dataplane_Threads
  imports Dataplane_Topo
begin

text \<open>
  The loops of the threads are runs of the step relation: whatever a pump or a reader thread meets
  on its channel or its stream, running its loop alone is a sequence of \<open>dp_step\<close>s. The
  relation lets the turns of different threads interleave, so it covers every schedule in which a
  turn is not interrupted; each turn holds the lock while it uses the shared state.
\<close>

section \<open>The threads that run\<close>

definition thread_view :: "'v dataplane \<Rightarrow> (string \<times> u32) list \<times> (string \<times> nat) list" where
  "thread_view s = (w_pumps (dp_world s), w_readers (dp_world s))"

lemma thread_world_inject [simp]: "w_pumps (world_inject h f w) = w_pumps w" "w_readers (world_inject h f w) = w_readers w"
  by (simp_all add: world_inject_def Let_def)

lemma thread_view_simps [simp]:
  "thread_view (s\<lparr>in_switch := sw\<rparr>) = thread_view s" "thread_view (s\<lparr>in_passts := m\<rparr>) = thread_view s"
  "thread_view (s\<lparr>dp_poisoned := b\<rparr>) = thread_view s" "thread_view (fst (inject_to s p f)) = thread_view s"
  "thread_view (passt_egress E s p f) = thread_view s"
  by (simp_all add: thread_view_def inject_to_def passt_egress_def Let_def split: option.split)

lemma thread_inject_all [simp]: "thread_view (fold (\<lambda>(peer, f) st. fst (inject_to st peer f)) targets s) = thread_view s"
  by (induction targets arbitrary: s) auto

lemma thread_pump_frame [simp]: "thread_view (pump_frame D N E s name me f) = thread_view s"
proof -
  have "thread_view (pump_switch s me f) = thread_view s"
    by (simp add: pump_switch_def case_prod_unfold Let_def thread_inject_all [unfolded case_prod_unfold])
  then show ?thesis by (simp add: pump_frame_def Let_def split: outcome.split option.split)
qed

lemma thread_spawn: "spawn_into E w sl = (w', sl', ok) \<Longrightarrow> w_pumps w' = w_pumps w \<and> w_readers w' = w_readers w"
  by (auto simp: spawn_into_def split: prod.splits sum.splits)

lemma thread_supervise [simp]: "thread_view (supervise_passt E s p) = thread_view s"
proof -
  have "detect_exit E w sl = (w', sl') \<Longrightarrow> w_pumps w' = w_pumps w \<and> w_readers w' = w_readers w" for w w' sl sl'
    by (auto simp: detect_exit_def split: option.splits if_splits)
  then show ?thesis
    by (auto simp: supervise_passt_def thread_view_def Let_def split: option.splits prod.splits if_splits dest!: thread_spawn)
qed

lemma thread_pump_turn [simp]: "thread_view (fst (pump_turn D N E name me ev s)) = thread_view s"
  by (auto simp: pump_turn_def Let_def split: prod.split delivery.split port_message.split)

lemma thread_ingress_frame: "thread_view (fst (ingress_frame s name h payload)) = thread_view s"
  by (simp add: ingress_frame_def Let_def thread_view_def split: option.split)

lemma thread_read_turn [simp]: "thread_view (fst (read_turn name h ev (s, pending))) = thread_view s"
  by (rule read_turn_keeps [where P = "\<lambda>t. thread_view t = thread_view s"]) (simp_all add: thread_ingress_frame)

section \<open>Loops are runs\<close>

lemma pump_loop_steps:
  assumes "(name, me) \<in> set (w_pumps (dp_world s))"
  shows "(dp_step J C E D N)\<^sup>*\<^sup>* s (fst (pump_loop D N E name me evs s))"
  using assms
proof (induction evs arbitrary: s)
  case (Cons ev evs)
  obtain s' go where t: "pump_turn D N E name me ev s = (s', go)" by (cases "pump_turn D N E name me ev s")
  have st: "dp_step J C E D N s s'" using dp_step.pump [OF Cons.prems, of J C E D N ev] t by simp
  have "thread_view s' = thread_view s" using thread_pump_turn [of D N E name me ev s] t by simp
  then have "(name, me) \<in> set (w_pumps (dp_world s'))" using Cons.prems by (simp add: thread_view_def)
  then have "(dp_step J C E D N)\<^sup>*\<^sup>* s' (fst (pump_loop D N E name me evs s'))" by (rule Cons.IH)
  then show ?case using st t by (cases go) (auto intro: converse_rtranclp_into_rtranclp)
qed simp

lemma read_loop_steps:
  assumes "(name, h) \<in> set (w_readers (dp_world s))"
  shows "(dp_step J C E D N)\<^sup>*\<^sup>* s (fst (read_passt_frames name h evs (s, pending)))
    \<and> thread_view (fst (read_passt_frames name h evs (s, pending))) = thread_view s"
  using assms
proof (induction evs arbitrary: s pending)
  case (Cons ev evs)
  obtain s' p' st where t: "read_turn name h ev (s, pending) = (s', p', st)" by (cases "read_turn name h ev (s, pending)")
  have d: "dp_step J C E D N s s'" using dp_step.ingress [OF Cons.prems, of J C E D N ev pending] t by simp
  have v: "thread_view s' = thread_view s" using thread_read_turn [of name h ev s pending] t by simp
  then have "(name, h) \<in> set (w_readers (dp_world s'))" using Cons.prems by (simp add: thread_view_def)
  from Cons.IH [OF this, of p'] show ?case using d v t
    by (cases st) (auto intro: converse_rtranclp_into_rtranclp)
qed simp

lemma reader_steps:
  assumes "(name, h) \<in> set (w_readers (dp_world s))"
  shows "(dp_step J C E D N)\<^sup>*\<^sup>* s (fst (passt_reader name h turns s))"
  using assms
proof (induction turns arbitrary: s)
  case (Cons turn turns)
  obtain ok evs where turn: "turn = (ok, evs)" by (cases turn)
  show ?case
  proof (cases "reader_poll s name ok")
    case (Adopt fd)
    obtain s' p' st where f: "read_passt_frames name h evs (s, []) = (s', p', st)" by (cases "read_passt_frames name h evs (s, [])")
    have r: "(dp_step J C E D N)\<^sup>*\<^sup>* s s'" "thread_view s' = thread_view s"
      using read_loop_steps [OF Cons.prems, of J C E D N evs "[]"] f by simp_all
    then have "(name, h) \<in> set (w_readers (dp_world s'))" using Cons.prems by (simp add: thread_view_def)
    from Cons.IH [OF this] r(1) show ?thesis
      using Adopt f turn by (cases st) (auto intro: rtranclp_trans)
  next
    case ReaderSleeps
    then show ?thesis using Cons turn by simp
  next
    case ReaderRetires
    then show ?thesis using dp_step.retire [OF Cons.prems ReaderRetires] turn by auto
  qed
qed simp

text \<open>So whatever holds of every reachable state holds after any activity of the threads.\<close>

lemma threads_keep_invariant:
  assumes "dp_inv s"
  shows "(name, me) \<in> set (w_pumps (dp_world s)) \<Longrightarrow> dp_inv (fst (pump_loop D N E name me evs s))"
    "(name, h) \<in> set (w_readers (dp_world s)) \<Longrightarrow> dp_inv (fst (passt_reader name h turns s))"
proof -
  have run: "dp_inv t" if "(dp_step J C E D N)\<^sup>*\<^sup>* s t" for J C E D N and t :: "'a dataplane"
    using that assms by (induction rule: rtranclp_induct) (auto intro: dp_step_inv)
  show "dp_inv (fst (pump_loop D N E name me evs s))" if "(name, me) \<in> set (w_pumps (dp_world s))"
    using run pump_loop_steps [OF that] by blast
  show "dp_inv (fst (passt_reader name h turns s))" if "(name, h) \<in> set (w_readers (dp_world s))"
    using run reader_steps [OF that] by blast
qed

end
