(* ===== verification/Daemon_Config.thy ===== *)
theory Daemon_Config
  imports Rust_Strings
begin

text \<open>
  The configuration of the daemon: \<open>crates/k8netd/src/config.rs\<close>, and the version stamp that
  \<open>crates/k8netd/build.rs\<close> bakes into the binary. Settings come from the command line, then the
  environment, then the defaults; the environment is a function, as in the code. A path is its
  text.
\<close>

section \<open>Configuration\<close>

record config =
  cfg_socket_dir :: string
  cfg_passt_binary :: string
  cfg_upstream_dns :: "ipv4 list"
  cfg_mtu :: u16
  cfg_port_forwards :: "u16 list"
  cfg_publish_range :: "u16 \<times> u16"

datatype config_error = InvalidValue string string | EmptyListEntry string

fun show_config_error :: "config_error \<Rightarrow> string" where
  "show_config_error (InvalidValue key v) = ''invalid value for '' @ key @ '': '' @ debug_str v"
| "show_config_error (EmptyListEntry key) = ''empty entry in '' @ key"

definition DEFAULT_SOCKET_DIR :: string where
  "DEFAULT_SOCKET_DIR = ''/run/user/1000/k8snet''"

definition DEFAULT_PASST_BINARY :: string where
  "DEFAULT_PASST_BINARY = ''passt''"

definition DEFAULT_UPSTREAM_DNS :: string where
  "DEFAULT_UPSTREAM_DNS = ''1.1.1.1,8.8.8.8''"

definition DEFAULT_MTU :: u16 where
  "DEFAULT_MTU = 1500"

definition CONFIG_PUBLISH_RANGE :: "u16 \<times> u16" where
  "CONFIG_PUBLISH_RANGE = (20000, 21000)"

record flags =
  fl_socket_dir :: "string option"
  fl_passt_binary :: "string option"
  fl_upstream_dns :: "string option"
  fl_mtu :: "u16 option"

definition flags_default :: flags where
  "flags_default = \<lparr>fl_socket_dir = None, fl_passt_binary = None, fl_upstream_dns = None, fl_mtu = None\<rparr>"

section \<open>Parsing values\<close>

text \<open>The loop over the pieces between commas.\<close>

fun parse_ip_parts :: "string \<Rightarrow> string \<Rightarrow> string list \<Rightarrow> (config_error, ipv4 list) result" where
  "parse_ip_parts key raw [] = Inr []"
| "parse_ip_parts key raw (part # parts) =
     (if trim part = [] then Inl (EmptyListEntry key)
      else (case parse_ip (trim part) of
              None \<Rightarrow> Inl (InvalidValue key raw)
            | Some ip \<Rightarrow>
                (case parse_ip_parts key raw parts of Inl e \<Rightarrow> Inl e | Inr ips \<Rightarrow> Inr (ip # ips))))"

definition parse_ip_list :: "string \<Rightarrow> string \<Rightarrow> (config_error, ipv4 list) result" where
  "parse_ip_list key raw = parse_ip_parts key raw (split_on (CHR '','') raw)"

definition parse_publish_range :: "string \<Rightarrow> (config_error, u16 \<times> u16) result" where
  "parse_publish_range raw =
     (let invalid = InvalidValue ''K8NETD_PUBLISH_RANGE'' raw in
      case split_once (CHR ''-'') raw of
        None \<Rightarrow> Inl invalid
      | Some (start_raw, end_raw) \<Rightarrow>
          (case parse_u16 start_raw of None \<Rightarrow> Inl invalid | Some start \<Rightarrow>
          (case parse_u16 end_raw of None \<Rightarrow> Inl invalid | Some fin \<Rightarrow>
             if fin < start then Inl invalid else Inr (start, fin))))"

text \<open>\<open>a.or_else(|| b).unwrap_or_else(|| d)\<close>.\<close>

definition first_of :: "'a option \<Rightarrow> 'a option \<Rightarrow> 'a \<Rightarrow> 'a" where
  "first_of a b d = (case a of Some x \<Rightarrow> x | None \<Rightarrow> (case b of Some x \<Rightarrow> x | None \<Rightarrow> d))"

definition resolve_mtu :: "flags \<Rightarrow> (string \<Rightarrow> string option) \<Rightarrow> (config_error, u16) result" where
  "resolve_mtu flg getenv =
     (case fl_mtu flg of
        Some m \<Rightarrow> Inr m
      | None \<Rightarrow>
          (case getenv ''K8NETD_MTU'' of
             Some raw \<Rightarrow> ok_or (InvalidValue ''K8NETD_MTU'' raw) (parse_u16 raw)
           | None \<Rightarrow> Inr DEFAULT_MTU))"

definition config_resolve :: "flags \<Rightarrow> (string \<Rightarrow> string option) \<Rightarrow> (config_error, config) result" where
  "config_resolve flg getenv =
     (let socket_dir = first_of (fl_socket_dir flg) (getenv ''K8NETD_SOCKET_DIR'') DEFAULT_SOCKET_DIR;
          passt_binary = first_of (fl_passt_binary flg) (getenv ''K8NETD_PASST_BINARY'') DEFAULT_PASST_BINARY;
          dns_raw = first_of (fl_upstream_dns flg) (getenv ''K8NETD_UPSTREAM_DNS'') DEFAULT_UPSTREAM_DNS
      in case parse_ip_list ''K8NETD_UPSTREAM_DNS'' dns_raw of Inl e \<Rightarrow> Inl e | Inr upstream_dns \<Rightarrow>
        (case resolve_mtu flg getenv of Inl e \<Rightarrow> Inl e | Inr mtu \<Rightarrow>
        (case (case getenv ''K8NETD_PUBLISH_RANGE'' of
                 Some raw \<Rightarrow> parse_publish_range raw | None \<Rightarrow> Inr CONFIG_PUBLISH_RANGE) of
           Inl e \<Rightarrow> Inl e
         | Inr publish_range \<Rightarrow>
             Inr \<lparr>cfg_socket_dir = socket_dir, cfg_passt_binary = passt_binary, cfg_upstream_dns = upstream_dns,
                  cfg_mtu = mtu, cfg_port_forwards = [], cfg_publish_range = publish_range\<rparr>)))"

definition wants_version :: "string list \<Rightarrow> bool" where
  "wants_version args = list_ex (\<lambda>a. a = ''--version'' \<or> a = ''-V'') args"

section \<open>The command line\<close>

text \<open>A flag takes the next argument; unknown flags and a missing value are errors.\<close>

fun parse_flags_from :: "flags \<Rightarrow> string list \<Rightarrow> (config_error, flags) result" where
  "parse_flags_from f [] = Inr f"
| "parse_flags_from f [arg] =
     (if arg = ''--socket-dir'' \<or> arg = ''--passt-binary'' \<or> arg = ''--upstream-dns'' \<or> arg = ''--mtu''
      then Inl (InvalidValue arg ''<missing>'') else Inl (InvalidValue ''--flags'' arg))"
| "parse_flags_from f (arg # v # args) =
     (if arg = ''--socket-dir'' then parse_flags_from (f\<lparr>fl_socket_dir := Some v\<rparr>) args
      else if arg = ''--passt-binary'' then parse_flags_from (f\<lparr>fl_passt_binary := Some v\<rparr>) args
      else if arg = ''--upstream-dns'' then parse_flags_from (f\<lparr>fl_upstream_dns := Some v\<rparr>) args
      else if arg = ''--mtu''
      then (case parse_u16 v of
              Some m \<Rightarrow> parse_flags_from (f\<lparr>fl_mtu := Some m\<rparr>) args
            | None \<Rightarrow> Inl (InvalidValue ''--mtu'' v))
      else Inl (InvalidValue ''--flags'' arg))"

definition parse_flags :: "string list \<Rightarrow> (config_error, flags) result" where
  "parse_flags args = parse_flags_from flags_default args"

section \<open>The version stamp\<close>

definition normalize_version :: "string \<Rightarrow> string" where
  "normalize_version raw =
     (case raw of
        c # d # rest \<Rightarrow> if c = CHR ''v'' \<and> 48 \<le> byte_of d \<and> byte_of d \<le> 57 then d # rest else raw
      | _ \<Rightarrow> raw)"

text \<open>An unset or empty variable counts as absent.\<close>

definition env_nonempty :: "(string \<Rightarrow> string option) \<Rightarrow> string \<Rightarrow> string option" where
  "env_nonempty getenv key = Option.bind (getenv key) (\<lambda>v. if v = [] then None else Some v)"

definition build_version :: "(string \<Rightarrow> string option) \<Rightarrow> string" where
  "build_version getenv =
     (case map_option normalize_version (env_nonempty getenv ''K8NETD_VERSION'') of
        Some v \<Rightarrow> v
      | None \<Rightarrow> (case getenv ''CARGO_PKG_VERSION'' of Some v \<Rightarrow> v | None \<Rightarrow> []))"

definition build_revision :: "(string \<Rightarrow> string option) \<Rightarrow> string" where
  "build_revision getenv =
     (case env_nonempty getenv ''K8NETD_REVISION'' of Some v \<Rightarrow> v | None \<Rightarrow> ''unknown'')"

definition build_main :: "(string \<Rightarrow> string option) \<Rightarrow> string list" where
  "build_main getenv =
     [''cargo:rerun-if-env-changed=K8NETD_VERSION'', ''cargo:rerun-if-env-changed=K8NETD_REVISION'',
      ''cargo:rustc-env=K8NETD_VERSION='' @ build_version getenv,
      ''cargo:rustc-env=K8NETD_REVISION='' @ build_revision getenv]"

section \<open>Printing and parsing\<close>

lemma parse_u16_show [simp]: "parse_u16 (show_nat (unat (w :: u16))) = Some w"
proof -
  have "unat w \<le> 65535" using unsigned_less [of w, where 'a = nat] by simp
  then have "digits_from 10 65535 0 (show_nat (unat w)) = Some (unat w)" by (rule digits_from_show)
  moreover have "CHR ''+'' \<notin> set (show_nat (unat w))" by (simp add: show_nat_not_sep byte_of_def)
  ultimately have "parse_uint 10 65535 (show_nat (unat w)) = Some (unat w)"
    using show_nat_hd [of "unat w"] by (cases "show_nat (unat w)") (auto simp: parse_uint_def)
  then show ?thesis by (simp add: parse_u16_def)
qed

text \<open>Text of digits and dots has no white space at either end.\<close>

lemma trim_start_plain: "s \<noteq> [] \<Longrightarrow> byte_of (hd s) < 128 \<Longrightarrow> \<not> ascii_white (byte_of (hd s)) \<Longrightarrow> trim_start s = s"
  by (induction s rule: trim_start.induct) (auto simp: white2_def white3_def)

lemma trim_rev_plain:
  "s \<noteq> [] \<Longrightarrow> byte_of (hd s) < 128 \<Longrightarrow> \<not> ascii_white (byte_of (hd s)) \<Longrightarrow> trim_rev s = s"
  by (induction s rule: trim_rev.induct) (auto simp: white2_def white3_def)

lemma trim_plain:
  assumes "s \<noteq> []" "\<forall>c \<in> set s. byte_of c < 128 \<and> \<not> ascii_white (byte_of c)"
  shows "trim s = s"
proof -
  have "trim_start s = s" using assms by (intro trim_start_plain) auto
  moreover have "trim_rev (rev s) = rev s"
    using assms by (intro trim_rev_plain) (auto simp: hd_rev)
  ultimately show ?thesis by (simp add: trim_def trim_end_def)
qed

lemma show_nat_plain: "c \<in> set (show_nat n) \<Longrightarrow> 48 \<le> byte_of c \<and> byte_of c \<le> 57"
  using show_nat_not_sep [of c n] by force

lemma show_ip_plain:
  assumes "c \<in> set (show_ip ip)" shows "c = CHR ''.'' \<or> 48 \<le> byte_of c \<and> byte_of c \<le> 57"
  using assms show_nat_plain [of c] by (auto simp: show_ip_def show_octet_def)

lemma show_ip_facts: "trim (show_ip ip) = show_ip ip" "CHR '','' \<notin> set (show_ip ip)" "show_ip ip \<noteq> []"
proof -
  have "byte_of c < 128 \<and> \<not> ascii_white (byte_of c)" if "c \<in> set (show_ip ip)" for c
    using show_ip_plain [OF that] by (auto simp: ascii_white_def byte_of_def)
  then show "trim (show_ip ip) = show_ip ip" by (intro trim_plain) (auto simp: show_ip_def)
  show "CHR '','' \<notin> set (show_ip ip)" using show_ip_plain [of "CHR '',''" ip] by (auto simp: byte_of_def)
  show "show_ip ip \<noteq> []" by (simp add: show_ip_def)
qed

lemma split_on_join:
  "ips \<noteq> [] \<Longrightarrow> split_on (CHR '','') (join_with '','' (map show_ip ips)) = map show_ip ips"
  by (induction ips rule: induct_list012) (simp_all add: split_on_no_sep split_on_append show_ip_facts)

lemma parse_ip_parts_show: "parse_ip_parts key raw (map show_ip ips) = Inr ips"
  by (induction ips) (simp_all add: show_ip_facts)

lemma parse_publish_range_iff:
  "parse_publish_range raw = Inr (a, b) \<longleftrightarrow>
     (\<exists>ta tb. raw = ta @ ''-'' @ tb \<and> CHR ''-'' \<notin> set ta \<and> parse_u16 ta = Some a \<and> parse_u16 tb = Some b \<and> a \<le> b)"
proof
  assume "parse_publish_range raw = Inr (a, b)"
  then obtain ta tb where "split_once (CHR ''-'') raw = Some (ta, tb)" "parse_u16 ta = Some a" "parse_u16 tb = Some b" "a \<le> b"
    by (auto simp: parse_publish_range_def Let_def not_less split: option.splits prod.splits if_splits)
  then show "\<exists>ta tb. raw = ta @ ''-'' @ tb \<and> CHR ''-'' \<notin> set ta \<and> parse_u16 ta = Some a \<and> parse_u16 tb = Some b \<and> a \<le> b"
    using split_once_Some by fastforce
next
  assume "\<exists>ta tb. raw = ta @ ''-'' @ tb \<and> CHR ''-'' \<notin> set ta \<and> parse_u16 ta = Some a \<and> parse_u16 tb = Some b \<and> a \<le> b"
  then show "parse_publish_range raw = Inr (a, b)"
    by (auto simp: parse_publish_range_def Let_def not_less split_once_append)
qed

lemma parse_ip_parts_iff:
  "parse_ip_parts key raw parts = Inr ips \<longleftrightarrow> map (\<lambda>part. parse_ip (trim part)) parts = map Some ips"
proof (induction parts arbitrary: ips)
  case Nil
  then show ?case by auto
next
  case (Cons part parts)
  have "parse_ip [] = None" by (simp add: parse_ip_def parse_octet_def)
  then show ?case using Cons.IH [of "tl ips"] by (cases ips) (auto split: option.splits sum.splits)
qed

text \<open>
  the value syntax. A printed range parses to its bounds exactly when they are in order and is
  rejected otherwise, and a printed list of resolvers parses to that list.
\<close>

lemma config_text_roundtrip:
  "parse_publish_range (show_nat (unat a) @ ''-'' @ show_nat (unat b)) =
     (if a \<le> b then Inr (a, b)
      else Inl (InvalidValue ''K8NETD_PUBLISH_RANGE'' (show_nat (unat a) @ ''-'' @ show_nat (unat b))))
   \<and> parse_ip_list key (join_with '','' (map show_ip (ip # ips))) = Inr (ip # ips)"
proof -
  have "CHR ''-'' \<notin> set (show_nat (unat a))" by (simp add: show_nat_not_sep byte_of_def)
  then have "split_once (CHR ''-'') (show_nat (unat a) @ ''-'' @ show_nat (unat b)) = Some (show_nat (unat a), show_nat (unat b))"
    by (simp add: split_once_append)
  moreover have "parse_ip_list key (join_with '','' (map show_ip (ip # ips))) = Inr (ip # ips)"
    unfolding parse_ip_list_def split_on_join [OF list.distinct(2)] by (rule parse_ip_parts_show)
  ultimately show ?thesis by (auto simp: parse_publish_range_def Let_def)
qed

section \<open>The command line as a list of settings\<close>

text \<open>The flags and values of a command line, in order.\<close>

definition spell :: "(string \<times> string) list \<Rightarrow> string list" where
  "spell kvs = concat (map (\<lambda>(k, v). [k, v]) kvs)"

definition settings_ok :: "(string \<times> string) list \<Rightarrow> bool" where
  "settings_ok kvs =
     (\<forall>(k, v) \<in> set kvs. k = ''--socket-dir'' \<or> k = ''--passt-binary'' \<or> k = ''--upstream-dns''
        \<or> k = ''--mtu'' \<and> parse_u16 v \<noteq> None)"

text \<open>The flags when each setting in turn overrides the earlier ones.\<close>

definition set_flag :: "string \<times> string \<Rightarrow> flags \<Rightarrow> flags" where
  "set_flag kv f =
     (case kv of (k, v) \<Rightarrow>
        if k = ''--socket-dir'' then f\<lparr>fl_socket_dir := Some v\<rparr>
        else if k = ''--passt-binary'' then f\<lparr>fl_passt_binary := Some v\<rparr>
        else if k = ''--upstream-dns'' then f\<lparr>fl_upstream_dns := Some v\<rparr>
        else f\<lparr>fl_mtu := parse_u16 v\<rparr>)"

lemma parse_spelled: "settings_ok kvs \<Longrightarrow> parse_flags_from f (spell kvs) = Inr (fold set_flag kvs f)"
proof (induction kvs arbitrary: f)
  case Nil
  then show ?case by (simp add: spell_def)
next
  case (Cons kv kvs)
  then have "settings_ok kvs" by (simp add: settings_ok_def)
  note IH = Cons.IH [OF this]
  show ?case using Cons.prems IH by (cases kv) (auto simp: spell_def settings_ok_def set_flag_def)
qed

lemma parsed_spelled: "parse_flags_from f args = Inr g \<Longrightarrow> \<exists>kvs. args = spell kvs \<and> settings_ok kvs"
proof (induction f args rule: parse_flags_from.induct)
  case (1 f)
  show ?case by (intro exI [of _ "[]"]) (simp add: spell_def settings_ok_def)
next
  case (2 f arg)
  then show ?case by (simp split: if_splits)
next
  case (3 f arg v args)
  then obtain kvs where "args = spell kvs" "settings_ok kvs" "settings_ok [(arg, v)]"
    by (auto simp: settings_ok_def split: if_splits option.splits)
  then show ?case by (intro exI [of _ "(arg, v) # kvs"]) (simp add: spell_def settings_ok_def)
qed

text \<open>The last occurrence of a flag counts.\<close>

lemma set_flags_fields:
  assumes "settings_ok kvs"
  shows "fl_socket_dir (fold set_flag kvs flags_default) = map_of (rev kvs) ''--socket-dir''"
    "fl_passt_binary (fold set_flag kvs flags_default) = map_of (rev kvs) ''--passt-binary''"
    "fl_upstream_dns (fold set_flag kvs flags_default) = map_of (rev kvs) ''--upstream-dns''"
    "fl_mtu (fold set_flag kvs flags_default) = Option.bind (map_of (rev kvs) ''--mtu'') parse_u16"
  using assms by (induction kvs rule: rev_induct) (auto simp: flags_default_def set_flag_def settings_ok_def)

lemma mtu_parses: "settings_ok kvs \<Longrightarrow> map_of (rev kvs) ''--mtu'' = Some v \<Longrightarrow> parse_u16 v \<noteq> None"
  by (auto simp: settings_ok_def dest!: map_of_SomeD)

text \<open>The first of the given sources.\<close>

lemma first_of_hd: "first_of a b d = hd (List.map_filter (\<lambda>x. x) [a, b, Some d])"
  by (simp add: first_of_def List.map_filter_def split: option.split)

lemma resolve_mtu_iff:
  assumes "settings_ok kvs" "fl_mtu flg = Option.bind (map_of (rev kvs) ''--mtu'') parse_u16"
  shows "resolve_mtu flg getenv = Inr m \<longleftrightarrow>
    parse_u16 (hd (List.map_filter (\<lambda>x. x) [map_of (rev kvs) ''--mtu'', getenv ''K8NETD_MTU'', Some ''1500''])) = Some m"
proof -
  have "show_nat (unat (1500 :: u16)) = ''1500''" by code_simp
  then have d: "parse_u16 ''1500'' = Some 1500" using parse_u16_show [of 1500] by simp
  show ?thesis
  proof (cases "map_of (rev kvs) ''--mtu''")
    case None
    then show ?thesis using assms(2) d
      by (auto simp: resolve_mtu_def List.map_filter_def DEFAULT_MTU_def ok_or_def split: option.splits)
  next
    case (Some v)
    then show ?thesis using assms(2) mtu_parses [OF assms(1) Some]
      by (auto simp: resolve_mtu_def List.map_filter_def)
  qed
qed

text \<open>
  C40: where each setting comes from. Parsing a command line and resolving the configuration succeeds
  with a configuration exactly when the command line is a sequence of the four known flags, each
  followed by its value and every MTU value a 16-bit number, and the configuration is this: the
  socket directory, the passt binary, the resolvers and the MTU are each taken from the last
  occurrence of the flag, else from the environment variable, else from the default
  (/run/user/1000/k8snet, passt, 1.1.1.1,8.8.8.8 and 1500); the resolvers are the addresses between
  the commas of the text, each trimmed; the publish range is 20000 to 21000 without
  K8NETD_PUBLISH_RANGE and otherwise the two numbers around its first dash, in order; and the retired
  static forwards are empty.
\<close>

theorem config_precedence:
  "(case parse_flags args of Inl e \<Rightarrow> Inl e | Inr f \<Rightarrow> config_resolve f getenv) = Inr c \<longleftrightarrow>
    (\<exists>kvs. args = concat (map (\<lambda>(k, v). [k, v]) kvs)
      \<and> (\<forall>(k, v) \<in> set kvs. k = ''--socket-dir'' \<or> k = ''--passt-binary'' \<or> k = ''--upstream-dns''
           \<or> k = ''--mtu'' \<and> parse_u16 v \<noteq> None)
      \<and> cfg_socket_dir c = hd (List.map_filter (\<lambda>x. x)
           [map_of (rev kvs) ''--socket-dir'', getenv ''K8NETD_SOCKET_DIR'', Some ''/run/user/1000/k8snet''])
      \<and> cfg_passt_binary c = hd (List.map_filter (\<lambda>x. x)
           [map_of (rev kvs) ''--passt-binary'', getenv ''K8NETD_PASST_BINARY'', Some ''passt''])
      \<and> map Some (cfg_upstream_dns c) = map (\<lambda>part. parse_ip (trim part)) (split_on (CHR '','') (hd (List.map_filter (\<lambda>x. x)
           [map_of (rev kvs) ''--upstream-dns'', getenv ''K8NETD_UPSTREAM_DNS'', Some ''1.1.1.1,8.8.8.8''])))
      \<and> parse_u16 (hd (List.map_filter (\<lambda>x. x)
           [map_of (rev kvs) ''--mtu'', getenv ''K8NETD_MTU'', Some ''1500''])) = Some (cfg_mtu c)
      \<and> cfg_port_forwards c = []
      \<and> (case getenv ''K8NETD_PUBLISH_RANGE'' of
           None \<Rightarrow> cfg_publish_range c = (20000, 21000)
         | Some raw \<Rightarrow> \<exists>ta tb. raw = ta @ ''-'' @ tb \<and> CHR ''-'' \<notin> set ta
             \<and> parse_u16 ta = Some (fst (cfg_publish_range c)) \<and> parse_u16 tb = Some (snd (cfg_publish_range c))
             \<and> fst (cfg_publish_range c) \<le> snd (cfg_publish_range c)))"
  (is "?lhs \<longleftrightarrow> (\<exists>kvs. ?rhs kvs)")
proof -
  let ?range = "case getenv ''K8NETD_PUBLISH_RANGE'' of Some raw \<Rightarrow> parse_publish_range raw | None \<Rightarrow> Inr CONFIG_PUBLISH_RANGE"
  have res: "config_resolve flg getenv = Inr c \<longleftrightarrow>
      cfg_socket_dir c = first_of (fl_socket_dir flg) (getenv ''K8NETD_SOCKET_DIR'') DEFAULT_SOCKET_DIR
      \<and> cfg_passt_binary c = first_of (fl_passt_binary flg) (getenv ''K8NETD_PASST_BINARY'') DEFAULT_PASST_BINARY
      \<and> parse_ip_list ''K8NETD_UPSTREAM_DNS'' (first_of (fl_upstream_dns flg) (getenv ''K8NETD_UPSTREAM_DNS'') DEFAULT_UPSTREAM_DNS)
          = Inr (cfg_upstream_dns c)
      \<and> resolve_mtu flg getenv = Inr (cfg_mtu c) \<and> cfg_port_forwards c = [] \<and> ?range = Inr (cfg_publish_range c)" for flg
    unfolding config_resolve_def Let_def by (cases c) (auto split: sum.splits)
  have rng: "?range = Inr (cfg_publish_range c) \<longleftrightarrow> (case getenv ''K8NETD_PUBLISH_RANGE'' of
           None \<Rightarrow> cfg_publish_range c = (20000, 21000)
         | Some raw \<Rightarrow> \<exists>ta tb. raw = ta @ ''-'' @ tb \<and> CHR ''-'' \<notin> set ta
             \<and> parse_u16 ta = Some (fst (cfg_publish_range c)) \<and> parse_u16 tb = Some (snd (cfg_publish_range c))
             \<and> fst (cfg_publish_range c) \<le> snd (cfg_publish_range c))"
    using parse_publish_range_iff [of _ "fst (cfg_publish_range c)" "snd (cfg_publish_range c)"]
    by (auto simp: CONFIG_PUBLISH_RANGE_def split: option.split)
  have one: "config_resolve (fold set_flag kvs flags_default) getenv = Inr c \<longleftrightarrow> ?rhs kvs"
    if "args = spell kvs" "settings_ok kvs" for kvs
    unfolding res rng resolve_mtu_iff [OF that(2) set_flags_fields(4) [OF that(2)]] set_flags_fields(1-3) [OF that(2)]
      first_of_hd parse_ip_list_def parse_ip_parts_iff DEFAULT_SOCKET_DIR_def DEFAULT_PASST_BINARY_def DEFAULT_UPSTREAM_DNS_def
    using that unfolding spell_def settings_ok_def by auto
  show ?thesis
  proof
    assume ?lhs
    then obtain g where g: "parse_flags_from flags_default args = Inr g" "config_resolve g getenv = Inr c"
      by (auto simp: parse_flags_def split: sum.splits)
    obtain kvs where k: "args = spell kvs" "settings_ok kvs" using parsed_spelled [OF g(1)] by blast
    then have "g = fold set_flag kvs flags_default" using parse_spelled [OF k(2), of flags_default] g(1) by simp
    then show "\<exists>kvs. ?rhs kvs" using one [OF k] g(2) by blast
  next
    assume "\<exists>kvs. ?rhs kvs"
    then obtain kvs where r: "?rhs kvs" by blast
    then have k: "args = spell kvs" "settings_ok kvs" unfolding spell_def settings_ok_def by blast+
    then show ?lhs using one [OF k] r parse_spelled [OF k(2), of flags_default] by (simp add: parse_flags_def)
  qed
qed

theorem config_precedence_witness:
  "\<exists>c. (case parse_flags [''--mtu'', ''68'', ''--mtu'', ''90''] of Inl e \<Rightarrow> Inl e
      | Inr f \<Rightarrow> config_resolve f [''K8NETD_MTU'' \<mapsto> ''77'', ''K8NETD_UPSTREAM_DNS'' \<mapsto> ''9.9.9.9'',
           ''K8NETD_PUBLISH_RANGE'' \<mapsto> ''5-7'']) = Inr c
    \<and> cfg_mtu c = 90 \<and> cfg_publish_range c = (5, 7) \<and> cfg_upstream_dns c = [0x09090909]"
proof -
  let ?env = "[''K8NETD_MTU'' \<mapsto> ''77'', ''K8NETD_UPSTREAM_DNS'' \<mapsto> ''9.9.9.9'', ''K8NETD_PUBLISH_RANGE'' \<mapsto> ''5-7'']"
  let ?c = "\<lparr>cfg_socket_dir = ''/run/user/1000/k8snet'', cfg_passt_binary = ''passt'', cfg_upstream_dns = [0x09090909],
    cfg_mtu = 90, cfg_port_forwards = [], cfg_publish_range = (5, 7)\<rparr>"
  have ips: "show_ip 0x09090909 = ''9.9.9.9''" by code_simp
  have "show_nat (unat (68 :: u16)) = ''68''" by code_simp
  then have n1: "parse_u16 ''68'' = Some 68" using parse_u16_show [of 68] by simp
  have "show_nat (unat (90 :: u16)) = ''90''" by code_simp
  then have n2: "parse_u16 ''90'' = Some 90" using parse_u16_show [of 90] by simp
  have "show_nat (unat (5 :: u16)) = ''5''" by code_simp
  then have n3: "parse_u16 ''5'' = Some 5" using parse_u16_show [of 5] by simp
  have "show_nat (unat (7 :: u16)) = ''7''" by code_simp
  then have n4: "parse_u16 ''7'' = Some 7" using parse_u16_show [of 7] by simp
  note n = n1 n2 n3 n4
  have r: "\<exists>ta tb. ''5-7'' = ta @ ''-'' @ tb \<and> CHR ''-'' \<notin> set ta \<and> parse_u16 ta = Some 5 \<and> parse_u16 tb = Some 7"
    by (rule exI [of _ "''5''"], rule exI [of _ "''7''"]) (simp add: n)
  have ip9: "parse_ip (trim ''9.9.9.9'') = Some 0x09090909"
    using show_ip_facts(1) [of "0x09090909"] parse_ip_show [of "0x09090909"] unfolding ips by simp
  have ip: "map (\<lambda>part. parse_ip (trim part)) (split_on (CHR '','') ''9.9.9.9'') = [Some 0x09090909]"
    using show_ip_facts(2) [of "0x09090909"] ip9 unfolding ips by (simp add: split_on_no_sep)
  have "(case parse_flags [''--mtu'', ''68'', ''--mtu'', ''90''] of Inl e \<Rightarrow> Inl e | Inr f \<Rightarrow> config_resolve f ?env) = Inr ?c"
    unfolding config_precedence
    by (rule exI [of _ "[(''--mtu'', ''68''), (''--mtu'', ''90'')]"], intro conjI)
      (use r in \<open>simp_all add: List.map_filter_def n ip ip9\<close>)
  then show ?thesis by (intro exI [of _ ?c]) simp
qed

end
