(* ===== verification/Daemon_Main.thy ===== *)
theory Daemon_Main
  imports Dataplane_Demo Daemon_Config
begin

text \<open>
  The entry point, \<open>crates/k8netd/src/main.rs\<close>: version banner, command line and configuration,
  warnings, the dataplane restored from disk and wired to the configured resolvers, and the control
  socket served with it. Logging is kept where it reports something (the two warnings); the
  subscriber is left out.
\<close>

section \<open>The ephemeral-range warning\<close>

text \<open>Bytes of the white-space character a text starts with, zero if it starts with another.\<close>

definition lead_white :: "string \<Rightarrow> nat" where
  "lead_white s =
     (case s of
        [] \<Rightarrow> 0
      | a # t \<Rightarrow>
          if ascii_white (byte_of a) then 1
          else (case t of
                  [] \<Rightarrow> 0
                | b # u \<Rightarrow>
                    if white2 (byte_of a) (byte_of b) then 2
                    else (case u of
                            [] \<Rightarrow> 0
                          | c # _ \<Rightarrow> if white3 (byte_of a) (byte_of b) (byte_of c) then 3 else 0)))"

text \<open>\<open>split_whitespace\<close>, with the word read so far.\<close>

function split_white :: "string \<Rightarrow> string \<Rightarrow> string list" where
  "split_white cur [] = (if cur = [] then [] else [cur])"
| "split_white cur (a # s) =
     (if lead_white (a # s) = 0 then split_white (cur @ [a]) s
      else (if cur = [] then [] else [cur]) @ split_white [] (drop (lead_white (a # s)) (a # s)))"
  by pat_completeness auto
termination
  by (relation "measure (\<lambda>(cur, s). length s)") auto

definition parse_port_range :: "string \<Rightarrow> (u16 \<times> u16) option" where
  "parse_port_range raw =
     (case split_white [] raw of
        a # b # _ \<Rightarrow>
          (case parse_u16 a of None \<Rightarrow> None | Some start \<Rightarrow>
          (case parse_u16 b of None \<Rightarrow> None | Some fin \<Rightarrow> Some (start, fin)))
      | _ \<Rightarrow> None)"

text \<open>The ranges it warns about; the argument is the text of the kernel's setting, if readable.\<close>

definition warn_publish_range_overlaps_ephemeral ::
  "string option \<Rightarrow> u16 \<times> u16 \<Rightarrow> ((u16 \<times> u16) \<times> (u16 \<times> u16)) option" where
  "warn_publish_range_overlaps_ephemeral proc_file publish =
     (let ephemeral = (case Option.bind proc_file parse_port_range of Some r \<Rightarrow> r | None \<Rightarrow> (32768, 60999)) in
      if fst publish \<le> snd ephemeral \<and> fst ephemeral \<le> snd publish then Some (publish, ephemeral) else None)"

section \<open>Starting the daemon\<close>

text \<open>
  What the process finds: its arguments, the environment variables that are text and those that
  are set at all, the kernel's port range, the answers of the resolver sockets and of the control
  socket's directory and bind, and the connections.
\<close>

record daemon_env =
  de_args :: "string list"
  de_getenv :: "string \<Rightarrow> string option"
  de_is_set :: "string \<Rightarrow> bool"
  de_proc_range :: "string option"
  de_udp :: "ipv4 \<Rightarrow> udp_calls"
  de_mkdir :: "string \<Rightarrow> (string, unit) result"
  de_bind :: "string \<Rightarrow> (string, unit) result"
  de_incoming :: "(string, connection) result list"

text \<open>What a run leaves: its output, warnings, exit code, and the control socket's answers.\<close>

record 'v daemon_run =
  dr_stdout :: string
  dr_stderr :: string
  dr_legacy :: "string list"
  dr_overlap :: "((u16 \<times> u16) \<times> (u16 \<times> u16)) option"
  dr_exit :: nat
  dr_state :: "'v dataplane option"
  dr_answers :: "string option list"

definition daemon_idle :: "'v daemon_run" where
  "daemon_idle =
     \<lparr>dr_stdout = [], dr_stderr = [], dr_legacy = [], dr_overlap = None, dr_exit = 0, dr_state = None, dr_answers = []\<rparr>"

text \<open>
  The dataplane restored from disk, with the configured resolvers in order. Setting them panics on
  a poisoned mutex only, which a new dataplane does not have.
\<close>

definition daemon_boot ::
  "'v json_api \<Rightarrow> 'v snap_codec \<Rightarrow> dp_os \<Rightarrow> (ipv4 \<Rightarrow> udp_calls) \<Rightarrow> config \<Rightarrow> world \<Rightarrow> (string, 'v dataplane) result" where
  "daemon_boot J C E udp cfg w =
     (case snd (dp_try_new J C E (cfg_socket_dir cfg) w) of
        Inl e \<Rightarrow> Inl e
      | Inr dp \<Rightarrow>
          (case dp_set_dns_upstreams dp (map (\<lambda>ip. udp_send (udp ip) (udp_upstream_new ip)) (cfg_upstream_dns cfg)) of
             Panicked \<Rightarrow> Inl ''dataplane mutex poisoned''
           | Done dp' \<Rightarrow> Inr dp'))"

definition legacy_warnings :: "(string \<Rightarrow> bool) \<Rightarrow> string list" where
  "legacy_warnings is_set = filter is_set [''K8NETD_PORT_FORWARDS'', ''K8NETD_PASST_FORWARDS'']"

text \<open>Serving: the state and answers so far, and exit code 1 when the server fails.\<close>

definition daemon_serve ::
  "'v json_api \<Rightarrow> 'v snap_codec \<Rightarrow> dp_os \<Rightarrow> (string \<Rightarrow> 'v raw_request option) \<Rightarrow> daemon_env \<Rightarrow> config \<Rightarrow>
     'v dataplane \<Rightarrow> 'v daemon_run \<Rightarrow> 'v daemon_run" where
  "daemon_serve J C E raw_of_text D cfg dp run =
     (let sock = path_join (cfg_socket_dir cfg) ''control.sock'' in
      case serve J raw_of_text (dp_control_plane J C E) (de_mkdir D sock) (de_bind D sock) (de_incoming D) dp of
        (dp', answers, r) \<Rightarrow>
          run\<lparr>dr_state := Some dp', dr_answers := answers, dr_exit := (case r of Inl _ \<Rightarrow> 1 | Inr _ \<Rightarrow> 0)\<rparr>)"

definition daemon_main ::
  "'v json_api \<Rightarrow> 'v snap_codec \<Rightarrow> dp_os \<Rightarrow> (string \<Rightarrow> 'v raw_request option) \<Rightarrow> string \<Rightarrow> string \<Rightarrow> daemon_env \<Rightarrow> world \<Rightarrow>
     'v daemon_run" where
  "daemon_main J C E raw_of_text version revision D w =
     (if wants_version (de_args D)
      then daemon_idle\<lparr>dr_stdout := ''k8netd '' @ version @ '' ('' @ revision @ '')'' @ [CHR 0x0A]\<rparr>
      else (case parse_flags (de_args D) of
              Inl e \<Rightarrow> daemon_idle\<lparr>dr_stderr := ''k8netd: '' @ show_config_error e @ [CHR 0x0A], dr_exit := 2\<rparr>
            | Inr flg \<Rightarrow>
                (case config_resolve flg (de_getenv D) of
                   Inl e \<Rightarrow> daemon_idle\<lparr>dr_stderr := ''k8netd: '' @ show_config_error e @ [CHR 0x0A], dr_exit := 2\<rparr>
                 | Inr cfg \<Rightarrow>
                     let run = daemon_idle\<lparr>dr_legacy := legacy_warnings (de_is_set D),
                           dr_overlap := warn_publish_range_overlaps_ephemeral (de_proc_range D) (cfg_publish_range cfg)\<rparr>
                     in case daemon_boot J C E (de_udp D) cfg w of
                          Inl e \<Rightarrow> run\<lparr>dr_exit := 1\<rparr>
                        | Inr dp \<Rightarrow> daemon_serve J C E raw_of_text D cfg dp run)))"

section \<open>The daemon as a whole\<close>

lemma serve_inv_dataplane:
  "dp_inv s \<Longrightarrow> dp_inv (fst (serve J raw (dp_control_plane J C E) mk bd incoming s))"
  using dpl.serve_inv [of s J raw] by (auto simp: serve_def split: sum.split)

lemma dp_inv_dns: "dp_inv (s\<lparr>in_dns := d\<rparr>) = dp_inv s"
  by (simp add: dp_inv_def)

lemma daemon_boot_parts:
  assumes "daemon_boot J C E udp cfg w = Inr dp"
  obtains store w' where "snd (load_from_disk J C (os_save E (w_tick w)) (cfg_socket_dir cfg) (w_fs w)) = Inr store"
    "dp = (dp_from_parts (cfg_socket_dir cfg) (st_publish_table store) w')
       \<lparr>in_dns := dns_forwarder_new (map (\<lambda>ip. udp_send (udp ip) (udp_upstream_new ip)) (cfg_upstream_dns cfg))\<rparr>"
  using assms
  by (auto simp: daemon_boot_def dp_try_new_def dp_set_dns_upstreams_def Let_def dp_from_parts_def
      split: prod.splits sum.splits outcome.splits if_splits)

lemma daemon_main_state:
  assumes "dr_state (daemon_main J C E raw ver revn D w) = Some s"
  obtains flg cfg dp where "\<not> wants_version (de_args D)" "parse_flags (de_args D) = Inr flg"
    "config_resolve flg (de_getenv D) = Inr cfg" "daemon_boot J C E (de_udp D) cfg w = Inr dp"
    "s = fst (serve J raw (dp_control_plane J C E) (de_mkdir D (path_join (cfg_socket_dir cfg) ''control.sock''))
           (de_bind D (path_join (cfg_socket_dir cfg) ''control.sock'')) (de_incoming D) dp)"
  using assms
  by (auto simp: daemon_main_def daemon_idle_def daemon_serve_def Let_def split: if_splits sum.splits prod.splits)

text \<open>
  C30: the running daemon. Whatever its arguments, environment and connections, if the daemon gets
  to serve then its configuration was valid, and the dataplane it serves keeps its invariant to the
  end, provided the restored publish table has unique host ports.
\<close>

theorem daemon_run_sound:
  assumes "dr_state (daemon_main J C E raw ver revn D w) = Some s"
    and "\<And>dir store. snd (load_from_disk J C (os_save E (w_tick w)) dir (w_fs w)) = Inr store \<Longrightarrow>
      table_ok (st_publish_table store)"
  shows "dp_inv s \<and> (\<exists>flg cfg. parse_flags (de_args D) = Inr flg \<and> config_resolve flg (de_getenv D) = Inr cfg)"
proof -
  obtain flg cfg dp where d: "parse_flags (de_args D) = Inr flg" "config_resolve flg (de_getenv D) = Inr cfg"
      "daemon_boot J C E (de_udp D) cfg w = Inr dp"
      "s = fst (serve J raw (dp_control_plane J C E) (de_mkdir D (path_join (cfg_socket_dir cfg) ''control.sock''))
             (de_bind D (path_join (cfg_socket_dir cfg) ''control.sock'')) (de_incoming D) dp)"
    using daemon_main_state [OF assms(1)] by metis
  obtain store w' where b: "snd (load_from_disk J C (os_save E (w_tick w)) (cfg_socket_dir cfg) (w_fs w)) = Inr store"
      "dp = (dp_from_parts (cfg_socket_dir cfg) (st_publish_table store) w')
         \<lparr>in_dns := dns_forwarder_new (map (\<lambda>ip. udp_send (de_udp D ip) (udp_upstream_new ip)) (cfg_upstream_dns cfg))\<rparr>"
    by (rule daemon_boot_parts [OF d(3)])
  have "dp_inv dp" unfolding b(2) dp_inv_dns by (rule dp_from_parts_inv [OF assms(2) [OF b(1)]])
  then have "dp_inv s" unfolding d(4) by (rule serve_inv_dataplane)
  with d show ?thesis by blast
qed

text \<open>
  C15: the configured publish range does not reach the allocator, nor do the MTU and the WAN
  binary: the dataplane that the daemon starts is the same whatever they are, and its range is the
  built-in default.
\<close>

theorem publish_range_not_wired:
  "daemon_boot J C E udp (cfg\<lparr>cfg_publish_range := r, cfg_mtu := m, cfg_passt_binary := b\<rparr>) w = daemon_boot J C E udp cfg w
   \<and> (\<forall>dp. daemon_boot J C E udp cfg w = Inr dp \<longrightarrow> in_publish_range dp = (20000, 21000))"
proof -
  have "in_publish_range dp = (20000, 21000)" if "daemon_boot J C E udp cfg w = Inr dp" for dp
    by (rule daemon_boot_parts [OF that]) (simp add: dp_from_parts_def DEFAULT_PUBLISH_RANGE_def)
  moreover have "cfg_upstream_dns (cfg\<lparr>cfg_publish_range := r, cfg_mtu := m, cfg_passt_binary := b\<rparr>) = cfg_upstream_dns cfg"
    "cfg_socket_dir (cfg\<lparr>cfg_publish_range := r, cfg_mtu := m, cfg_passt_binary := b\<rparr>) = cfg_socket_dir cfg"
    by simp_all
  ultimately show ?thesis by (simp only: daemon_boot_def) blast
qed

text \<open>A first start with no arguments: no state file, every call succeeds, nobody connects.\<close>

definition demo_env :: daemon_env where
  "demo_env =
     \<lparr>de_args = [], de_getenv = (\<lambda>_. None), de_is_set = (\<lambda>_. False), de_proc_range = None,
      de_udp = (\<lambda>_. \<lparr>udp_bind = Inr (), udp_connect = (\<lambda>_. Inr ()), udp_set_timeout = (\<lambda>_. Inr ()),
                     udp_transmit = (\<lambda>_. Inr ()), udp_recv = (\<lambda>_. Inr [])\<rparr>),
      de_mkdir = (\<lambda>_. Inr ()), de_bind = (\<lambda>_. Inr ()), de_incoming = []\<rparr>"

lemma demo_env_config:
  "parse_flags (de_args demo_env) = Inr flags_default" "\<exists>cfg. config_resolve flags_default (de_getenv demo_env) = Inr cfg"
proof -
  show "parse_flags (de_args demo_env) = Inr flags_default" by (simp add: demo_env_def parse_flags_def)
  have "join_with '','' (map show_ip [0x01010101, 0x08080808]) = DEFAULT_UPSTREAM_DNS" by code_simp
  then have "parse_ip_list ''K8NETD_UPSTREAM_DNS'' DEFAULT_UPSTREAM_DNS = Inr [0x01010101, 0x08080808]"
    using split_on_join [of "[0x01010101, 0x08080808]"] by (simp add: parse_ip_list_def show_ip_facts)
  then show "\<exists>cfg. config_resolve flags_default (de_getenv demo_env) = Inr cfg"
    by (simp add: config_resolve_def demo_env_def first_of_def resolve_mtu_def flags_default_def Let_def)
qed

lemma demo_load: "snd (load_from_disk J C io dir (w_fs demo_world)) = Inr store_default"
  by (simp add: load_from_disk_def demo_world_def)

lemma demo_boot: "\<exists>dp. daemon_boot J C E udp cfg demo_world = Inr dp"
  using demo_load [of J C "os_save E (w_tick demo_world)" "cfg_socket_dir cfg"]
  by (auto simp: daemon_boot_def dp_try_new_def dp_set_dns_upstreams_def Let_def dp_from_parts_def split: prod.split)

theorem daemon_run_sound_witness:
  "\<exists>s. dr_state (daemon_main tree_json tree_codec demo_os (\<lambda>_. None) ''1'' ''r'' demo_env demo_world) = Some s \<and> dp_inv s"
proof -
  obtain cfg where c: "config_resolve flags_default (de_getenv demo_env) = Inr cfg" using demo_env_config(2) by blast
  obtain dp where d: "daemon_boot tree_json tree_codec demo_os (de_udp demo_env) cfg demo_world = Inr dp"
    using demo_boot by blast
  have w: "\<not> wants_version (de_args demo_env)" by (simp add: demo_env_def wants_version_def)
  obtain s where s: "dr_state (daemon_main tree_json tree_codec demo_os (\<lambda>_. None) ''1'' ''r'' demo_env demo_world) = Some s"
    using c d w demo_env_config(1) by (simp add: daemon_main_def daemon_serve_def Let_def case_prod_unfold)
  have "table_ok (st_publish_table (store_default :: tree_value state_store))"
    by (simp add: store_default_def table_ok_def pt_inj_def)
  with daemon_run_sound [OF s] s show ?thesis by (simp add: demo_load)
qed

theorem publish_range_not_wired_witness:
  "\<exists>dp. daemon_boot tree_json tree_codec demo_os (de_udp demo_env)
        \<lparr>cfg_socket_dir = ''/run'', cfg_passt_binary = ''passt'', cfg_upstream_dns = [], cfg_mtu = 1500,
         cfg_port_forwards = [], cfg_publish_range = (30000, 30001)\<rparr> demo_world = Inr dp
      \<and> in_publish_range dp = (20000, 21000)"
  (is "\<exists>dp. daemon_boot _ _ _ _ ?cfg _ = _ \<and> _")
proof -
  obtain dp where "daemon_boot tree_json tree_codec demo_os (de_udp demo_env) ?cfg demo_world = Inr dp"
    using demo_boot by blast
  moreover from this have "in_publish_range dp = (20000, 21000)"
    using publish_range_not_wired [where J = tree_json and C = tree_codec and E = demo_os and udp = "de_udp demo_env"
        and cfg = ?cfg and w = demo_world] by blast
  ultimately show ?thesis by blast
qed

end
