(* ===== verification/Fake_Frontend.thy ===== *)
theory Fake_Frontend
  imports Vhost_Port
begin

text \<open>
  The vhost-user client of \<open>crates/k8netd-vhost/src/fake_frontend.rs\<close>, which the crate ships for
  integration tests: the layout of the shared memory and the handshake for both rings. The client
  library is a parameter: what it answers to each request, in the order they are sent; the
  handshake stops at the first failure. A file or event descriptor is its number.
\<close>

section \<open>Layout of the shared memory\<close>

definition GUEST_BASE :: u64 where
  "GUEST_BASE = 0x10000000"

definition REGION_SIZE :: u64 where
  "REGION_SIZE = 0x100000"

definition VRING_STRIDE :: u64 where
  "VRING_STRIDE = 0x40000"

definition DESC_TABLE_OFFSET :: u64 where
  "DESC_TABLE_OFFSET = 0"

definition USED_RING_OFFSET :: u64 where
  "USED_RING_OFFSET = 0x10000"

definition AVAIL_RING_OFFSET :: u64 where
  "AVAIL_RING_OFFSET = 0x20000"

definition DATA_OFFSET :: u64 where
  "DATA_OFFSET = 0x80000"

definition FE_QUEUE_SIZE :: u16 where
  "FE_QUEUE_SIZE = 256"

definition FE_VERSION_1 :: u64 where
  "FE_VERSION_1 = push_bit 32 1"

section \<open>The handshake\<close>

record memory_region =
  mr_guest_phys_addr :: u64
  mr_memory_size :: u64
  mr_userspace_addr :: u64
  mr_mmap_offset :: u64
  mr_mmap_handle :: int

record vring_config =
  vc_queue_max_size :: u16
  vc_queue_size :: u16
  vc_flags :: u32
  vc_desc_table_addr :: u64
  vc_used_ring_addr :: u64
  vc_avail_ring_addr :: u64
  vc_log_addr :: "u64 option"

datatype fe_request =
    SetHdrNeedReply | SetOwner | GetFeatures | SetFeatures u64 | GetProtocolFeatures | SetProtocolFeatures u64
  | SetMemTable "memory_region list"
  | SetVringNum nat u16 | SetVringAddr nat vring_config | SetVringKick nat int | SetVringCall nat int
  | SetVringEnable nat bool

text \<open>
  What the socket, the client library, the memory crate and the kernel answer: \<open>fe_reply\<close> gives the
  value of the reply, of interest for the two requests that read features.
\<close>

record fe_env =
  fe_connects :: "(string, unit) result"
  fe_reply :: "fe_request \<Rightarrow> (string, u64) result"
  fe_memfd :: int
  fe_last_os_error :: string
  fe_set_len :: "int \<Rightarrow> u64 \<Rightarrow> (string, unit) result"
  fe_map :: "u64 \<Rightarrow> u64 \<Rightarrow> int \<Rightarrow> (string, unit) result"
  fe_host_address :: "u64 \<Rightarrow> (string, u64) result"
  fe_backing :: "int option"
  fe_eventfd :: "nat \<Rightarrow> (string, int) result"

record fake_frontend =
  ff_kick :: "int list"
  ff_call :: "int list"
  ff_features :: u64
  ff_protocol_features :: u64

text \<open>One request: it is sent, and its failure ends the handshake.\<close>

definition fe_send :: "fe_env \<Rightarrow> fe_request \<Rightarrow> fe_request list \<Rightarrow> fe_request list \<times> (string, u64) result" where
  "fe_send E req sent = (sent @ [req], fe_reply E req)"

fun fe_send_all :: "fe_env \<Rightarrow> fe_request list \<Rightarrow> fe_request list \<Rightarrow> fe_request list \<times> (string, unit) result" where
  "fe_send_all E [] sent = (sent, Inr ())"
| "fe_send_all E (req # reqs) sent = and_then (fe_send E req sent) (\<lambda>sent' _. fe_send_all E reqs sent')"

text \<open>The memory file, sized and mapped at the guest base; a negative descriptor is the system's error.\<close>

definition create_memfd_region :: "fe_env \<Rightarrow> (string, int) result" where
  "create_memfd_region E = (if fe_memfd E < 0 then Inl (fe_last_os_error E) else Inr (fe_memfd E))"

definition build_guest_memory :: "fe_env \<Rightarrow> (string, unit) result" where
  "build_guest_memory E =
     (case create_memfd_region E of Inl e \<Rightarrow> Inl e | Inr fd \<Rightarrow>
     (case fe_set_len E fd REGION_SIZE of Inl e \<Rightarrow> Inl e | Inr _ \<Rightarrow> fe_map E GUEST_BASE REGION_SIZE fd))"

text \<open>The requests for one ring, whose area starts at a stride from the mapping.\<close>

definition vring_requests :: "u64 \<Rightarrow> nat \<Rightarrow> int \<Rightarrow> int \<Rightarrow> fe_request list" where
  "vring_requests userspace_addr i k c =
     (let area = userspace_addr + of_nat i * VRING_STRIDE in
      [SetVringNum i FE_QUEUE_SIZE,
       SetVringAddr i \<lparr>vc_queue_max_size = FE_QUEUE_SIZE, vc_queue_size = FE_QUEUE_SIZE, vc_flags = 0,
         vc_desc_table_addr = area + DESC_TABLE_OFFSET, vc_used_ring_addr = area + USED_RING_OFFSET,
         vc_avail_ring_addr = area + AVAIL_RING_OFFSET, vc_log_addr = None\<rparr>,
       SetVringKick i k, SetVringCall i c, SetVringEnable i True])"

fun four_eventfds :: "fe_env \<Rightarrow> nat \<Rightarrow> nat \<Rightarrow> (string, int list) result" where
  "four_eventfds E n 0 = Inr []"
| "four_eventfds E n (Suc k) =
     (case fe_eventfd E n of Inl e \<Rightarrow> Inl e | Inr fd \<Rightarrow>
     (case four_eventfds E (Suc n) k of Inl e \<Rightarrow> Inl e | Inr fds \<Rightarrow> Inr (fd # fds)))"

definition ff_connect :: "fe_env \<Rightarrow> fe_request list \<times> (string, fake_frontend) result" where
  "ff_connect E =
     try_in [] (fe_connects E) (\<lambda>_.
     and_then (fe_send E SetOwner [SetHdrNeedReply]) (\<lambda>sent _.
     and_then (fe_send E GetFeatures sent) (\<lambda>sent backend_features.
     let features = backend_features OR FE_VERSION_1 in
     and_then (fe_send E (SetFeatures features) sent) (\<lambda>sent _.
     and_then (fe_send E GetProtocolFeatures sent) (\<lambda>sent advertised.
     and_then (fe_send E (SetProtocolFeatures advertised) sent) (\<lambda>sent _.
     try_in sent (build_guest_memory E) (\<lambda>_.
     try_in sent (fe_host_address E GUEST_BASE) (\<lambda>userspace_addr.
     try_in sent (ok_or ''memory region has no backing file'' (fe_backing E)) (\<lambda>mmap_handle.
     and_then (fe_send E (SetMemTable [\<lparr>mr_guest_phys_addr = GUEST_BASE, mr_memory_size = REGION_SIZE,
         mr_userspace_addr = userspace_addr, mr_mmap_offset = 0, mr_mmap_handle = mmap_handle\<rparr>]) sent) (\<lambda>sent _.
     try_in sent (four_eventfds E 0 4) (\<lambda>fds.
     let kick = take 2 fds; call = drop 2 fds in
     and_then (fe_send_all E (concat (map (\<lambda>i. vring_requests userspace_addr i (kick ! i) (call ! i)) [0, 1])) sent) (\<lambda>sent _.
       (sent, Inr \<lparr>ff_kick = kick, ff_call = call, ff_features = features, ff_protocol_features = advertised\<rparr>)))))))))))))"

text \<open>The accessors; an index beyond the two rings panics.\<close>

definition kick_fd :: "fake_frontend \<Rightarrow> nat \<Rightarrow> int outcome" where
  "kick_fd f i = (if i < length (ff_kick f) then Done (ff_kick f ! i) else Panicked)"

definition call_fd :: "fake_frontend \<Rightarrow> nat \<Rightarrow> int outcome" where
  "call_fd f i = (if i < length (ff_call f) then Done (ff_call f ! i) else Panicked)"

section \<open>Facts\<close>

text \<open>
  The three parts of a ring of the negotiated size, each at its offset: descriptors of 16 bytes, a
  used ring of 8-byte elements and an available ring of 2-byte entries, both with their headers.
\<close>

definition vring_parts :: "nat \<Rightarrow> (nat \<times> nat) list" where
  "vring_parts i =
     (let area = i * unat VRING_STRIDE; n = unat FE_QUEUE_SIZE in
      [(area + unat DESC_TABLE_OFFSET, 16 * n), (area + unat USED_RING_OFFSET, 6 + 8 * n),
       (area + unat AVAIL_RING_OFFSET, 6 + 2 * n)])"

definition apart :: "nat \<times> nat \<Rightarrow> nat \<times> nat \<Rightarrow> bool" where
  "apart a b = (fst a + snd a \<le> fst b \<or> fst b + snd b \<le> fst a)"

fun all_apart :: "(nat \<times> nat) list \<Rightarrow> bool" where
  "all_apart [] = True"
| "all_apart (x # xs) = (list_all (apart x) xs \<and> all_apart xs)"

lemma frontend_layout:
  "all_apart (vring_parts 0 @ vring_parts 1 @ [(unat DATA_OFFSET, unat REGION_SIZE - unat DATA_OFFSET)])"
  "list_all (\<lambda>p. fst p + snd p \<le> unat REGION_SIZE) (vring_parts 0 @ vring_parts 1)"
  by (simp_all add: vring_parts_def apart_def VRING_STRIDE_def DESC_TABLE_OFFSET_def USED_RING_OFFSET_def
      AVAIL_RING_OFFSET_def DATA_OFFSET_def REGION_SIZE_def FE_QUEUE_SIZE_def Let_def)

lemma fe_send_all_Inr: "fe_send_all E reqs sent = (sent', Inr ()) \<Longrightarrow> sent' = sent @ reqs"
proof (induction reqs arbitrary: sent)
  case (Cons req reqs)
  then obtain y where "fe_send_all E reqs (sent @ [req]) = (sent', Inr ())" "fe_reply E req = Inr y"
    unfolding fe_send_all.simps and_then_Inr fe_send_def by auto
  then show ?case using Cons.IH [of "sent @ [req]"] by simp
qed simp

lemma four_eventfds_length: "four_eventfds E n k = Inr fds \<Longrightarrow> length fds = k"
  by (induction E n k arbitrary: fds rule: four_eventfds.induct) (auto split: sum.splits)

text \<open>
  A completed handshake has negotiated version 1, whatever the backend offered, mapped the region
  before any ring, and configured and enabled both rings the backend serves, receive first, on
  descriptors of their own.
\<close>

lemma ff_connect_complete:
  assumes "ff_connect E = (sent, Inr f)"
  shows "ff_features f AND FE_VERSION_1 = FE_VERSION_1 \<and> length (ff_kick f) = vhost_num_queues \<and> length (ff_call f) = vhost_num_queues
    \<and> (\<exists>ua h. sent = [SetHdrNeedReply, SetOwner, GetFeatures, SetFeatures (ff_features f), GetProtocolFeatures,
           SetProtocolFeatures (ff_protocol_features f),
           SetMemTable [\<lparr>mr_guest_phys_addr = GUEST_BASE, mr_memory_size = REGION_SIZE, mr_userspace_addr = ua,
             mr_mmap_offset = 0, mr_mmap_handle = h\<rparr>]]
         @ vring_requests ua RX_VRING (ff_kick f ! 0) (ff_call f ! 0) @ vring_requests ua TX_VRING (ff_kick f ! 1) (ff_call f ! 1))"
proof -
  obtain bf pf ua h fds where c: "four_eventfds E 0 4 = Inr fds"
      "fe_send_all E (concat (map (\<lambda>i. vring_requests ua i (take 2 fds ! i) (drop 2 fds ! i)) [0, 1]))
         [SetHdrNeedReply, SetOwner, GetFeatures, SetFeatures (bf OR FE_VERSION_1), GetProtocolFeatures, SetProtocolFeatures pf,
          SetMemTable [\<lparr>mr_guest_phys_addr = GUEST_BASE, mr_memory_size = REGION_SIZE, mr_userspace_addr = ua,
             mr_mmap_offset = 0, mr_mmap_handle = h\<rparr>]] = (sent, Inr ())"
      "f = \<lparr>ff_kick = take 2 fds, ff_call = drop 2 fds, ff_features = bf OR FE_VERSION_1, ff_protocol_features = pf\<rparr>"
    using assms unfolding ff_connect_def fe_send_def Let_def try_in_Inr and_then_Inr by auto
  have l: "length fds = 4" using four_eventfds_length [OF c(1)] .
  have "sent = [SetHdrNeedReply, SetOwner, GetFeatures, SetFeatures (bf OR FE_VERSION_1), GetProtocolFeatures,
          SetProtocolFeatures pf,
          SetMemTable [\<lparr>mr_guest_phys_addr = GUEST_BASE, mr_memory_size = REGION_SIZE, mr_userspace_addr = ua,
             mr_mmap_offset = 0, mr_mmap_handle = h\<rparr>]]
      @ vring_requests ua RX_VRING (ff_kick f ! 0) (ff_call f ! 0) @ vring_requests ua TX_VRING (ff_kick f ! 1) (ff_call f ! 1)"
    using fe_send_all_Inr [OF c(2)] c(3) by (simp add: RX_VRING_def TX_VRING_def)
  moreover have "(bf OR FE_VERSION_1) AND FE_VERSION_1 = FE_VERSION_1" by (rule bit_word_eqI) (auto simp: bit_simps)
  moreover have "length (ff_kick f) = vhost_num_queues" "length (ff_call f) = vhost_num_queues"
    using l c(3) by (simp_all add: vhost_num_queues_def NUM_QUEUES_def)
  ultimately show ?thesis using c(3) by auto
qed

text \<open>
  Against the port of \<open>Vhost_Port\<close>, which offers version 1 itself, the client acknowledges exactly
  what was offered, and it sets up only rings the port has, within the size the port admits.
\<close>

definition ring_admitted :: "fe_request \<Rightarrow> bool" where
  "ring_admitted r = (case r of SetVringNum i n \<Rightarrow> i < vhost_num_queues \<and> unat n \<le> vhost_max_queue_size | _ \<Rightarrow> True)"

lemma ff_connect_features:
  assumes "ff_connect E = (sent, Inr f)" "fe_reply E GetFeatures = Inr bf"
  shows "ff_features f = bf OR FE_VERSION_1"
  using assms unfolding ff_connect_def fe_send_def Let_def try_in_Inr and_then_Inr by auto

lemma ff_connect_meets_port:
  assumes "ff_connect E = (sent, Inr f)" "fe_reply E GetFeatures = Inr vhost_features"
  shows "ff_features f = vhost_features" "list_all ring_admitted sent"
proof -
  have "vhost_features OR FE_VERSION_1 = vhost_features"
    by (simp add: vhost_features_def VIRTIO_F_VERSION_1_def FE_VERSION_1_def ac_simps)
  then show "ff_features f = vhost_features" using ff_connect_features [OF assms] by simp
  show "list_all ring_admitted sent" using ff_connect_complete [OF assms(1)]
    by (auto simp: ring_admitted_def vring_requests_def vhost_num_queues_def NUM_QUEUES_def RX_VRING_def TX_VRING_def
        vhost_max_queue_size_def QUEUE_SIZE_def FE_QUEUE_SIZE_def Let_def)
qed

end
