(* ===== verification/Spec2Isabelle.thy ===== *)
theory Spec2Isabelle
  imports Dataplane_Frames Dataplane_Errors Dataplane_Threads Daemon_Main Fake_Frontend
begin

text \<open>
  A verification development of \<open>k8netd\<close>, a rootless layer-2 switch daemon for virtual machines.
  The daemon serves one vhost-user socket per VM port, switches Ethernet frames between the ports of
  a network, answers ARP, ping, DHCP and DNS on behalf of the network's gateway, gives each attached
  port a WAN uplink through a \<open>passt\<close> subprocess, and is driven by JSON-RPC over a Unix socket.

  \<^bold>\<open>Parts and theories.\<close> Paths are below \<open>src/crates\<close>; a theory imports the ones it calls.

  \<^item> \<open>Prelude\<close>, \<open>Rust_Strings\<close>: the standard library as the crates use it. \<open>HashMap\<close> is an
    association list in unspecified order, \<open>BTreeMap\<close> a strictly sorted one (both interpret the
    locale \<open>rust_map\<close>); \<open>Result\<close> is a sum with \<open>Inl\<close> the error, the \<open>?\<close> operator on a state is
    \<open>try_in\<close> and \<open>and_then\<close>; code that can panic has an \<open>outcome\<close>; a \<open>str\<close> is its UTF-8 bytes.
  \<^item> \<open>Net_Model\<close> (\<open>k8netd-core/src/model.rs\<close>), \<open>Ipam_Alloc\<close> (\<open>ipam.rs\<close>), \<open>State_Store\<close>
    (\<open>state.rs\<close>): networks, addresses, the publish table, reservations, and the state file. The two
    allocators interpret one contract, \<open>lowest_free_allocator\<close>; saving is both an executable
    function and a step relation \<open>save_step\<close> that may stop anywhere.
  \<^item> \<open>Frame_Parse\<close>, \<open>Mac_Table\<close>, \<open>Switch_Engine\<close>, \<open>Gateway_Fn\<close> (\<open>k8netd-core/src/switch\<close>): the
    parser, the bounded learning table (locale \<open>learning_table\<close>, which the switch's lemmas rest
    on), forwarding, and the ARP responder with the WAN classifier.
  \<^item> \<open>Dhcp_Server\<close>, \<open>Dns_Forwarder\<close>, \<open>Passt_Wan\<close> (\<open>k8netd-svc/src\<close>): the two services and the WAN
    subprocess with its length-prefixed stream (locale \<open>framed_stream\<close>).
  \<^item> \<open>Json_Value\<close>, \<open>Rpc_Protocol\<close>, \<open>Rpc_Server\<close> (\<open>k8netd-rpc/src\<close>): values, envelopes, the trait of
    the twelve operations as the record \<open>control_plane\<close>, the router, the in-memory control plane and
    the transport. \<open>control_plane_impl\<close> is the contract between router and implementation.
  \<^item> \<open>Vhost_Port\<close>, \<open>Fake_Frontend\<close> (\<open>k8netd-vhost/src\<close>): the vhost-user backend with both ring
    services and its recovery after a reconnect, and the client used by integration tests, whose
    memory layout is disjoint and whose handshake negotiates what the port offers.
  \<^item> \<open>Dp_Frames\<close>, \<open>Dataplane\<close>, \<open>Dataplane_Pump\<close> (\<open>k8netd/src/dataplane.rs\<close>): frame helpers, the
    state under the mutex with the twelve operations, and the threads (pump, ingress reader,
    supervision).
  \<^item> \<open>Daemon_Config\<close> (\<open>k8netd/src/config.rs\<close>, \<open>build.rs\<close>), \<open>Daemon_Main\<close> (\<open>main.rs\<close>).

  \<^bold>\<open>State and concurrency.\<close> The record \<open>inner\<close> is what the mutex of \<open>Dataplane\<close> guards, field for
  field; \<open>dataplane\<close> extends it with the poison flag and the world the daemon acts on: files, open
  descriptors, bytes sent to WAN processes, vhost ports as a store of objects shared by reference,
  and the threads with what they captured. An operation holds the lock from start to end, so the
  threads interleave at the granularity of locked sections: \<open>dp_step\<close> is one request, one pumped
  frame or supervision tick, one WAN chunk or one retired reader, and a run any sequence of them.
  A panic under the lock poisons it, and every later lock fails.

  \<^bold>\<open>Lemmas.\<close>

  \<^item> \<open>Dataplane_Inv\<close> and \<open>Dataplane_Topo\<close> prove the invariants \<open>dp_inv\<close> and \<open>topo_ok\<close> for every
    operation and step, whatever the operating system answers.
    \<open>Dataplane_Demo\<close> is a concrete run on which the theorems are applied.
  \<^item> \<open>Control_Spec\<close> states what a control plane promises apart from how it is built: an abstract
    state, commands, their effect and answers. \<open>control_plane_spec\<close> relates an implementation to it
    by an abstraction function; the in-memory plane and, in \<open>Dataplane_Spec\<close>, the dataplane are its
    instances, so the dataplane refines the specification and the two implementations agree on
    every run that both acknowledge. The specification speaks of acknowledged requests: the two
    implementations differ in what they refuse (system calls can fail only in one), and the
    reservations are left out of the abstract state because \<open>detach_port\<close> releases them in one
    implementation only. Their contract is that of \<open>Ipam_Alloc\<close>.
  \<^item> \<open>Dataplane_Frames\<close>: isolation of networks, the answers of the gateway, the DHCP service, and
    the frame that poisons the lock. \<open>Dataplane_Lifecycle\<close>: durability (\<open>describes\<close> says entry by entry
    what the state file has to hold), restart, attaching,
    deleting, supervision. The last section below follows a frame from the transmit ring of
    one guest to the receive ring of another.
  \<^item> \<open>Dataplane_Errors\<close>: what a refused request leaves behind. A refusal other than an internal error
    changes nothing, provided the client was orderly (\<open>orderly\<close>: no network deleted under an attached
    port, no attached reservation released by hand, no MAC attached twice); an internal error leaves
    the change in memory, and repeating the request does not repair it. Ports for which an earlier run
    left published entries are excepted while they are unattached (\<open>unpublish_safe\<close>). \<open>Dataplane_Threads\<close>: the loops
    of the pump and reader threads are runs of \<open>dp_step\<close>.
  \<^item> The component theories show their component's contract: LRU refinement of the learning table,
    allocation contracts, round trips of addresses, snapshots, frames and streams, crash safety of
    the save when the process stops (not on a loss of power: syncing has no effect in the model),
    exact answers of DHCP, DNS, ARP and ICMP with verifying checksums, exact ring
    services, termination of the WAN process's shutdown, precedence of settings.

  \<^bold>\<open>Parameters.\<close> Third-party and generated code is an argument of the definitions that call it: the
  JSON crate (\<open>json_api\<close>, laws \<open>json_ok\<close>), the derived serializers (\<open>snap_codec\<close>, laws
  \<open>snap_codec_ok\<close>; \<open>raw_of_text\<close>), the DHCP and DNS codecs, the queue and guest-memory crates
  (\<open>virtq_api\<close>, laws \<open>queue_laws\<close>, \<open>used_laws\<close> and \<open>buffer_laws\<close>), the vhost-user client library (\<open>fe_env\<close>), and the
  operating system (\<open>dp_os\<close> and the answer records of \<open>Passt_Wan\<close> and \<open>Daemon_Main\<close>). Every set of
  laws has an instance in the development (\<open>tree_json\<close>, \<open>tree_codec\<close>, \<open>ring_api\<close>, \<open>demo_dhcp\<close>), on which the witnesses evaluate.

  \<^bold>\<open>Bounds.\<close> Machine integers keep their width and wrap as in the release profile. The topology
  invariant holds for the first \<open>2 ^ 32 - 1\<close> ports created, since the port counter wraps after that;
  the learning table is an LRU cache for fewer than \<open>2 ^ 64\<close> observations, since its clock wraps.
  The shutdown loop of the WAN process runs on fuel, with a proved bound on the turns it
  needs when the clock advances; the ring services recurse over the posted chains.

  \<^bold>\<open>Not modelled.\<close> The log subscriber and the log lines that only report; the re-exporting
  \<open>lib.rs\<close> and \<open>mod.rs\<close> files; test modules; the lab scripts, packaging and documents; the internals
  of the parameters above; interleavings below the granularity of locked sections; the escaping of
  non-printable Unicode by \<open>Debug\<close> formatting in error texts; the references and cloned descriptors
  that a panicking reader thread drops.
\<close>

section \<open>From one guest to another\<close>

text \<open>
  A transmit ring on which the driver has posted one chain with the given content, and a receive
  ring on which it has posted the chains \<open>cs\<close>.
\<close>

definition tx_ready ::
  "('m, 'q, 'c) virtq_api \<Rightarrow> ('m, 'q, 'c) guest_view \<Rightarrow> 'm \<Rightarrow> 'q vring \<Rightarrow> 'c \<Rightarrow> bytes \<Rightarrow> bool" where
  "tx_ready V G m vr c raw =
     (queue_laws V G \<and> used_laws V G {c} \<and> gv_intact G m \<and> vq_iter V m (vr_queue vr) = Some [c]
      \<and> head_flags V m (vq_desc_table V (vr_queue vr)) (ch_head V c) AND VIRTQ_DESC_F_WRITE = 0
      \<and> ch_read V m c = Inr raw)"

definition rx_ready ::
  "('m, 'q, 'c) virtq_api \<Rightarrow> ('m, 'q, 'c) guest_view \<Rightarrow> 'm \<Rightarrow> 'q vring \<Rightarrow> 'c list \<Rightarrow> bool" where
  "rx_ready V G m vr cs =
     (queue_laws V G \<and> used_laws V G (set cs) \<and> buffer_laws V G (vq_desc_table V (vr_queue vr)) (set cs)
      \<and> gv_intact G m \<and> vq_iter V m (rx_recover V m (vr_queue vr)) = Some cs \<and> distinct cs)"

lemma tx_ready_publishes:
  assumes "tx_ready V G m vr c (encode_driver_tx frame)" "nb_tx_open b"
  shows "\<exists>m' vr' r. service_tx V b m vr = (b\<lparr>nb_tx := nb_tx b @ [FromVm frame]\<rparr>, m', vr', r)"
proof -
  let ?dt = "vq_desc_table V (vr_queue vr)" and ?raw = "\<lambda>_. encode_driver_tx frame"
  have laws: "queue_laws V G" "used_laws V G (set [c])" "gv_intact G m" "vq_iter V m (vr_queue vr) = Some [c]"
    and h: "head_flags V m ?dt (ch_head V c) AND VIRTQ_DESC_F_WRITE = 0" "ch_read V m c = Inr (encode_driver_tx frame)"
    using assms(1) by (simp_all add: tx_ready_def)
  have raw: "\<forall>d \<in> set [c]. head_flags V m ?dt (ch_head V d) AND VIRTQ_DESC_F_WRITE = 0 \<longrightarrow> ch_read V m d = Inr (?raw d)"
    using h(2) by simp
  have "map (\<lambda>d. FromVm (drop 12 (?raw d))) (filter (tx_carries V m ?dt ?raw) [c]) = [FromVm frame]"
    using h(1) by (simp add: tx_carries_def encode_driver_tx_def vnet_header_def VNET_HDR_LEN_def)
  with service_tx_posted [OF laws refl raw assms(2)] show ?thesis by (simp only:) blast
qed

lemma rx_ready_delivers:
  assumes "rx_ready V G m vr cs" "nb_rx b = map ToVm (pending @ [frame])" "length pending < length cs"
    and "length frame + 12 \<le> gv_capacity G (cs ! length pending)"
  shows "\<exists>m' vr' r. service_rx V b m vr = (b\<lparr>nb_rx := []\<rparr>, m', vr', r)
    \<and> decode_driver_rx (take (length frame + 12) (gv_buffer G m' (cs ! length pending))) = Some frame"
proof -
  have laws: "queue_laws V G" "used_laws V G (set cs)" "buffer_laws V G (vq_desc_table V (vr_queue vr)) (set cs)"
    "gv_intact G m" "vq_iter V m (rx_recover V m (vr_queue vr)) = Some cs" "distinct cs"
    using assms(1) by (simp_all add: rx_ready_def)
  obtain m' vr' r where s: "service_rx V b m vr = (b\<lparr>nb_rx := map ToVm (drop (length cs) (pending @ [frame]))\<rparr>, m', vr', r)"
      "\<forall>cf \<in> set (zip cs (pending @ [frame])). gv_buffer G m' (fst cf) = rx_content G m cf"
    using service_rx_posted [OF laws assms(2)] by blast
  have "(cs ! length pending, frame) \<in> set (zip cs (pending @ [frame]))"
    using assms(3) by (auto simp: in_set_zip intro!: exI [of _ "length pending"])
  then have "gv_buffer G m' (cs ! length pending) = rx_buffer frame (gv_buffer G m (cs ! length pending))"
    using s(2) assms(4) by (force simp: rx_content_def)
  then show ?thesis using s(1) assms(3) by (simp add: decode_rx_buffer)
qed

text \<open>
  C4: the path of a frame. Take any state that the daemon, started with any restored publish table
  whose host ports are unique, reaches in fewer than 2^32 - 1 steps without a panic under the lock.
  A well-formed broadcast or multicast frame whose ethertype is neither ARP nor IPv4 (those may be
  answered by the gateway services instead) and that is not addressed to the learned WAN MAC of the
  sender's uplink, which an attached guest puts on its transmit ring behind a virtio-net header, is
  published by its port without the header (while the pump listens), forwarded by the pump to every other port of the same network, and
  written by that port's receive service, after the frames already waiting there, into the next
  buffer its guest has posted, when one is posted with room for it; the driver reads back exactly the
  frame.
\<close>

theorem frame_crosses_switch:
  assumes run: "(dp_step J C E D N ^^ n) (dp_from_parts dir tbl w) s" "pt_wf tbl" "pt_inj tbl" "n < 2 ^ 32 - 1"
    and lp: "map_of (in_ports s) name = Some lp" "lp_network lp = Some net" and ok: "\<not> dp_poisoned s"
    and f: "parse_frame frame = Inr parsed" "frame ! 0 AND 1 \<noteq> 0"
    and other: "be16 (frame ! 12) (frame ! 13) \<noteq> 0x0806" "be16 (frame ! 12) (frame ! 13) \<noteq> 0x0800"
      "\<forall>slot. map_of (in_passts s) name = Some slot \<longrightarrow> ps_mac slot \<noteq> Some (take 6 frame)"
    and q: "map_of (in_ports s) q = Some lq" "q \<noteq> name" "lp_network lq = Some net"
    and tx: "tx_ready Vt Gt mt vt c (encode_driver_tx frame)" "nb_tx_open bt"
    and rx: "rx_ready Vr Gr mr vr cs" "port_inbox s q = seen @ pending" "length pending < length cs"
      "length frame + 12 \<le> gv_capacity Gr (cs ! length pending)"
  shows "\<exists>mt' vt' rt s' mr' vr' rr.
      service_tx Vt bt mt vt = (bt\<lparr>nb_tx := nb_tx bt @ [FromVm frame]\<rparr>, mt', vt', rt)
      \<and> s' = fst (pump_turn D N E name (lp_id lp) (Received (FromVm frame), False) s)
      \<and> port_inbox s' q = seen @ pending @ [frame]
      \<and> service_rx Vr (br\<lparr>nb_rx := map ToVm (pending @ [frame])\<rparr>) mr vr = (br\<lparr>nb_rx := []\<rparr>, mr', vr', rr)
      \<and> decode_driver_rx (take (length frame + 12) (gv_buffer Gr mr' (cs ! length pending))) = Some frame"
proof -
  have t: "fst (pump_turn D N E name (lp_id lp) (Received (FromVm frame), False) s) = pump_frame D N E s name (lp_id lp) frame"
    by (simp add: pump_turn_def Let_def)
  have bc: "\<not> is_local_unicast frame" using f(2) by (simp add: is_local_unicast_def)
  have ty: "ethertype frame = Some (be16 (frame ! 12) (frame ! 13))"
    using parse_frame_len [OF f(1)] by (simp add: ethertype_def)
  have wan: "\<not> wan_uplink s name frame"
    using other(3) by (auto simp: wan_uplink_def bind_eq_Some_conv split: option.split)
  have "port_inbox (pump_frame D N E s name (lp_id lp) frame) q = seen @ pending @ [frame]"
    using pump_flood_inbox [OF bounded_run_ok [OF run] lp ok f(1) bc ty other(1,2) wan q(1)] q(2,3) rx(2) by simp
  with t tx_ready_publishes [OF tx] rx_ready_delivers [OF rx(1) _ rx(3,4), of "br\<lparr>nb_rx := map ToVm (pending @ [frame])\<rparr>"]
  show ?thesis by auto
qed

text \<open>The two rings of the demonstration are ready.\<close>

lemma ring_tx_ready:
  "tx_ready (ring_api 0) (ring_view\<lparr>gv_intact := \<lambda>_. True\<rparr>) [raw] (ring_fresh\<lparr>vr_queue := (vr_queue ring_fresh)\<lparr>rq_avail := 1\<rparr>\<rparr>) 0 raw"
  by (simp add: tx_ready_def queue_laws_def used_laws_def head_flags_def ring_eval)

lemma ring_rx_ready: "rx_ready (ring_api 2) ring_view ring_memory ring_fresh [0, 1]"
  using ring_queue_laws ring_used_laws ring_ready ring_memory_intact by (simp add: rx_ready_def ring_fresh_facts)

theorem frame_crosses_switch_witness:
  "port_inbox (fst (pump_turn (demo_codec Discover) demo_no_dns demo_os ''a'' 1 (Received (FromVm demo_frame), False) demo_both)) ''b''
     = port_inbox demo_both ''b'' @ [demo_frame]
   \<and> (\<exists>b' m' v' r.
      service_rx (ring_api 2) (net_backend_new [] [ToVm demo_frame] net_device_config_default 0) ring_memory ring_fresh = (b', m', v', r)
      \<and> decode_driver_rx (take (length demo_frame + 12) (m' ! 0)) = Some demo_frame)"
proof -
  have l: "length demo_frame + 12 \<le> gv_capacity ring_view ([0, 1] ! length ([] :: bytes list))"
    by (simp add: demo_frame_def eth_frame_def ring_view_def)
  have p: "frame ! 0 AND 1 \<noteq> 0" "be16 (frame ! 12) (frame ! 13) \<noteq> 0x0806" "be16 (frame ! 12) (frame ! 13) \<noteq> 0x0800"
    if "frame = demo_frame" for frame
    using demo_frame_facts that by (auto simp: is_local_unicast_def ethertype_def split: if_splits)
  have w: "\<forall>slot. map_of (in_passts demo_both) ''a'' = Some slot \<longrightarrow> ps_mac slot \<noteq> Some (take 6 demo_frame)"
    using demo_both_facts(4) by auto
  from frame_crosses_switch [OF demo_runs(2) [folded demo_start] pt_default_ok _ demo_both_facts(1) _ demo_both_facts(3)
      demo_frame_facts(1) p [OF refl] w demo_both_facts(2) _ _ ring_tx_ready _ ring_rx_ready _ _ l, of "''lab''"
      "net_backend_new [] [] net_device_config_default 0" "port_inbox demo_both ''b''" "demo_codec Discover" demo_no_dns
      "net_backend_new [] [] net_device_config_default 0"]
  show ?thesis by (simp add: demo_port_def net_backend_new_def) (simp add: ring_view_def, blast)
qed

end
